(* ===== verification/Emosa_Prelude.thy ===== *)
theory Emosa_Prelude
  imports Complex_Main "HOL-Library.Word" "HOL-Library.AList"
begin

unbundle bit_operations_syntax

text \<open>
  What every component of the library shares: the error values of \<open>emosa/errors.py\<close>, results of
  code that may raise, octet strings with the integer encodings of Python's \<open>int.to_bytes\<close>,
  \<open>int.from_bytes\<close> and \<open>struct\<close>, Python slices, the reader of the decoders, and the two codec
  interfaces (locales) through which the round trips of the wire formats are proved once.

  Conventions. Python's \<open>int\<close> is \<open>int\<close>; \<open>bytes\<close> is a list of 8-bit words; a tuple of equal things
  is a list; clock readings are reals (floating-point rounding is not modelled). A raised
  exception is \<open>Inl\<close>; of an \<open>EmosaError\<close> the reason code is kept and the message text is not.
  The isinstance and type tests of the source are the types of the model.
\<close>

named_theorems result_simps \<open>when a result is \<open>Inr\<close>, and what its parts then are\<close>
named_theorems codec_simps \<open>reading back what an encoder wrote\<close>
named_theorems put_defs \<open>definitions of the pure layouts\<close>

section \<open>Errors and results\<close>

datatype reason =
    INVALID_INPUT | UNSUPPORTED_OPERATION | SCHEMA_MISMATCH | NOT_READY | OWNERSHIP_CONFLICT_REASON
  | PRECONDITION_FAILED | APPLY_TIMEOUT | OUTCOME_UNKNOWN | MISSING_PREREQUISITE | BUSY | NOT_FOUND

text \<open>\<open>EmosaError\<close> is the program's own exception; the others are Python's.\<close>

datatype exn =
    EmosaError reason | IndexError | KeyError | StructError | OverflowError | AttributeError | OSError | ValueError
  | TypeError | ConnectionError | TimeoutError | IntegrityError

type_synonym 'a result = "exn + 'a"

abbreviation invalid :: "'a result" where
  "invalid \<equiv> Inl (EmosaError INVALID_INPUT)"

abbreviation unsupported :: "'a result" where
  "unsupported \<equiv> Inl (EmosaError UNSUPPORTED_OPERATION)"

abbreviation not_ready :: "'a result" where
  "not_ready \<equiv> Inl (EmosaError NOT_READY)"

text \<open>Sequencing: the rest runs only when nothing was raised.\<close>

definition bindR :: "'a result \<Rightarrow> ('a \<Rightarrow> 'b result) \<Rightarrow> 'b result" where
  "bindR m f = (case m of Inl e \<Rightarrow> Inl e | Inr x \<Rightarrow> f x)"

lemma bindR_Inl [simp]: "bindR (Inl e) f = Inl e"
  by (simp add: bindR_def)

lemma bindR_Inr [simp]: "bindR (Inr x) f = f x"
  by (simp add: bindR_def)

lemma bindR_eq_Inr [result_simps]: "bindR m f = Inr y \<longleftrightarrow> (\<exists>x. m = Inr x \<and> f x = Inr y)"
  by (cases m) auto

lemma bindR_unit: "bindR m f = Inr y \<longleftrightarrow> m = Inr () \<and> f () = Inr y"
  by (cases m) auto

lemma bindR_eq_Inl: "bindR m f = Inl e \<longleftrightarrow> m = Inl e \<or> (\<exists>x. m = Inr x \<and> f x = Inl e)"
  by (cases m) auto

lemma bindR_cong [fundef_cong]:
  "m = m' \<Longrightarrow> (\<And>x. m' = Inr x \<Longrightarrow> f x = f' x) \<Longrightarrow> bindR m f = bindR m' f'"
  by (cases m') auto

text \<open>\<open>if not b: raise e\<close> as a statement.\<close>

definition ensure :: "bool \<Rightarrow> exn \<Rightarrow> unit result" where
  "ensure b e = (if b then Inr () else Inl e)"

lemma ensure_True [simp]: "ensure True e = Inr ()"
  by (simp add: ensure_def)

lemma ensure_False [simp]: "ensure False e = Inl e"
  by (simp add: ensure_def)

lemma ensure_eq_Inr [result_simps]: "ensure b e = Inr u \<longleftrightarrow> b"
  by (simp add: ensure_def)

lemma if_Inl_eq_Inr [result_simps]: "(if b then Inl e else m) = Inr y \<longleftrightarrow> \<not> b \<and> m = Inr y"
  by simp

text \<open>A comprehension whose element expression may raise: left to right, the first error wins.\<close>

fun mapR :: "('a \<Rightarrow> 'b result) \<Rightarrow> 'a list \<Rightarrow> 'b list result" where
  "mapR f [] = Inr []"
| "mapR f (x # xs) = bindR (f x) (\<lambda>y. bindR (mapR f xs) (\<lambda>ys. Inr (y # ys)))"

lemma mapR_eq_Inr [result_simps]:
  "mapR f xs = Inr ys \<longleftrightarrow> list_all2 (\<lambda>x y. f x = Inr y) xs ys"
  by (induction xs arbitrary: ys) (auto simp: result_simps list_all2_Cons1)

lemma mapR_map: "mapR f (map g xs) = mapR (\<lambda>x. f (g x)) xs"
  by (induction xs) auto

lemma enumerate_map_upt: "enumerate 0 (map f [0..<n]) = map (\<lambda>i. (i, f i)) [0..<n]"
  by (rule nth_equalityI) (auto simp: nth_enumerate_eq)

lemma length_nth_le_concat: "i < length xss \<Longrightarrow> length (xss ! i) \<le> length (concat xss)"
  unfolding length_concat by (rule member_le_sum_list) auto

lemma mapR_total: "(\<And>x. x \<in> set xs \<Longrightarrow> f x = Inr (g x)) \<Longrightarrow> mapR f xs = Inr (map g xs)"
  by (induction xs) auto

text \<open>\<open>for x in xs: s = f(s, x)\<close> where the body may raise.\<close>

fun foldR :: "('s \<Rightarrow> 'a \<Rightarrow> 's result) \<Rightarrow> 's \<Rightarrow> 'a list \<Rightarrow> 's result" where
  "foldR f s [] = Inr s"
| "foldR f s (x # xs) = bindR (f s x) (\<lambda>s'. foldR f s' xs)"

lemma foldR_append: "foldR f s (xs @ ys) = bindR (foldR f s xs) (\<lambda>s'. foldR f s' ys)"
proof (induction xs arbitrary: s)
  case (Cons x xs)
  then show ?case by (cases "f s x") auto
qed simp

lemma foldR_invariant:
  assumes "foldR f s xs = Inr t" and "I s"
    and "\<And>s x s'. x \<in> set xs \<Longrightarrow> I s \<Longrightarrow> f s x = Inr s' \<Longrightarrow> I s'"
  shows "I t"
  using assms
proof (induction xs arbitrary: s)
  case (Cons x xs)
  then obtain s' where "f s x = Inr s'" "foldR f s' xs = Inr t"
    by (auto simp: result_simps)
  with Cons show ?case by (metis list.set_intros(1,2))
qed simp

section \<open>Octets and integers\<close>

type_synonym octet = "8 word"
type_synonym bytes = "octet list"

text \<open>\<open>bytes((v,))\<close> for \<open>0 <= v <= 255\<close>, and the value of an octet.\<close>

abbreviation oct :: "int \<Rightarrow> octet" where
  "oct v \<equiv> word_of_int v"

abbreviation val :: "octet \<Rightarrow> int" where
  "val b \<equiv> uint b"

lemma val_range [simp]: "0 \<le> val b" "val b < 256" "val b \<le> 255"
  using uint_lt2p [of b] by simp_all

lemma val_pos_iff: "0 < val b \<longleftrightarrow> val b \<noteq> 0"
  using val_range(1) [of b] by (metis less_le)

lemma oct_val [simp]: "oct (val b) = b"
  by simp

lemma val_oct [simp]: "0 \<le> v \<Longrightarrow> v < 256 \<Longrightarrow> val (oct v) = v"
  by (simp add: uint_word_of_int take_bit_int_eq_self)

lemma val_oct_mod: "val (oct v) = v mod 256"
  by (simp add: uint_word_of_int take_bit_eq_mod)

lemma val_of_nat [simp]: "n < 256 \<Longrightarrow> val (word_of_nat n) = int n"
  by (simp add: uint_nat unat_of_nat)

lemma unat_of_nat_octet [simp]: "n < 256 \<Longrightarrow> unat (word_of_nat n :: octet) = n"
  by (simp add: unat_of_nat)

text \<open>Masks of low bits are remainders.\<close>

lemma and_mask_mod: "(v :: int) AND (2 ^ n - 1) = v mod 2 ^ n"
  by (metis mask_eq_exp_minus_1 take_bit_eq_mask take_bit_eq_mod)

lemma and_FFFF: "(v :: int) AND 0xFFFF = v mod 65536"
  using and_mask_mod [of v 16] by simp

text \<open>Association lists, the model of dictionaries: assigning to a key appends it when it is new and
  keeps its place otherwise.\<close>

lemma update_new: "map_of al k = None \<Longrightarrow> AList.update k v al = al @ [(k, v)]"
  by (induction al) auto

lemma length_update_le: "length (AList.update k v al) \<le> Suc (length al)"
  by (induction al) auto

lemma distinct_map_fst_filter: "distinct (map fst xs) \<Longrightarrow> distinct (map fst (filter P xs))"
  by (simp add: distinct_map_filter)

lemma map_of_filter_val:
  "distinct (map fst xs) \<Longrightarrow>
   map_of (filter (\<lambda>(_, e). P e) xs) k = (case map_of xs k of None \<Rightarrow> None | Some e \<Rightarrow> if P e then Some e else None)"
  by (induction xs) (auto simp: map_of_eq_None_iff split: option.splits dest: map_of_SomeD)

text \<open>\<open>v.to_bytes(n, "big")\<close> for \<open>0 <= v < 256 ** n\<close>, and \<open>int.from_bytes(bs, "big")\<close>.\<close>

fun to_be :: "nat \<Rightarrow> int \<Rightarrow> bytes" where
  "to_be 0 v = []"
| "to_be (Suc n) v = to_be n (v div 256) @ [oct v]"

definition from_be :: "bytes \<Rightarrow> int" where
  "from_be bs = foldl (\<lambda>a b. 256 * a + val b) 0 bs"

definition from_le :: "bytes \<Rightarrow> int" where
  "from_le bs = from_be (rev bs)"

definition to_le :: "nat \<Rightarrow> int \<Rightarrow> bytes" where
  "to_le n v = rev (to_be n v)"

lemma length_to_be [simp]: "length (to_be n v) = n"
  by (induction n arbitrary: v) auto

lemma length_to_le [simp]: "length (to_le n v) = n"
  by (simp add: to_le_def)

lemma from_be_Nil [simp]: "from_be [] = 0"
  by (simp add: from_be_def)

lemma from_be_snoc [simp]: "from_be (bs @ [b]) = 256 * from_be bs + val b"
  by (simp add: from_be_def)

lemma from_be_nonneg [simp]: "0 \<le> from_be bs"
  by (induction bs rule: rev_induct) auto

lemma from_be_less: "from_be bs < 256 ^ length bs"
proof (induction bs rule: rev_induct)
  case (snoc b bs)
  have "256 * from_be bs + val b < 256 * (from_be bs + 1)"
    using val_range(2) [of b] by simp
  also have "\<dots> \<le> 256 * 256 ^ length bs" using snoc by simp
  finally show ?case by simp
qed simp

lemma from_be_to_be [codec_simps]: "0 \<le> v \<Longrightarrow> v < 256 ^ n \<Longrightarrow> from_be (to_be n v) = v"
proof (induction n arbitrary: v)
  case (Suc n)
  have "v div 256 < 256 ^ n"
    using Suc.prems by (simp add: div_less_iff_less_mult mult.commute)
  then have "from_be (to_be n (v div 256)) = v div 256"
    using Suc by simp
  then show ?case by (simp add: val_oct_mod)
qed simp

lemma to_be_from_be [codec_simps]: "length bs = n \<Longrightarrow> to_be n (from_be bs) = bs"
proof (induction bs arbitrary: n rule: rev_induct)
  case (snoc b bs)
  have "oct (256 * from_be bs + val b) = b"
    by (rule word_uint_eqI) (simp only: val_oct_mod mod_mult_self4 mod_pos_pos_trivial val_range)
  moreover have "(256 * from_be bs + val b) div 256 = from_be bs"
    by simp
  ultimately show ?case using snoc by auto
qed simp

lemma from_le_to_le [codec_simps]: "0 \<le> v \<Longrightarrow> v < 256 ^ n \<Longrightarrow> from_le (to_le n v) = v"
  by (simp add: from_le_def to_le_def from_be_to_be)

lemma from_le_range [simp]: "0 \<le> from_le bs"
  by (simp add: from_le_def)

lemma from_le_less: "from_le bs < 256 ^ length bs"
  using from_be_less [of "rev bs"] by (simp add: from_le_def)

lemma from_be_1 [simp]: "from_be [b] = val b"
  using from_be_snoc [of "[]" b] by simp

text \<open>\<open>struct\<close> formats and \<open>to_bytes(2, "big")\<close>: a 16- or 32-bit big-endian integer. A value that
  does not fit raises; the callers below check the range first or say what is raised.\<close>

abbreviation u16 :: "int \<Rightarrow> bytes" where "u16 v \<equiv> to_be 2 v"
abbreviation u32 :: "int \<Rightarrow> bytes" where "u32 v \<equiv> to_be 4 v"

lemma u16_explicit: "u16 v = [oct (v div 256), oct v]"
  by (simp add: numeral_2_eq_2)

lemma val_eq_0_iff: "val b = 0 \<longleftrightarrow> b = 0"
  by (metis uint_0_iff)

section \<open>Python slices\<close>

text \<open>\<open>xs[a:b]\<close> for natural bounds; the end of the list cuts it short, as in Python.\<close>

definition py_slice :: "'a list \<Rightarrow> nat \<Rightarrow> nat \<Rightarrow> 'a list" where
  "py_slice xs a b = take (b - a) (drop a xs)"

lemma length_py_slice [simp]: "length (py_slice xs a b) = min (b - a) (length xs - a)"
  by (simp add: py_slice_def)

lemma py_slice_0 [simp]: "py_slice xs 0 b = take b xs"
  by (simp add: py_slice_def)

lemma py_slice_append_left [simp]: "b \<le> length xs \<Longrightarrow> py_slice (xs @ ys) a b = py_slice xs a b"
  by (simp add: py_slice_def)

lemma py_slice_append_right: "length xs \<le> a \<Longrightarrow> py_slice (xs @ ys) a b = py_slice ys (a - length xs) (b - length xs)"
  by (simp add: py_slice_def)

section \<open>Readers\<close>

text \<open>
  The decoders read octets from the front of a value and keep the rest: the state of a reader
  with fields \<open>value\<close> and \<open>offset\<close> is represented by \<open>value[offset:]\<close>.
\<close>

type_synonym 'a parser = "bytes \<Rightarrow> ('a \<times> bytes) result"

definition returnP :: "'a \<Rightarrow> 'a parser" where
  "returnP x bs = Inr (x, bs)"

definition failP :: "exn \<Rightarrow> 'a parser" where
  "failP e bs = Inl e"

definition thenP :: "'a parser \<Rightarrow> ('a \<Rightarrow> 'b parser) \<Rightarrow> 'b parser" where
  "thenP p f bs = bindR (p bs) (\<lambda>(x, rest). f x rest)"

lemma thenP_Inr: "p bs = Inr (x, rest) \<Longrightarrow> thenP p f bs = f x rest"
  by (simp add: thenP_def)

lemma thenP_eq_Inr [result_simps]:
  "thenP p f bs = Inr y \<longleftrightarrow> (\<exists>x rest. p bs = Inr (x, rest) \<and> f x rest = Inr y)"
  by (auto simp: thenP_def result_simps)

lemma returnP_eq_Inr [result_simps]: "returnP x bs = Inr y \<longleftrightarrow> y = (x, bs)"
  by (auto simp: returnP_def)

lemma failP_eq_Inr [result_simps]: "failP e bs = Inr y \<longleftrightarrow> False"
  by (simp add: failP_def)

lemma case_failP_eq_Inr [result_simps]:
  "(case m of Inl e \<Rightarrow> failP e | Inr x \<Rightarrow> p x) bs = Inr y \<longleftrightarrow> (\<exists>x. m = Inr x \<and> p x bs = Inr y)"
  by (cases m) (auto simp: failP_def)

lemma returnP_apply [simp]: "returnP x bs = Inr (x, bs)"
  by (simp add: returnP_def)

lemma failP_apply [simp]: "failP e bs = Inl e"
  by (simp add: failP_def)

text \<open>\<open>_Reader.take\<close> and \<open>_Reader.octet\<close>: reading past the end is invalid input.\<close>

definition get_bytes :: "nat \<Rightarrow> bytes parser" where
  "get_bytes n bs = (if length bs < n then invalid else Inr (take n bs, drop n bs))"

definition get_octet :: "int parser" where
  "get_octet = thenP (get_bytes 1) (\<lambda>bs. returnP (from_be bs))"

definition get_u16 :: "int parser" where
  "get_u16 = thenP (get_bytes 2) (\<lambda>bs. returnP (from_be bs))"

text \<open>\<open>tuple(read() for _ in range(n))\<close>.\<close>

fun timesP :: "nat \<Rightarrow> 'a parser \<Rightarrow> 'a list parser" where
  "timesP 0 p = returnP []"
| "timesP (Suc n) p = thenP p (\<lambda>x. thenP (timesP n p) (\<lambda>xs. returnP (x # xs)))"

lemma get_bytes_append [codec_simps]: "length xs = n \<Longrightarrow> get_bytes n (xs @ rest) = Inr (xs, rest)"
  by (simp add: get_bytes_def)

lemma get_bytes_eq_Inr [result_simps]:
  "get_bytes n bs = Inr (xs, rest) \<longleftrightarrow> bs = xs @ rest \<and> length xs = n"
  by (auto simp: get_bytes_def min_def)

lemma get_octet_Cons [codec_simps]: "get_octet (b # rest) = Inr (val b, rest)"
  by (simp add: get_octet_def thenP_def get_bytes_def)

lemma get_octet_Nil [simp]: "get_octet [] = invalid"
  by (simp add: get_octet_def thenP_def get_bytes_def)

lemma get_octet_eq_Inr [result_simps]:
  "get_octet bs = Inr (v, rest) \<longleftrightarrow> (\<exists>b. bs = b # rest \<and> v = val b)"
  by (cases bs) (auto simp: codec_simps)

lemma get_u16_append [codec_simps]:
  "0 \<le> v \<Longrightarrow> v < 65536 \<Longrightarrow> get_u16 (u16 v @ rest) = Inr (v, rest)"
  by (simp add: get_u16_def thenP_def get_bytes_append from_be_to_be)

lemma get_u16_eq_Inr [result_simps]:
  "get_u16 bs = Inr (v, rest) \<longleftrightarrow> bs = u16 v @ rest \<and> 0 \<le> v \<and> v < 65536"
proof
  assume "get_u16 bs = Inr (v, rest)"
  then obtain xs where xs: "bs = xs @ rest" "length xs = 2" "v = from_be xs"
    by (auto simp: get_u16_def result_simps)
  with from_be_less [of xs] show "bs = u16 v @ rest \<and> 0 \<le> v \<and> v < 65536"
    by (simp add: to_be_from_be)
qed (simp add: codec_simps)

lemma length_timesP: "timesP n p bs = Inr (xs, rest) \<Longrightarrow> length xs = n"
  by (induction n arbitrary: bs xs rest) (auto simp: result_simps)

text \<open>A reader that refuses malformed input with \<open>INVALID_INPUT\<close> and raises nothing else.\<close>

definition only_invalid :: "'a parser \<Rightarrow> bool" where
  "only_invalid p \<longleftrightarrow> (\<forall>bs e. p bs = Inl e \<longrightarrow> e = EmosaError INVALID_INPUT)"

named_theorems only_invalid_intros \<open>readers that raise nothing but invalid input\<close>

lemma only_invalid_returnP [only_invalid_intros]: "only_invalid (returnP x)"
  by (simp add: only_invalid_def)

lemma only_invalid_failP [only_invalid_intros]: "only_invalid (failP (EmosaError INVALID_INPUT))"
  by (simp add: only_invalid_def)

lemma only_invalid_thenP [only_invalid_intros]:
  "only_invalid p \<Longrightarrow> (\<And>x. only_invalid (f x)) \<Longrightarrow> only_invalid (thenP p f)"
  by (auto simp: only_invalid_def thenP_def bindR_eq_Inl)

lemma only_invalid_get_bytes [only_invalid_intros]: "only_invalid (get_bytes n)"
  by (auto simp: only_invalid_def get_bytes_def)

lemma only_invalid_get_octet [only_invalid_intros]: "only_invalid get_octet"
  unfolding get_octet_def by (intro only_invalid_intros)

lemma only_invalid_get_u16 [only_invalid_intros]: "only_invalid get_u16"
  unfolding get_u16_def by (intro only_invalid_intros)

lemma only_invalid_timesP [only_invalid_intros]: "only_invalid p \<Longrightarrow> only_invalid (timesP n p)"
  by (induction n) (auto intro!: only_invalid_intros)

lemma only_invalid_if [only_invalid_intros]:
  "only_invalid p \<Longrightarrow> only_invalid q \<Longrightarrow> only_invalid (if b then p else q)"
  by simp

section \<open>The codec interfaces\<close>

text \<open>
  A prefix codec writes a value and reads it back from the front of any longer input; \<open>ok\<close> says
  which values it can carry. A repeated element inherits the law, which is how every list of the
  wire formats is read.
\<close>

locale prefix_codec =
  fixes put :: "'a \<Rightarrow> bytes" and get :: "'a parser" and ok :: "'a \<Rightarrow> bool"
  assumes get_put: "ok x \<Longrightarrow> get (put x @ rest) = Inr (x, rest)"
begin

lemma times_get_put:
  "list_all ok xs \<Longrightarrow> n = length xs \<Longrightarrow>
   timesP n get (concat (map put xs) @ rest) = Inr (xs, rest)"
  by (induction xs arbitrary: n) (auto simp: thenP_def get_put)

lemma put_prefix_free:
  assumes "ok x" "ok y" "put x @ xs = put y @ ys"
  shows "x = y \<and> xs = ys"
proof -
  have "Inr (x, xs) = (Inr (y, ys) :: ('a \<times> bytes) result)"
    using get_put [OF assms(1), of xs] get_put [OF assms(2), of ys] assms(3) by metis
  then show ?thesis by simp
qed

lemma concat_put_inj:
  assumes "list_all ok xs" "list_all ok ys" "length xs = length ys"
    and "concat (map put xs) = concat (map put ys)"
  shows "xs = ys"
  using times_get_put [OF assms(1) refl, of "[]"] times_get_put [OF assms(2) refl, of "[]"] assms(3,4)
  by simp

end

text \<open>An exact codec also reads nothing but what it writes: no two octet strings read alike.\<close>

locale exact_codec = prefix_codec +
  assumes put_get: "get bs = Inr (x, rest) \<Longrightarrow> ok x \<and> bs = put x @ rest"
begin

lemma times_put_get:
  "timesP n get bs = Inr (xs, rest) \<Longrightarrow> list_all ok xs \<and> length xs = n \<and> bs = concat (map put xs) @ rest"
proof (induction n arbitrary: bs xs)
  case (Suc n)
  then obtain x ys mid where *: "get bs = Inr (x, mid)" "timesP n get mid = Inr (ys, rest)" "xs = x # ys"
    by (auto simp: result_simps)
  with Suc.IH [OF *(2)] put_get [OF *(1)] show ?case by simp
qed (simp add: returnP_def)

lemma get_iff: "get bs = Inr (x, rest) \<longleftrightarrow> ok x \<and> bs = put x @ rest"
  using get_put put_get by blast

lemma times_get_iff:
  "timesP n get bs = Inr (xs, rest) \<longleftrightarrow> length xs = n \<and> list_all ok xs \<and> bs = concat (map put xs) @ rest"
  using times_get_put times_put_get by blast

end

lemma exact_codecI:
  assumes "\<And>bs x rest. get bs = Inr (x, rest) \<longleftrightarrow> ok x \<and> bs = put x @ rest"
  shows "exact_codec put get ok"
  by unfold_locales (auto simp: assms)

text \<open>A whole-value codec: an encoder that may refuse, and the decoder of complete values.\<close>

locale value_codec =
  fixes encode :: "'a \<Rightarrow> bytes result" and decode :: "bytes \<Rightarrow> 'a result" and canon :: "'a \<Rightarrow> 'a"
  assumes decode_encode: "encode x = Inr bs \<Longrightarrow> decode bs = Inr (canon x)"
begin

lemma encode_inj: "encode x = Inr bs \<Longrightarrow> encode y = Inr bs \<Longrightarrow> canon x = canon y"
  using decode_encode by (metis sum.inject(2))

lemma encode_decodable: "encode x = Inr bs \<Longrightarrow> \<exists>y. decode bs = Inr y"
  using decode_encode by blast

end

text \<open>Fixed-width fields are exact codecs.\<close>

interpretation raw: exact_codec "\<lambda>xs. xs" "get_bytes n" "\<lambda>xs. length xs = n"
  by unfold_locales (auto simp: codec_simps result_simps)

interpretation octet: exact_codec "\<lambda>v. [oct v]" get_octet "\<lambda>v. 0 \<le> v \<and> v < 256"
  by unfold_locales (auto simp: codec_simps result_simps)

interpretation be16: exact_codec "\<lambda>v. u16 v" get_u16 "\<lambda>v. 0 \<le> v \<and> v < 65536"
  by unfold_locales (auto simp: codec_simps result_simps)

lemmas read_iffs = raw.get_iff octet.get_iff be16.get_iff thenP_eq_Inr returnP_eq_Inr failP_eq_Inr
  case_failP_eq_Inr

section \<open>Decimal digits\<close>

text \<open>\<open>str.isdigit\<close> on ASCII strings, and the conversions between numbers and digits.\<close>

definition isdigit_char :: "char \<Rightarrow> bool" where
  "isdigit_char c \<longleftrightarrow> 48 \<le> (of_char c :: nat) \<and> (of_char c :: nat) \<le> 57"

definition isdigit :: "string \<Rightarrow> bool" where
  "isdigit s \<longleftrightarrow> s \<noteq> [] \<and> list_all isdigit_char s"

definition digits_int :: "string \<Rightarrow> nat" where
  "digits_int s = foldl (\<lambda>n c. 10 * n + (of_char c - 48)) 0 s"

fun int_digits :: "nat \<Rightarrow> string" where
  "int_digits n = (if n < 10 then [char_of (48 + n)] else int_digits (n div 10) @ [char_of (48 + n mod 10)])"

declare int_digits.simps [simp del]

lemma digits_zero [simp]: "digits_int ''0'' = 0"
  by (simp add: digits_int_def)

lemma digit_char [simp]: "n < 10 \<Longrightarrow> isdigit_char (char_of (48 + n))" "n < 10 \<Longrightarrow> of_char (char_of (48 + n :: nat)) - 48 = n"
  by (simp_all add: isdigit_char_def)

lemma digits_int_digits [simp]: "digits_int (int_digits n) = n"
proof (induction n rule: int_digits.induct)
  case (1 n)
  have "digits_int (xs @ [c]) = 10 * digits_int xs + (of_char c - 48)" for xs c by (simp add: digits_int_def)
  with 1 show ?case by (cases "n < 10") (simp_all add: digits_int_def int_digits.simps [of n])
qed

lemma isdigit_int_digits [simp]: "isdigit (int_digits n)"
proof (induction n rule: int_digits.induct)
  case (1 n)
  then show ?case by (cases "n < 10") (simp_all add: isdigit_def int_digits.simps [of n])
qed

lemma int_digits_inj [simp]: "int_digits m = int_digits n \<longleftrightarrow> m = n"
  by (metis digits_int_digits)

section \<open>Invariants of components\<close>

text \<open>The states a component can be in: it starts in one that \<open>init\<close> allows and moves by \<open>step\<close>.\<close>

inductive reachable :: "('s \<Rightarrow> bool) \<Rightarrow> ('s \<Rightarrow> 's \<Rightarrow> bool) \<Rightarrow> 's \<Rightarrow> bool" for init step where
  reachable_init: "init s \<Longrightarrow> reachable init step s"
| reachable_step: "reachable init step s \<Longrightarrow> step s t \<Longrightarrow> reachable init step t"

text \<open>The contract of a component with an invariant, and what every component gets from it.\<close>

locale state_invariant =
  fixes init :: "'s \<Rightarrow> bool" and step :: "'s \<Rightarrow> 's \<Rightarrow> bool" and inv :: "'s \<Rightarrow> bool"
  assumes inv_init: "init s \<Longrightarrow> inv s"
    and inv_step: "inv s \<Longrightarrow> step s t \<Longrightarrow> inv t"
begin

lemma reachable_inv: "reachable init step s \<Longrightarrow> inv s"
  by (induction rule: reachable.induct) (auto intro: inv_init inv_step)

end

end
