(* ===== verification/Hmac_Sha256.thy ===== *)
theory Hmac_Sha256
  imports Emosa_Prelude
begin

unbundle bit_operations_syntax

text \<open>
  The digests of the Python standard library that the WSC component calls: \<open>hashlib.sha256(m).digest()\<close>
  (FIPS 180-4) and \<open>hmac.digest(key, m, "sha256")\<close> (RFC 2104).
\<close>

type_synonym w32 = "32 word"

text \<open>The round constants and the initial hash value of the standard, in decimal.\<close>

definition sha_K :: "w32 list" where
  "sha_K =
    [1116352408, 1899447441, 3049323471, 3921009573, 961987163, 1508970993, 2453635748, 2870763221,
     3624381080, 310598401, 607225278, 1426881987, 1925078388, 2162078206, 2614888103, 3248222580,
     3835390401, 4022224774, 264347078, 604807628, 770255983, 1249150122, 1555081692, 1996064986,
     2554220882, 2821834349, 2952996808, 3210313671, 3336571891, 3584528711, 113926993, 338241895,
     666307205, 773529912, 1294757372, 1396182291, 1695183700, 1986661051, 2177026350, 2456956037,
     2730485921, 2820302411, 3259730800, 3345764771, 3516065817, 3600352804, 4094571909, 275423344,
     430227734, 506948616, 659060556, 883997877, 958139571, 1322822218, 1537002063, 1747873779,
     1955562222, 2024104815, 2227730452, 2361852424, 2428436474, 2756734187, 3204031479, 3329325298]"

definition sha_H :: "w32 list" where
  "sha_H = [1779033703, 3144134277, 1013904242, 2773480762, 1359893119, 2600822924, 528734635, 1541459225]"

definition rotr :: "nat \<Rightarrow> w32 \<Rightarrow> w32" where
  "rotr n x = drop_bit n x OR push_bit (32 - n) x"

definition be32 :: "bytes \<Rightarrow> w32" where
  "be32 bs = word_of_int (from_be bs)"

text \<open>The message schedule, extended one word at a time.\<close>

definition sched_word :: "w32 list \<Rightarrow> w32" where
  "sched_word ws =
     (let n = length ws; a = ws ! (n - 15); b = ws ! (n - 2);
          s0 = rotr 7 a XOR rotr 18 a XOR drop_bit 3 a;
          s1 = rotr 17 b XOR rotr 19 b XOR drop_bit 10 b
      in ws ! (n - 16) + s0 + ws ! (n - 7) + s1)"

fun schedule :: "nat \<Rightarrow> w32 list \<Rightarrow> w32 list" where
  "schedule 0 ws = ws"
| "schedule (Suc n) ws = schedule n (ws @ [sched_word ws])"

definition sha_round :: "w32 list \<Rightarrow> w32 \<times> w32 \<Rightarrow> w32 list" where
  "sha_round s kw =
     (let a = s ! 0; b = s ! 1; c = s ! 2; d = s ! 3; e = s ! 4; f = s ! 5; g = s ! 6; h = s ! 7;
          S1 = rotr 6 e XOR rotr 11 e XOR rotr 25 e;
          ch = (e AND f) XOR (NOT e AND g);
          t1 = h + S1 + ch + fst kw + snd kw;
          S0 = rotr 2 a XOR rotr 13 a XOR rotr 22 a;
          maj = (a AND b) XOR (a AND c) XOR (b AND c)
      in [t1 + S0 + maj, a, b, c, d + t1, e, f, g])"

definition block_words :: "bytes \<Rightarrow> w32 list" where
  "block_words block = map (\<lambda>i. be32 (py_slice block (4 * i) (4 * i + 4))) [0..<16]"

definition sha_compress :: "w32 list \<Rightarrow> bytes \<Rightarrow> w32 list" where
  "sha_compress s block = map2 (+) s (foldl sha_round s (zip sha_K (schedule 48 (block_words block))))"

definition sha_pad :: "bytes \<Rightarrow> bytes" where
  "sha_pad m = m @ 0x80 # replicate ((119 - length m mod 64) mod 64) 0 @ to_be 8 (8 * int (length m))"

definition sha256 :: "bytes \<Rightarrow> bytes" where
  "sha256 m =
     (let p = sha_pad m
      in concat (map (\<lambda>w. to_be 4 (uint w))
           (foldl sha_compress sha_H (map (\<lambda>i. py_slice p (64 * i) (64 * i + 64)) [0..<length p div 64]))))"

definition hmac_sha256 :: "bytes \<Rightarrow> bytes \<Rightarrow> bytes" where
  "hmac_sha256 key m =
     (let k0 = (if length key > 64 then sha256 key else key);
          k = k0 @ replicate (64 - length k0) 0
      in sha256 (map (\<lambda>b. b XOR 0x5c) k @ sha256 (map (\<lambda>b. b XOR 0x36) k @ m)))"

section \<open>Lengths\<close>

lemma length_sha_round [simp]: "length (sha_round s kw) = 8"
  by (simp add: sha_round_def Let_def)

lemma length_foldl_sha_round: "length s = 8 \<Longrightarrow> length (foldl sha_round s kws) = 8"
  by (induction kws arbitrary: s) auto

lemma length_foldl_compress: "length s = 8 \<Longrightarrow> length (foldl sha_compress s blocks) = 8"
  by (induction blocks arbitrary: s) (auto simp: sha_compress_def length_foldl_sha_round)

lemma length_concat_words: "length (concat (map (\<lambda>w :: w32. to_be 4 (uint w)) ws)) = 4 * length ws"
  by (induction ws) auto

lemma length_sha256 [simp]: "length (sha256 m) = 32"
  by (simp add: sha256_def Let_def length_concat_words length_foldl_compress sha_H_def)

lemma length_hmac_sha256 [simp]: "length (hmac_sha256 key m) = 32"
  by (simp add: hmac_sha256_def Let_def)

lemma length_sha_pad: "length (sha_pad m) mod 64 = 0"
proof -
  define r q where "r = length m mod 64" and "q = length m div 64"
  have m: "length m = 64 * q + r" and "r < 64" by (simp_all add: r_def q_def)
  have "(1 + 8 + r + (119 - r) mod 64) mod 64 = (1 + 8 + r + (119 - r)) mod 64" by (simp add: mod_add_right_eq)
  with \<open>r < 64\<close> have "(1 + 8 + r + (119 - r) mod 64) mod 64 = 0" by simp
  then have "(64 * q + (1 + 8 + r + (119 - r) mod 64)) mod 64 = 0" by simp
  moreover have "length (sha_pad m) = 64 * q + (1 + 8 + r + (119 - r) mod 64)"
    using m \<open>r < 64\<close> by (simp add: sha_pad_def)
  ultimately show ?thesis by simp
qed

section \<open>A published digest\<close>

text \<open>The digest of the three octets \<open>abc\<close> (FIPS 180-4, example B.1), evaluated in stages: the schedule of the one
  block, then sixteen rounds at a time.\<close>

definition abc_words :: "w32 list" where
  "abc_words =
    [0x61626380, 0, 0, 0, 0, 0, 0, 0,
     0, 0, 0, 0, 0, 0, 0, 0x18,
     0x61626380, 0xf0000, 0x7da86405, 0x600003c6, 0x3e9d7b78, 0x183fc00, 0x12dcbfdb, 0xe2e2c38e,
     0xc8215c1a, 0xb73679a2, 0xe5bc3909, 0x32663c5b, 0x9d209d67, 0xec8726cb, 0x702138a4, 0xd3b7973b,
     0x93f5997f, 0x3b68ba73, 0xaff4ffc1, 0xf10a5c62, 0xa8b3996, 0x72af830a, 0x9409e33e, 0x24641522,
     0x9f47bf94, 0xf0a64f5a, 0x3e246a79, 0x27333ba3, 0xc4763f2, 0x840abf27, 0x7a290d5d, 0x65c43da,
     0xfb3e89cb, 0xcc7617db, 0xb9e66c34, 0xa9993667, 0x84badedd, 0xc21462bc, 0x1487472c, 0xb20f7a99,
     0xef57b9cd, 0xebe6b238, 0x9fe3095e, 0x78bc8d4b, 0xa43fcf15, 0x668b2ff8, 0xeeaba2cc, 0x12b1edeb]"

lemma abc_schedule: "schedule 48 (block_words (sha_pad [0x61, 0x62, 0x63])) = abc_words"
  by code_simp

lemma abc_rounds_1: "foldl sha_round sha_H
  (zip (take 16 sha_K) (take 16 abc_words)) = [0xb0fa238e, 0xc0645fde, 0xd932eb16, 0x87912990, 0x7590dcd, 0xb92f20c, 0x745a48de, 0x1e578218]"
  by code_simp

lemma abc_rounds_2: "foldl sha_round [0xb0fa238e, 0xc0645fde, 0xd932eb16, 0x87912990, 0x7590dcd, 0xb92f20c, 0x745a48de, 0x1e578218]
  (zip (take 16 (drop 16 sha_K)) (take 16 (drop 16 abc_words))) = [0x73b33bf5, 0xea992a22, 0xa0060b30, 0x363482c9, 0xba591112, 0x109ab3a, 0xade79437, 0x6112a3b7]"
  by code_simp

lemma abc_rounds_3: "foldl sha_round [0x73b33bf5, 0xea992a22, 0xa0060b30, 0x363482c9, 0xba591112, 0x109ab3a, 0xade79437, 0x6112a3b7]
  (zip (take 16 (drop 32 sha_K)) (take 16 (drop 32 abc_words))) = [0x4172328d, 0xa14c14b0, 0x72ab4b91, 0x26628815, 0xfecf0bc6, 0xd57b94a9, 0xb7755da1, 0xa80f11f0]"
  by code_simp

lemma abc_rounds_4: "foldl sha_round [0x4172328d, 0xa14c14b0, 0x72ab4b91, 0x26628815, 0xfecf0bc6, 0xd57b94a9, 0xb7755da1, 0xa80f11f0]
  (zip (drop 48 sha_K) (drop 48 abc_words)) = [0x506e3058, 0xd39a2165, 0x4d24d6c, 0xb85e2ce9, 0x5ef50f24, 0xfb121210, 0x948d25b6, 0x961f4894]"
  by code_simp

lemma foldl_chunks: "length xs = 64 \<Longrightarrow> foldl f s xs = foldl f (foldl f (foldl f (foldl f s (take 16 xs))
    (take 16 (drop 16 xs))) (take 16 (drop 32 xs))) (take 16 (drop 48 xs))"
proof -
  assume "length xs = 64"
  then have "xs = take 16 xs @ take 16 (drop 16 xs) @ take 16 (drop 32 xs) @ take 16 (drop 48 xs)"
    by (simp add: nth_equalityI nth_append)
  then show ?thesis by (metis foldl_append)
qed

lemma sha256_abc:
  "sha256 [0x61, 0x62, 0x63] =
    [0xba, 0x78, 0x16, 0xbf, 0x8f, 0x01, 0xcf, 0xea, 0x41, 0x41, 0x40, 0xde, 0x5d, 0xae, 0x22, 0x23,
     0xb0, 0x03, 0x61, 0xa3, 0x96, 0x17, 0x7a, 0x9c, 0xb4, 0x10, 0xff, 0x61, 0xf2, 0x00, 0x15, 0xad]"
proof -
  have pad: "length (sha_pad [0x61, 0x62, 0x63]) = 64" by (simp add: sha_pad_def)
  have len: "length sha_K = 64" "length abc_words = 64" by (simp_all add: sha_K_def abc_words_def)
  have "foldl sha_round sha_H (zip sha_K abc_words) = [0x506e3058, 0xd39a2165, 0x4d24d6c, 0xb85e2ce9, 0x5ef50f24, 0xfb121210, 0x948d25b6, 0x961f4894]"
    by (subst foldl_chunks) (simp_all add: len take_zip drop_zip abc_rounds_1 abc_rounds_2 abc_rounds_3 abc_rounds_4)
  then have "sha_compress sha_H (sha_pad [0x61, 0x62, 0x63]) = [0xba7816bf, 0x8f01cfea, 0x414140de, 0x5dae2223, 0xb00361a3, 0x96177a9c, 0xb410ff61, 0xf20015ad]"
    by (simp add: sha_compress_def abc_schedule) (simp add: sha_H_def)
  moreover have "map (\<lambda>i. py_slice (sha_pad [0x61, 0x62, 0x63]) (64 * i) (64 * i + 64))
      [0..<length (sha_pad [0x61, 0x62, 0x63]) div 64] = [sha_pad [0x61, 0x62, 0x63]]"
    using pad by simp
  ultimately have "sha256 [0x61, 0x62, 0x63] = concat (map (\<lambda>w. to_be 4 (uint w)) ([0xba7816bf, 0x8f01cfea, 0x414140de, 0x5dae2223, 0xb00361a3, 0x96177a9c, 0xb410ff61, 0xf20015ad] :: w32 list))"
    by (simp only: sha256_def Let_def foldl.simps)
  also have "\<dots> =
    [0xba, 0x78, 0x16, 0xbf, 0x8f, 0x01, 0xcf, 0xea, 0x41, 0x41, 0x40, 0xde, 0x5d, 0xae, 0x22, 0x23,
     0xb0, 0x03, 0x61, 0xa3, 0x96, 0x17, 0x7a, 0x9c, 0xb4, 0x10, 0xff, 0x61, 0xf2, 0x00, 0x15, 0xad]"
    by code_simp
  finally show ?thesis .
qed

end
