(* ===== verification/Wsc.thy ===== *)
theory Wsc
  imports Hmac_Sha256
begin

unbundle bit_operations_syntax

text \<open>
  The WSC component of \<open>emosa/wsc.py\<close>: attributes, key derivation, authenticated messages and encrypted
  settings. HMAC and SHA-256 are those of the theory \<open>Hmac_Sha256\<close>. The third-party \<open>cryptography\<close>
  package is a parameter: \<open>cbc_encrypt\<close> and \<open>cbc_decrypt\<close> stand for AES in CBC mode (key, IV, data), \<open>pad\<close>
  and \<open>unpad\<close> for PKCS7 padding to 16 octets, \<open>exchange\<close> for the Diffie-Hellman exchange of a private
  key. The random IV is an argument. The lemmas show that attribute lists and octets correspond one to
  one, that a message verifies exactly when it was authenticated with the same keys, and that settings
  are decrypted to what was encrypted and only under a valid key wrap authenticator.
\<close>

section \<open>Attributes\<close>

definition MODP_1536 :: int where
  "MODP_1536 = 0xFFFFFFFFFFFFFFFFC90FDAA22168C234C4C6628B80DC1CD129024E088A67CC74020BBEA63B139B22514A08798E3404DDEF9519B3CD3A431B302B0A6DF25F14374FE1356D6D51C245E485B576625E7EC6F44C42E9A637ED6B0BFF5CB6F406B7EDEE386BFB5A899FA5AE9F24117C4B1FE649286651ECE45B3DC2007CB8A163BF0598DA48361C55D39A69163FA8FD24CF5F83655D23DCA3AD961C62F356208552BB9ED529077096966D670C354E4ABC9804F1746C08CA237327FFFFFFFFFFFFFFFF"

definition AUTHENTICATOR :: int where "AUTHENTICATOR = 0x1005"
definition KEY_WRAP_AUTHENTICATOR :: int where "KEY_WRAP_AUTHENTICATOR = 0x101E"
definition MAX_COMPONENT_BYTES :: nat where "MAX_COMPONENT_BYTES = 1024 * 1024"
definition MAX_COMPONENT_ATTRIBUTES :: nat where "MAX_COMPONENT_ATTRIBUTES = 4096"

definition wsc_bytes :: "bytes \<Rightarrow> nat \<Rightarrow> bytes result" where
  "wsc_bytes v n = (if length v \<noteq> n then invalid else Inr v)"

definition wsc_bounded :: "bytes \<Rightarrow> bytes result" where
  "wsc_bounded v = (if length v > MAX_COMPONENT_BYTES then invalid else Inr v)"

record attribute =
  at_kind :: int
  at_value :: bytes

definition encode_attribute :: "int \<Rightarrow> bytes \<Rightarrow> bytes result" where
  "encode_attribute k v =
     (if \<not> (0 \<le> k \<and> k \<le> 0xFFFF) \<or> length v > 0xFFFF then invalid
      else Inr (u16 k @ u16 (int (length v)) @ v))"

function attributes_loop :: "bytes \<Rightarrow> attribute list \<Rightarrow> attribute list result" where
  "attributes_loop data got =
     (if data = [] then Inr got
      else if length data < 4 \<or> length got = MAX_COMPONENT_ATTRIBUTES then invalid
      else
        let k = from_be (py_slice data 0 2); size = nat (from_be (py_slice data 2 4)); rest = drop 4 data
        in if size > length rest then invalid
           else attributes_loop (drop size rest) (got @ [\<lparr>at_kind = k, at_value = take size rest\<rparr>]))"
  by pat_completeness auto
termination
  by (relation "measure (\<lambda>(data, _). length data)") auto

declare attributes_loop.simps [simp del]

definition decode_attributes :: "bytes \<Rightarrow> attribute list result" where
  "decode_attributes data = bindR (wsc_bounded data) (\<lambda>data. attributes_loop data [])"

section \<open>Keys\<close>

record session_keys =
  auth_key :: bytes
  key_wrap_key :: bytes
  emsk :: bytes

definition SessionKeys :: "bytes \<Rightarrow> bytes \<Rightarrow> bytes \<Rightarrow> session_keys result" where
  "SessionKeys a k e =
     bindR (wsc_bytes a 32) (\<lambda>_. bindR (wsc_bytes k 16) (\<lambda>_. bindR (wsc_bytes e 32) (\<lambda>_.
       Inr \<lparr>auth_key = a, key_wrap_key = k, emsk = e\<rparr>)))"

definition kdf_label :: bytes where
  "kdf_label = map (\<lambda>c. oct (of_char c)) ''Wi-Fi Easy and Secure Key Derivation''"

definition kdf_material :: "bytes \<Rightarrow> bytes \<Rightarrow> bytes \<Rightarrow> bytes \<Rightarrow> bytes" where
  "kdf_material shared enrollee_nonce enrollee_mac registrar_nonce =
     (let dh_key = sha256 shared;
          kdk = hmac_sha256 dh_key (enrollee_nonce @ enrollee_mac @ registrar_nonce)
      in take 80 (concat (map (\<lambda>i. hmac_sha256 kdk (u32 i @ kdf_label @ u32 640)) [1, 2, 3])))"

definition derive ::
  "(int \<Rightarrow> bytes option) \<Rightarrow> bytes \<Rightarrow> bytes \<Rightarrow> bytes \<Rightarrow> bytes \<Rightarrow> session_keys result" where
  "derive exchange peer_public enrollee_nonce enrollee_mac registrar_nonce =
     bindR (wsc_bytes peer_public 192) (\<lambda>_. bindR (wsc_bytes enrollee_nonce 16) (\<lambda>_.
     bindR (wsc_bytes enrollee_mac 6) (\<lambda>_. bindR (wsc_bytes registrar_nonce 16) (\<lambda>_.
       let peer_number = from_be peer_public in
       if \<not> (2 \<le> peer_number \<and> peer_number \<le> MODP_1536 - 2) then invalid
       else if peer_number ^ nat ((MODP_1536 - 1) div 2) mod MODP_1536 \<noteq> 1 then invalid
       else case exchange peer_number of
              None \<Rightarrow> invalid
            | Some s \<Rightarrow>
                let shared = replicate (192 - length s) 0 @ s;
                    material = kdf_material shared enrollee_nonce enrollee_mac registrar_nonce
                in SessionKeys (take 32 material) (py_slice material 32 48) (py_slice material 48 80)))))"

section \<open>Messages\<close>

definition tag :: "session_keys \<Rightarrow> bytes \<Rightarrow> bytes" where
  "tag keys data = take 8 (hmac_sha256 (auth_key keys) data)"

definition without_trailer :: "bytes \<Rightarrow> int \<Rightarrow> (bytes \<times> bytes) result" where
  "without_trailer data k =
     bindR (decode_attributes data) (\<lambda>attributes.
       if attributes = [] \<or> at_kind (last attributes) \<noteq> k \<or> length (at_value (last attributes)) \<noteq> 8 \<or>
          (\<exists>a \<in> set (butlast attributes). at_kind a = k) then invalid
       else Inr (take (length data - 12) data, at_value (last attributes)))"

definition authenticate_message :: "session_keys \<Rightarrow> bytes \<Rightarrow> bytes \<Rightarrow> bytes result" where
  "authenticate_message keys previous current =
     bindR (wsc_bounded previous) (\<lambda>_. bindR (decode_attributes current) (\<lambda>attributes.
       if length attributes \<ge> MAX_COMPONENT_ATTRIBUTES \<or> (\<exists>a \<in> set attributes. at_kind a = AUTHENTICATOR) then invalid
       else bindR (encode_attribute AUTHENTICATOR (tag keys (previous @ current))) (\<lambda>trailer.
         wsc_bounded (current @ trailer))))"

definition verify_message :: "session_keys \<Rightarrow> bytes \<Rightarrow> bytes \<Rightarrow> bytes result" where
  "verify_message keys previous current =
     bindR (wsc_bounded previous) (\<lambda>_. bindR (without_trailer current AUTHENTICATOR) (\<lambda>(body, t).
       if tag keys (previous @ body) \<noteq> t then invalid else Inr body))"

definition encrypt_settings ::
  "(bytes \<Rightarrow> bytes \<Rightarrow> bytes \<Rightarrow> bytes) \<Rightarrow> (bytes \<Rightarrow> bytes) \<Rightarrow> bytes \<Rightarrow> session_keys \<Rightarrow> bytes \<Rightarrow> bytes result" where
  "encrypt_settings cbc_encrypt pad iv keys plaintext =
     bindR (decode_attributes plaintext) (\<lambda>attributes.
       if length attributes \<ge> MAX_COMPONENT_ATTRIBUTES \<or> (\<exists>a \<in> set attributes. at_kind a = KEY_WRAP_AUTHENTICATOR)
       then invalid
       else if 16 + ((length plaintext + 12) div 16 + 1) * 16 > 0xFFFF then invalid
       else bindR (encode_attribute KEY_WRAP_AUTHENTICATOR (tag keys plaintext)) (\<lambda>trailer.
         wsc_bounded (iv @ cbc_encrypt (key_wrap_key keys) iv (pad (plaintext @ trailer)))))"

definition decrypt_settings ::
  "(bytes \<Rightarrow> bytes \<Rightarrow> bytes \<Rightarrow> bytes) \<Rightarrow> (bytes \<Rightarrow> bytes option) \<Rightarrow> session_keys \<Rightarrow> bytes \<Rightarrow> bytes result" where
  "decrypt_settings cbc_decrypt unpad keys encrypted =
     bindR (wsc_bounded encrypted) (\<lambda>_.
       if \<not> (32 \<le> length encrypted \<and> length encrypted \<le> 0xFFFF) \<or> length encrypted mod 16 \<noteq> 0 then invalid
       else case unpad (cbc_decrypt (key_wrap_key keys) (take 16 encrypted) (drop 16 encrypted)) of
              None \<Rightarrow> invalid
            | Some authenticated \<Rightarrow>
                bindR (without_trailer authenticated KEY_WRAP_AUTHENTICATOR) (\<lambda>(plaintext, t).
                  if tag keys plaintext \<noteq> t then invalid else Inr plaintext))"

section \<open>Attribute lists and their octets\<close>

definition attribute_ok :: "attribute \<Rightarrow> bool" where
  "attribute_ok a \<longleftrightarrow> 0 \<le> at_kind a \<and> at_kind a < 65536 \<and> length (at_value a) < 65536"

definition put_attribute :: "attribute \<Rightarrow> bytes" where
  "put_attribute a = u16 (at_kind a) @ u16 (int (length (at_value a))) @ at_value a"

lemma attribute_collapse [simp]: "\<lparr>at_kind = at_kind a, at_value = at_value a\<rparr> = (a :: attribute)"
  by (cases a) simp

lemma length_put_attribute [simp]: "length (put_attribute a) = 4 + length (at_value a)"
  by (simp add: put_attribute_def)

lemma encode_attribute_eq:
  "encode_attribute k v = (if attribute_ok \<lparr>at_kind = k, at_value = v\<rparr> then Inr (put_attribute \<lparr>at_kind = k, at_value = v\<rparr>) else invalid)"
  by (auto simp: encode_attribute_def attribute_ok_def put_attribute_def)

lemma attributes_loop_put:
  assumes "attribute_ok a"
  shows "attributes_loop (put_attribute a @ data) got =
    (if length got = MAX_COMPONENT_ATTRIBUTES then invalid else attributes_loop data (got @ [a]))"
proof -
  have k: "from_be (py_slice (put_attribute a @ data) 0 2) = at_kind a"
    and n: "nat (from_be (py_slice (put_attribute a @ data) 2 4)) = length (at_value a)"
    and rest: "drop 4 (put_attribute a @ data) = at_value a @ data"
    using assms by (simp_all add: put_attribute_def attribute_ok_def py_slice_def from_be_to_be)
  have "put_attribute a @ data \<noteq> []" "\<not> length (put_attribute a @ data) < 4"
    using length_put_attribute [of a] by (auto simp del: length_put_attribute)
  then show ?thesis
    by (subst attributes_loop.simps) (simp only: k n rest Let_def if_False, cases a, simp)
qed

lemma attributes_loop_sound:
  "attributes_loop data got = Inr as \<Longrightarrow> length got \<le> MAX_COMPONENT_ATTRIBUTES \<Longrightarrow>
   \<exists>new. as = got @ new \<and> list_all attribute_ok new \<and> data = concat (map put_attribute new) \<and> length as \<le> MAX_COMPONENT_ATTRIBUTES"
proof (induction data got rule: attributes_loop.induct)
  case (1 data got)
  show ?case
  proof (cases "data = []")
    case True
    with 1 show ?thesis by (simp add: attributes_loop.simps)
  next
    case False
    let ?size = "nat (from_be (py_slice data 2 4))" and ?rest = "drop 4 data"
    let ?a = "\<lparr>at_kind = from_be (py_slice data 0 2), at_value = take ?size ?rest\<rparr>"
    from False 1(2) have c: "\<not> (length data < 4 \<or> length got = MAX_COMPONENT_ATTRIBUTES)" "\<not> length ?rest < ?size"
      and rec: "attributes_loop (drop ?size ?rest) (got @ [?a]) = Inr as"
      by (subst (asm) attributes_loop.simps; simp add: Let_def split: if_splits)+
    from 1(1) [OF False c(1) refl refl refl c(2) rec] 1(3) c(1) obtain new where
      new: "as = got @ ?a # new" "list_all attribute_ok new" "drop ?size ?rest = concat (map put_attribute new)"
      "length as \<le> MAX_COMPONENT_ATTRIBUTES"
      by auto
    have len: "length (py_slice data 0 2) = 2" "length (py_slice data 2 4) = 2" using c(1) by (auto simp: min_def)
    have ok: "attribute_ok ?a"
      using from_be_less [of "py_slice data 0 2"] from_be_less [of "py_slice data 2 4"] len c(2)
      by (simp add: attribute_ok_def)
    have "put_attribute ?a = py_slice data 0 2 @ py_slice data 2 4 @ take ?size ?rest"
      using len c(2) by (simp add: put_attribute_def to_be_from_be min_def)
    also have "\<dots> @ drop ?size ?rest = data"
      by (simp add: py_slice_def) (metis add_2_eq_Suc' append_assoc append_take_drop_id drop_drop numeral_Bit0 one_plus_numeral take_add)
    finally show ?thesis using new ok by (intro exI [of _ "?a # new"]) simp
  qed
qed

lemma attributes_loop_error: "attributes_loop data got = Inl e \<Longrightarrow> e = EmosaError INVALID_INPUT"
proof (induction data got rule: attributes_loop.induct)
  case (1 data got)
  let ?size = "nat (from_be (py_slice data 2 4))" and ?rest = "drop 4 data"
  show ?case
  proof (cases "data = [] \<or> (length data < 4 \<or> length got = MAX_COMPONENT_ATTRIBUTES) \<or> length ?rest < ?size")
    case True
    with 1(2) show ?thesis by (subst (asm) attributes_loop.simps) (auto simp: Let_def split: if_splits)
  next
    case False
    then have "attributes_loop (drop ?size ?rest) (got @ [\<lparr>at_kind = from_be (py_slice data 0 2), at_value = take ?size ?rest\<rparr>]) = Inl e"
      using 1(2) by (subst (asm) attributes_loop.simps) (simp add: Let_def)
    with 1(1) [OF _ _ refl refl refl] False show ?thesis by blast
  qed
qed

lemma attributes_loop_list:
  "list_all attribute_ok as \<Longrightarrow> length (got @ as) \<le> MAX_COMPONENT_ATTRIBUTES \<Longrightarrow>
   attributes_loop (concat (map put_attribute as)) got = Inr (got @ as)"
proof (induction as arbitrary: got)
  case Nil
  then show ?case by (simp add: attributes_loop.simps)
next
  case (Cons a as)
  then show ?case by (simp add: attributes_loop_put)
qed

lemma decode_attributes_iff [result_simps]:
  "decode_attributes data = Inr as \<longleftrightarrow> list_all attribute_ok as \<and> length as \<le> MAX_COMPONENT_ATTRIBUTES \<and>
     data = concat (map put_attribute as) \<and> length data \<le> MAX_COMPONENT_BYTES"
  using attributes_loop_list [of as "[]"] attributes_loop_sound [of data "[]" as]
  by (auto simp: decode_attributes_def wsc_bounded_def)

section \<open>Authenticated messages\<close>

definition trailer :: "int \<Rightarrow> bytes \<Rightarrow> attribute" where
  "trailer k t = \<lparr>at_kind = k, at_value = t\<rparr>"

definition unsigned_ok :: "int \<Rightarrow> bytes \<Rightarrow> bool" where
  "unsigned_ok k data \<longleftrightarrow> (\<exists>as. list_all attribute_ok as \<and> length as < MAX_COMPONENT_ATTRIBUTES \<and>
     data = concat (map put_attribute as) \<and> (\<forall>a \<in> set as. at_kind a \<noteq> k))"

lemma length_tag [simp]: "length (tag keys data) = 8"
  by (simp add: tag_def)

lemma trailer_sel [simp]: "at_kind (trailer k t) = k" "at_value (trailer k t) = t"
  by (simp_all add: trailer_def)

lemma length_put_trailer: "length t = 8 \<Longrightarrow> length (put_attribute (trailer k t)) = 12"
  by (simp add: trailer_def)

text \<open>A trailer is split off exactly when it was appended to attributes that have none.\<close>

lemma without_trailer_iff:
  assumes "0 \<le> k" "k < 65536"
  shows "without_trailer data k = Inr (u, t) \<longleftrightarrow>
    unsigned_ok k u \<and> length t = 8 \<and> data = u @ put_attribute (trailer k t) \<and> length data \<le> MAX_COMPONENT_BYTES"
proof
  assume "without_trailer data k = Inr (u, t)"
  then obtain as where as: "decode_attributes data = Inr as" "as \<noteq> []" "at_kind (last as) = k" "length (at_value (last as)) = 8"
    "\<forall>a \<in> set (butlast as). at_kind a \<noteq> k" "u = take (length data - 12) data" "t = at_value (last as)"
    by (auto simp: without_trailer_def bindR_eq_Inr simp del: decode_attributes_iff split: if_splits)
  have l: "last as = trailer k t" using as(3,7) by (simp add: trailer_def)
  have split: "as = butlast as @ [trailer k t]" using as(2) l by (metis append_butlast_last_id)
  from as(1) have d: "list_all attribute_ok as" "length as \<le> MAX_COMPONENT_ATTRIBUTES"
    "data = concat (map put_attribute as)" "length data \<le> MAX_COMPONENT_BYTES"
    unfolding decode_attributes_iff by blast+
  have "concat (map put_attribute as) = concat (map put_attribute (butlast as)) @ put_attribute (trailer k t)"
    by (subst split) simp
  then have data: "data = concat (map put_attribute (butlast as)) @ put_attribute (trailer k t)" using d(3) by simp
  have t: "length t = 8" using as(4,7) by simp
  have u: "u = concat (map put_attribute (butlast as))"
    unfolding as(6) by (subst (1 2) data) (simp add: t)
  moreover have "list_all attribute_ok (butlast as)" using d(1) by (auto simp: list_all_iff dest: in_set_butlastD)
  moreover have "length (butlast as) < MAX_COMPONENT_ATTRIBUTES" using d(2) as(2) by (cases as) auto
  ultimately show "unsigned_ok k u \<and> length t = 8 \<and> data = u @ put_attribute (trailer k t) \<and> length data \<le> MAX_COMPONENT_BYTES"
    using as(5) t data d(4) unfolding unsigned_ok_def by blast
next
  assume *: "unsigned_ok k u \<and> length t = 8 \<and> data = u @ put_attribute (trailer k t) \<and> length data \<le> MAX_COMPONENT_BYTES"
  then obtain as where as: "list_all attribute_ok as" "length as < MAX_COMPONENT_ATTRIBUTES"
    "u = concat (map put_attribute as)" "\<forall>a \<in> set as. at_kind a \<noteq> k"
    by (auto simp: unsigned_ok_def)
  have "decode_attributes data = Inr (as @ [trailer k t])"
    using * as assms unfolding decode_attributes_iff by (auto simp: attribute_ok_def)
  then show "without_trailer data k = Inr (u, t)"
    using * as(4) by (simp add: without_trailer_def length_put_trailer)
qed

lemma decode_unsigned:
  "bindR (decode_attributes data) (\<lambda>as. if length as \<ge> MAX_COMPONENT_ATTRIBUTES \<or> (\<exists>a \<in> set as. at_kind a = k) then invalid else f) = Inr y \<longleftrightarrow>
     unsigned_ok k data \<and> length data \<le> MAX_COMPONENT_BYTES \<and> f = Inr y"
  by (auto simp: result_simps unsigned_ok_def split: if_splits)

lemma encode_trailer:
  "0 \<le> k \<Longrightarrow> k < 65536 \<Longrightarrow> encode_attribute k (tag keys data) = Inr (put_attribute (trailer k (tag keys data)))"
  by (simp add: encode_attribute_eq attribute_ok_def trailer_def)

lemma authenticate_iff:
  "authenticate_message keys previous current = Inr full \<longleftrightarrow>
     length previous \<le> MAX_COMPONENT_BYTES \<and> unsigned_ok AUTHENTICATOR current \<and>
     full = current @ put_attribute (trailer AUTHENTICATOR (tag keys (previous @ current))) \<and>
     length full \<le> MAX_COMPONENT_BYTES"
  unfolding authenticate_message_def bindR_eq_Inr [of "wsc_bounded previous"] decode_unsigned
  by (auto simp: wsc_bounded_def encode_trailer AUTHENTICATOR_def)

lemma verify_iff:
  "verify_message keys previous full = Inr current \<longleftrightarrow> authenticate_message keys previous current = Inr full"
  unfolding authenticate_iff verify_message_def
  by (auto simp: bindR_eq_Inr wsc_bounded_def without_trailer_iff AUTHENTICATOR_def split: if_splits)

section \<open>Encrypted settings\<close>

text \<open>What is relied on of the \<open>cryptography\<close> package: CBC decryption inverts encryption under the same key and
  IV and keeps the length of whole blocks; unpadding inverts padding, which fills up to the next
  multiple of 16 octets.\<close>

definition cbc_inverse :: "(bytes \<Rightarrow> bytes \<Rightarrow> bytes \<Rightarrow> bytes) \<Rightarrow> (bytes \<Rightarrow> bytes \<Rightarrow> bytes \<Rightarrow> bytes) \<Rightarrow> bool" where
  "cbc_inverse enc dec \<longleftrightarrow> (\<forall>key iv data. length key = 16 \<longrightarrow> length iv = 16 \<longrightarrow> length data mod 16 = 0 \<longrightarrow>
     dec key iv (enc key iv data) = data \<and> length (enc key iv data) = length data)"

definition pkcs7_inverse :: "(bytes \<Rightarrow> bytes) \<Rightarrow> (bytes \<Rightarrow> bytes option) \<Rightarrow> bool" where
  "pkcs7_inverse pad unpad \<longleftrightarrow> (\<forall>data. unpad (pad data) = Some data \<and> length (pad data) = (length data div 16 + 1) * 16)"

lemma decrypt_encrypt:
  assumes "cbc_inverse enc dec" "pkcs7_inverse pad unpad" "length (key_wrap_key keys) = 16" "length iv = 16"
    and "encrypt_settings enc pad iv keys plaintext = Inr encrypted"
  shows "decrypt_settings dec unpad keys encrypted = Inr plaintext"
proof -
  let ?t = "put_attribute (trailer KEY_WRAP_AUTHENTICATOR (tag keys plaintext))"
  let ?padded = "pad (plaintext @ ?t)"
  from assms(5) have u: "unsigned_ok KEY_WRAP_AUTHENTICATOR plaintext" "length plaintext \<le> MAX_COMPONENT_BYTES"
    and e: "(if 16 + ((length plaintext + 12) div 16 + 1) * 16 > 0xFFFF then invalid
       else bindR (encode_attribute KEY_WRAP_AUTHENTICATOR (tag keys plaintext)) (\<lambda>trailer.
         wsc_bounded (iv @ enc (key_wrap_key keys) iv (pad (plaintext @ trailer))))) = Inr encrypted"
    unfolding encrypt_settings_def decode_unsigned by simp_all
  have fits: "16 + ((length plaintext + 12) div 16 + 1) * 16 \<le> 0xFFFF"
    and enc: "encrypted = iv @ enc (key_wrap_key keys) iv ?padded" "length encrypted \<le> MAX_COMPONENT_BYTES"
    using e by (auto simp: encode_trailer KEY_WRAP_AUTHENTICATOR_def wsc_bounded_def split: if_splits)
  have pad: "unpad ?padded = Some (plaintext @ ?t)" "length ?padded = ((length plaintext + 12) div 16 + 1) * 16"
    using assms(2) by (simp_all add: pkcs7_inverse_def length_put_trailer)
  then have whole: "length ?padded mod 16 = 0" by simp
  have dec: "dec (key_wrap_key keys) iv (enc (key_wrap_key keys) iv ?padded) = ?padded"
    "length (enc (key_wrap_key keys) iv ?padded) = length ?padded"
    using assms(1,3,4) whole by (simp_all add: cbc_inverse_def)
  have len: "length encrypted = 16 + ((length plaintext + 12) div 16 + 1) * 16" using enc(1) assms(4) dec(2) pad(2) by simp
  then have "\<not> (\<not> (32 \<le> length encrypted \<and> length encrypted \<le> 0xFFFF) \<or> length encrypted mod 16 \<noteq> 0)" using fits by simp
  moreover have "take 16 encrypted = iv" "drop 16 encrypted = enc (key_wrap_key keys) iv ?padded" using enc(1) assms(4) by simp_all
  moreover have "length (plaintext @ ?t) \<le> MAX_COMPONENT_BYTES"
    using fits by (simp add: length_put_trailer MAX_COMPONENT_BYTES_def)
  then have "without_trailer (plaintext @ ?t) KEY_WRAP_AUTHENTICATOR = Inr (plaintext, tag keys plaintext)"
    using u by (subst without_trailer_iff) (simp_all add: KEY_WRAP_AUTHENTICATOR_def)
  ultimately show ?thesis
    using enc(2) by (simp only: decrypt_settings_def wsc_bounded_def dec pad if_False bindR_Inr) simp
qed

lemma decrypt_authentic:
  assumes "decrypt_settings dec unpad keys encrypted = Inr plaintext"
  shows "unpad (dec (key_wrap_key keys) (take 16 encrypted) (drop 16 encrypted)) =
    Some (plaintext @ put_attribute (trailer KEY_WRAP_AUTHENTICATOR (tag keys plaintext)))"
proof -
  obtain a t where a: "unpad (dec (key_wrap_key keys) (take 16 encrypted) (drop 16 encrypted)) = Some a"
    and t: "without_trailer a KEY_WRAP_AUTHENTICATOR = Inr (plaintext, t)" "tag keys plaintext = t"
    using assms by (auto simp: decrypt_settings_def bindR_eq_Inr split: if_splits option.splits)
  from t(1) have "a = plaintext @ put_attribute (trailer KEY_WRAP_AUTHENTICATOR t)"
    by (subst (asm) without_trailer_iff) (auto simp: KEY_WRAP_AUTHENTICATOR_def)
  with a t(2) show ?thesis by simp
qed

lemma length_kdf_material: "length (kdf_material s n m r) = 80"
  by (simp add: kdf_material_def Let_def)

section \<open>Properties\<close>

text \<open>C28. A message is accepted exactly when it was authenticated: \<open>verify_message\<close> returns a body if and only if
  \<open>authenticate_message\<close>, with the same keys and the same previous message, turns that body into exactly
  the octets received.\<close>

theorem verify_exactly_authenticated:
  "verify_message keys previous full = Inr body \<longleftrightarrow> authenticate_message keys previous body = Inr full"
  by (rule verify_iff)

text \<open>Attribute lists and octets correspond one to one within the component's bounds: decoding yields
  attributes exactly when these are at most 4096, the octets at most one mebibyte, and encoding the
  attributes one after the other yields the octets.\<close>

theorem attributes_bijective:
  "decode_attributes data = Inr as \<longleftrightarrow>
     length as \<le> 4096 \<and> length data \<le> 1048576 \<and>
     (\<exists>es. mapR (\<lambda>a. encode_attribute (at_kind a) (at_value a)) as = Inr es \<and> data = concat es)"
proof -
  have "(\<exists>es. mapR (\<lambda>a. encode_attribute (at_kind a) (at_value a)) as = Inr es \<and> data = concat es) \<longleftrightarrow>
      list_all attribute_ok as \<and> data = concat (map put_attribute as)"
  proof -
    have "list_all2 (\<lambda>a e. encode_attribute (at_kind a) (at_value a) = Inr e) as es \<longleftrightarrow>
        list_all attribute_ok as \<and> es = map put_attribute as" for es
      by (induction as arbitrary: es) (auto simp: encode_attribute_eq list_all2_Cons1 split: if_splits)
    then show ?thesis by (auto simp: mapR_eq_Inr)
  qed
  then show ?thesis
    unfolding decode_attributes_iff by (auto simp: MAX_COMPONENT_ATTRIBUTES_def MAX_COMPONENT_BYTES_def)
qed

text \<open>C34. Settings survive encryption: with a block cipher that CBC decryption inverts and padding that is
  inverted, what \<open>encrypt_settings\<close> returns is decrypted to the plaintext by \<open>decrypt_settings\<close> under the
  same keys, whatever the random IV was.\<close>

theorem settings_roundtrip:
  assumes "cbc_inverse enc dec" "pkcs7_inverse pad unpad" "length (key_wrap_key keys) = 16" "length iv = 16"
    and "encrypt_settings enc pad iv keys plaintext = Inr encrypted"
  shows "decrypt_settings dec unpad keys encrypted = Inr plaintext"
  using assms by (rule decrypt_encrypt)

text \<open>A cipher that adds the IV and the key to each octet, and PKCS7 padding.\<close>

definition example_shift :: "bytes \<Rightarrow> bytes \<Rightarrow> bytes \<Rightarrow> bytes" where
  "example_shift key iv data = map (\<lambda>b. b XOR key ! 0 XOR iv ! 0) data"

definition example_pad :: "bytes \<Rightarrow> bytes" where
  "example_pad data = (let n = 16 - length data mod 16 in data @ replicate n (word_of_nat n))"

definition example_unpad :: "bytes \<Rightarrow> bytes option" where
  "example_unpad data = (if data = [] \<or> length data < unat (last data) then None
     else Some (take (length data - unat (last data)) data))"

definition example_keys :: session_keys where
  "example_keys = \<lparr>auth_key = replicate 32 1, key_wrap_key = replicate 16 2, emsk = replicate 32 3\<rparr>"

lemma example_shift_inverse: "cbc_inverse example_shift example_shift"
proof -
  have "(b XOR x XOR y) XOR x XOR y = b" for b x y :: octet
    by (simp add: ac_simps)
  then show ?thesis by (simp add: cbc_inverse_def example_shift_def comp_def)
qed

lemma example_unpad_replicate:
  assumes "0 < n" "n < 256"
  shows "example_unpad (data @ replicate n (word_of_nat n)) = Some data"
  using assms by (simp add: example_unpad_def)

lemma length_pad: "(n :: nat) + (16 - n mod 16) = (n div 16 + 1) * 16"
proof -
  define q r where "q = n div 16" and "r = n mod 16"
  then have "n = q * 16 + r" "r < 16" by simp_all
  then show ?thesis unfolding q_def [symmetric] r_def [symmetric] by simp
qed

lemma example_pad_inverse: "pkcs7_inverse example_pad example_unpad"
proof -
  have "example_unpad (example_pad data) = Some data \<and> length (example_pad data) = (length data div 16 + 1) * 16" for data
  proof -
    obtain n where n: "n = 16 - length data mod 16" "0 < n" "n < 256"
      using mod_less_divisor [of 16 "length data"] by simp
    then have "example_pad data = data @ replicate n (word_of_nat n)" by (simp add: example_pad_def Let_def del: of_nat_diff)
    with n example_unpad_replicate [of n data] length_pad [of "length data"] show ?thesis by simp
  qed
  then show ?thesis by (simp add: pkcs7_inverse_def)
qed

theorem settings_roundtrip_witness:
  "\<exists>encrypted. encrypt_settings example_shift example_pad (replicate 16 9) example_keys [] = Inr encrypted \<and>
     decrypt_settings example_shift example_unpad example_keys encrypted = Inr []"
proof -
  obtain encrypted where e: "encrypt_settings example_shift example_pad (replicate 16 9) example_keys [] = Inr encrypted"
    by (simp add: encrypt_settings_def decode_attributes_def wsc_bounded_def attributes_loop.simps MAX_COMPONENT_ATTRIBUTES_def
        encode_trailer KEY_WRAP_AUTHENTICATOR_def example_pad_def example_shift_def MAX_COMPONENT_BYTES_def)
  have "decrypt_settings example_shift example_unpad example_keys encrypted = Inr []"
    using example_shift_inverse example_pad_inverse _ _ e
    by (rule settings_roundtrip) (simp_all add: example_keys_def)
  with e show ?thesis by blast
qed

text \<open>Nothing is returned from encrypted settings without its authenticator: whatever the cipher and the
  padding do, plaintext is returned only if the decrypted and unpadded octets are that plaintext
  followed by the key wrap authenticator computed over it; and every refusal is the same one, so that a
  padding error cannot be told from a wrong authenticator.\<close>

theorem settings_authentic:
  "case decrypt_settings dec unpad keys encrypted of
     Inl e \<Rightarrow> e = EmosaError INVALID_INPUT
   | Inr plaintext \<Rightarrow> unpad (dec (key_wrap_key keys) (take 16 encrypted) (drop 16 encrypted)) =
       Some (plaintext @ u16 KEY_WRAP_AUTHENTICATOR @ u16 8 @ take 8 (hmac_sha256 (auth_key keys) plaintext))"
proof (cases "decrypt_settings dec unpad keys encrypted")
  case (Inl e)
  have "e = EmosaError INVALID_INPUT"
    using Inl by (auto simp: decrypt_settings_def without_trailer_def decode_attributes_def bindR_eq_Inl wsc_bounded_def
        split: if_splits option.splits dest!: attributes_loop_error)
  with Inl show ?thesis by simp
next
  case (Inr plaintext)
  with decrypt_authentic [OF Inr] show ?thesis
    by (simp add: put_attribute_def trailer_def tag_def)
qed

text \<open>Key derivation refuses or gives keys of the right lengths: a peer value of the wrong length or outside
  the prime-order subgroup is invalid input, and otherwise the three keys have 32, 16 and 32 octets.\<close>

theorem derive_lengths:
  "case derive exchange peer_public enrollee_nonce enrollee_mac registrar_nonce of
     Inl e \<Rightarrow> e = EmosaError INVALID_INPUT
   | Inr keys \<Rightarrow> length (auth_key keys) = 32 \<and> length (key_wrap_key keys) = 16 \<and> length (emsk keys) = 32 \<and>
       length peer_public = 192 \<and> from_be peer_public ^ nat ((MODP_1536 - 1) div 2) mod MODP_1536 = 1"
  by (auto simp: derive_def SessionKeys_def wsc_bytes_def Let_def length_kdf_material split: option.splits)

end
