(* ===== verification/Wsc_Messages.thy ===== *)
theory Wsc_Messages
  imports Wsc
begin

unbundle bit_operations_syntax

text \<open>
  The Wi-Fi Simple Configuration transcript of \<open>src/src/emosa/wsc_messages.py\<close>: the attribute lengths of an M1
  and an M2, the duplicate-rejecting field scan, the vendor subelements, the creation of an M1, and the authentication
  of one M2 or of a batch of them against the M1 that was sent.  The key pair and the block cipher are those of the
  \<open>cryptography\<close> package and stay parameters.  \<open>m1_roundtrip\<close> states what a created M1 carries, \<open>m2_authentic\<close>
  which M2 messages are accepted.
\<close>

section \<open>Fields\<close>

definition VERSION :: int where "VERSION = 0x104A"
definition MESSAGE_TYPE :: int where "MESSAGE_TYPE = 0x1022"
definition ENROLLEE_NONCE :: int where "ENROLLEE_NONCE = 0x101A"
definition REGISTRAR_NONCE :: int where "REGISTRAR_NONCE = 0x1039"
definition PUBLIC_KEY :: int where "PUBLIC_KEY = 0x1032"
definition VENDOR_EXTENSION :: int where "VENDOR_EXTENSION = 0x1049"
definition ENCRYPTED_SETTINGS :: int where "ENCRYPTED_SETTINGS = 0x1018"
definition BSS_INDEX :: int where "BSS_INDEX = 0x1BBC"
definition WFA_ID :: bytes where "WFA_ID = [0x00, 0x37, 0x2A]"
definition MAX_M2_PAYLOADS :: int where "MAX_M2_PAYLOADS = 16"
definition MAX_VENDOR_SUBELEMENTS :: nat where "MAX_VENDOR_SUBELEMENTS = 4096"

text \<open>The length a field must have: a number, or the bounds of a pair.\<close>

datatype span = Exactly nat | Between nat nat

fun span_ok :: "span \<Rightarrow> nat \<Rightarrow> bool" where
  "span_ok (Exactly n) m \<longleftrightarrow> m = n"
| "span_ok (Between lo hi) m \<longleftrightarrow> lo \<le> m \<and> m \<le> hi"

type_synonym spans = "(int \<times> span) list"
type_synonym fields = "(int \<times> bytes) list"

definition COMMON_LENGTHS :: spans where
  "COMMON_LENGTHS =
     [(VERSION, Exactly 1), (MESSAGE_TYPE, Exactly 1), (ENROLLEE_NONCE, Exactly 16), (PUBLIC_KEY, Exactly 192),
      (0x1004, Exactly 2), (0x1010, Exactly 2), (0x100D, Exactly 1), (0x1008, Exactly 2), (0x1054, Exactly 8),
      (0x103C, Exactly 1), (0x1002, Exactly 2), (0x1012, Exactly 2), (0x1009, Exactly 2), (0x102D, Exactly 4)]"

definition DEVICE_STRINGS :: "(int \<times> nat) list" where
  "DEVICE_STRINGS = [(0x1021, 64), (0x1023, 32), (0x1024, 32), (0x1042, 32), (0x1011, 32)]"

definition wsc_uint :: "int \<Rightarrow> nat \<Rightarrow> bytes result" where
  "wsc_uint v n = (if \<not> (0 \<le> v \<and> v < 2 ^ (8 * n)) then invalid else Inr (to_be n v))"

text \<open>\<open>_singletons\<close>: the consumed fields, each at most once and of its length.\<close>

definition singleton_step :: "spans \<Rightarrow> fields \<Rightarrow> attribute \<Rightarrow> fields result" where
  "singleton_step lengths got a =
     (case map_of lengths (at_kind a) of
        None \<Rightarrow> Inr got
      | Some n \<Rightarrow>
          if map_of got (at_kind a) \<noteq> None then invalid
          else if \<not> span_ok n (length (at_value a)) then invalid
          else Inr (got @ [(at_kind a, at_value a)]))"

definition singletons :: "attribute list \<Rightarrow> spans \<Rightarrow> spans \<Rightarrow> fields result" where
  "singletons attributes required optional =
     bindR (foldR (singleton_step (required @ optional)) [] attributes) (\<lambda>got.
       if \<exists>k \<in> fst ` set required. map_of got k = None then invalid else Inr got)"

text \<open>The subelements of one WFA vendor extension, after its identifier.\<close>

function vendor_loop :: "bytes \<Rightarrow> attribute list \<Rightarrow> attribute list result" where
  "vendor_loop data got =
     (if data = [] then Inr got
      else if length data < 2 then invalid
      else let n = unat (data ! 1); rest = drop 2 data
           in if n > length rest then invalid
              else if length got = MAX_VENDOR_SUBELEMENTS then invalid
              else vendor_loop (drop n rest) (got @ [\<lparr>at_kind = uint (data ! 0), at_value = take n rest\<rparr>]))"
  by pat_completeness auto
termination
  by (relation "measure (\<lambda>(data, _). length data)") auto

declare vendor_loop.simps [simp del]

definition vendor_step :: "attribute list \<Rightarrow> attribute \<Rightarrow> attribute list result" where
  "vendor_step got a =
     (if at_kind a \<noteq> VENDOR_EXTENSION then Inr got
      else if \<not> (4 \<le> length (at_value a) \<and> length (at_value a) \<le> 1024) then invalid
      else if take 3 (at_value a) \<noteq> WFA_ID then Inr got
      else vendor_loop (drop 3 (at_value a)) got)"

definition vendor_subelements :: "attribute list \<Rightarrow> attribute list result" where
  "vendor_subelements attributes = foldR vendor_step [] attributes"

text \<open>\<open>_message\<close>: the attributes and the consumed fields of an M1 (type 4) or M2 (type 5).\<close>

definition message_lengths :: "int \<Rightarrow> spans" where
  "message_lengths message_type =
     COMMON_LENGTHS @ map (\<lambda>(k, v). (k, Between 0 v)) DEVICE_STRINGS @
     (if message_type = 4 then [(0x1047, Exactly 16), (0x1020, Exactly 6), (0x1044, Exactly 1)]
      else [(REGISTRAR_NONCE, Exactly 16), (0x1048, Exactly 16), (AUTHENTICATOR, Exactly 8)])"

definition wsc_field :: "fields \<Rightarrow> int \<Rightarrow> bytes result" where
  "wsc_field got k = (case map_of got k of Some v \<Rightarrow> Inr v | None \<Rightarrow> Inl KeyError)"

definition wsc_message :: "bytes \<Rightarrow> int \<Rightarrow> (attribute list \<times> fields) result" where
  "wsc_message data message_type =
     bindR (decode_attributes data) (\<lambda>attributes.
     bindR (singletons attributes (message_lengths message_type) [(BSS_INDEX, Exactly 1), (ENCRYPTED_SETTINGS, Between 32 65535)]) (\<lambda>got.
     bindR (wsc_field got MESSAGE_TYPE) (\<lambda>ty.
     if ty \<noteq> [oct message_type] then invalid
     else bindR (vendor_subelements attributes) (\<lambda>subs.
       let versions = map at_value (filter (\<lambda>a. at_kind a = 0) subs) in
       if length versions > 1 \<or> versions \<noteq> [] \<and> length (hd versions) \<noteq> 1 then invalid
       else if map_of got BSS_INDEX \<noteq> None \<and>
               (message_type \<noteq> 5 \<or> length attributes < 2 \<or> at_kind (attributes ! (length attributes - 2)) \<noteq> BSS_INDEX)
       then invalid
       else Inr (attributes, got)))))"

section \<open>M1\<close>

record m1_device =
  m1_uuid :: bytes
  m1_al_mac :: bytes
  authentication_types :: int
  encryption_types :: int
  connection_types :: int
  configuration_methods :: int
  wps_state :: int
  manufacturer :: bytes
  model_name :: bytes
  model_number :: bytes
  serial_number :: bytes
  primary_device_type :: bytes
  device_name :: bytes
  rf_band :: int
  association_state :: int
  device_password_id :: int
  configuration_error :: int
  os_version :: int

definition m1_attributes :: "m1_device \<Rightarrow> attribute list result" where
  "m1_attributes d =
     bindR (wsc_uint (os_version d) 4) (\<lambda>os.
     bindR (wsc_uint (authentication_types d) 2) (\<lambda>auth.
     bindR (wsc_uint (encryption_types d) 2) (\<lambda>encr.
     bindR (wsc_uint (connection_types d) 1) (\<lambda>conn.
     bindR (wsc_uint (configuration_methods d) 2) (\<lambda>methods.
     bindR (wsc_uint (wps_state d) 1) (\<lambda>wps.
     bindR (wsc_uint (rf_band d) 1) (\<lambda>band.
     bindR (wsc_uint (association_state d) 2) (\<lambda>assoc.
     bindR (wsc_uint (device_password_id d) 2) (\<lambda>pass.
     bindR (wsc_uint (configuration_error d) 2) (\<lambda>err.
     let vals =
       [(0x1047, m1_uuid d), (0x1020, m1_al_mac d), (0x1004, auth), (0x1010, encr), (0x100D, conn), (0x1008, methods), (0x1044, wps),
        (0x1021, manufacturer d), (0x1023, model_name d), (0x1024, model_number d), (0x1042, serial_number d),
        (0x1054, primary_device_type d), (0x1011, device_name d), (0x103C, band), (0x1002, assoc), (0x1012, pass), (0x1009, err),
        (0x102D, (hd os OR 0x80) # tl os)]
     in if rf_band d \<notin> set [1, 2, 4, 8] \<or> wps_state d \<notin> set [1, 2] then invalid
        else if \<exists>(k, v) \<in> set vals. map_of DEVICE_STRINGS k \<noteq> None \<and> 0 \<in> set v then invalid
        else Inr (map (\<lambda>(k, v). \<lparr>at_kind = k, at_value = v\<rparr>) vals)))))))))))"

text \<open>The key pair of the \<open>cryptography\<close> package: its public value and the exchange with a peer's value.\<close>

record key_pair =
  kp_public :: bytes
  kp_exchange :: "int \<Rightarrow> bytes option"

record m1_transcript =
  tr_message :: bytes
  tr_key_pair :: key_pair

definition m1_list :: "attribute list \<Rightarrow> bytes \<Rightarrow> bytes \<Rightarrow> attribute list" where
  "m1_list facts nonce public =
     [\<lparr>at_kind = VERSION, at_value = [0x10]\<rparr>, \<lparr>at_kind = MESSAGE_TYPE, at_value = [0x04]\<rparr>] @ take 2 facts @
     [\<lparr>at_kind = ENROLLEE_NONCE, at_value = nonce\<rparr>, \<lparr>at_kind = PUBLIC_KEY, at_value = public\<rparr>] @ drop 2 facts @
     [\<lparr>at_kind = VENDOR_EXTENSION, at_value = WFA_ID @ [0x00, 0x01, 0x20]\<rparr>]"

definition create_m1 :: "m1_device \<Rightarrow> key_pair \<Rightarrow> bytes \<Rightarrow> m1_transcript result" where
  "create_m1 d pair nonce =
     bindR (m1_attributes d) (\<lambda>facts.
     bindR (mapR (\<lambda>a. encode_attribute (at_kind a) (at_value a)) (m1_list facts nonce (kp_public pair))) (\<lambda>parts.
     bindR (wsc_message (concat parts) 4) (\<lambda>_. Inr \<lparr>tr_message = concat parts, tr_key_pair = pair\<rparr>)))"
section \<open>M2\<close>

record ap_settings =
  ap_ssid :: bytes
  authentication_type :: int
  encryption_type :: int
  network_key :: bytes
  ap_mac_address :: bytes
  ap_attributes :: "attribute list"

definition ap_parse :: "attribute list \<Rightarrow> ap_settings result" where
  "ap_parse attributes =
     bindR (singletons attributes
       [(0x1045, Between 0 32), (0x1003, Exactly 2), (0x100F, Exactly 2), (0x1027, Between 0 64), (0x1020, Exactly 6)]
       [(0x1028, Exactly 1), (0x102A, Between 0 64), (0x1012, Exactly 2)]) (\<lambda>settings.
     if map_of settings 0x102A \<noteq> None \<and> map_of settings 0x1012 = None then invalid
     else bindR (wsc_field settings 0x1045) (\<lambda>ssid. bindR (wsc_field settings 0x1003) (\<lambda>auth.
          bindR (wsc_field settings 0x100F) (\<lambda>encr. bindR (wsc_field settings 0x1027) (\<lambda>key.
          bindR (wsc_field settings 0x1020) (\<lambda>mac_address.
            Inr \<lparr>ap_ssid = ssid, authentication_type = from_be auth, encryption_type = from_be encr, network_key = key,
                 ap_mac_address = mac_address, ap_attributes = attributes\<rparr>))))))"

record m2_envelope =
  registrar_nonce :: bytes
  registrar_uuid :: bytes
  bss_index :: "int option"
  config_data :: "attribute list"
  m2_attributes :: "attribute list"

record authenticated_m2 =
  am_registrar_nonce :: bytes
  am_registrar_uuid :: bytes
  am_bss_index :: "int option"
  am_settings :: ap_settings
  am_attributes :: "attribute list"

definition ap_configuration :: "m2_envelope \<Rightarrow> authenticated_m2 result" where
  "ap_configuration env =
     bindR (ap_parse (config_data env)) (\<lambda>settings.
       Inr \<lparr>am_registrar_nonce = registrar_nonce env, am_registrar_uuid = registrar_uuid env, am_bss_index = bss_index env,
            am_settings = settings, am_attributes = m2_attributes env\<rparr>)"

text \<open>\<open>cbc_decrypt\<close> and \<open>unpad\<close> are those of the \<open>cryptography\<close> package, as in \<open>decrypt_settings\<close>.\<close>

definition authenticate_m2_envelope ::
  "(bytes \<Rightarrow> bytes \<Rightarrow> bytes \<Rightarrow> bytes) \<Rightarrow> (bytes \<Rightarrow> bytes option) \<Rightarrow> m1_transcript \<Rightarrow> bytes \<Rightarrow> m2_envelope result" where
  "authenticate_m2_envelope cbc_decrypt unpad tr m =
     bindR (wsc_message (tr_message tr) 4) (\<lambda>(_, enrollee).
     bindR (wsc_message m 5) (\<lambda>(attributes, registrar).
     bindR (wsc_field enrollee PUBLIC_KEY) (\<lambda>own_public.
     bindR (wsc_field enrollee ENROLLEE_NONCE) (\<lambda>nonce.
     bindR (wsc_field registrar ENROLLEE_NONCE) (\<lambda>echoed.
     if kp_public (tr_key_pair tr) \<noteq> own_public \<or> nonce \<noteq> echoed then invalid
     else bindR (wsc_field registrar PUBLIC_KEY) (\<lambda>peer.
          bindR (wsc_field enrollee 0x1020) (\<lambda>mac_address.
          bindR (wsc_field registrar REGISTRAR_NONCE) (\<lambda>r_nonce.
          bindR (derive (kp_exchange (tr_key_pair tr)) peer nonce mac_address r_nonce) (\<lambda>keys.
          bindR (verify_message keys (tr_message tr) m) (\<lambda>_.
          case map_of registrar ENCRYPTED_SETTINGS of
            None \<Rightarrow> unsupported
          | Some encrypted \<Rightarrow>
              bindR (decrypt_settings cbc_decrypt unpad keys encrypted) (\<lambda>plain.
              bindR (decode_attributes plain) (\<lambda>settings_attributes.
              bindR (vendor_subelements settings_attributes) (\<lambda>_.
              bindR (wsc_field registrar 0x1048) (\<lambda>r_uuid.
              bindR (case map_of registrar BSS_INDEX of None \<Rightarrow> Inr None
                     | Some v \<Rightarrow> (case v of [] \<Rightarrow> Inl IndexError | b # _ \<Rightarrow> Inr (Some (uint b)))) (\<lambda>index.
                Inr \<lparr>registrar_nonce = r_nonce, registrar_uuid = r_uuid, bss_index = index,
                     config_data = settings_attributes, m2_attributes = attributes\<rparr>)))))))))))))))"

definition authenticate_m2 ::
  "(bytes \<Rightarrow> bytes \<Rightarrow> bytes \<Rightarrow> bytes) \<Rightarrow> (bytes \<Rightarrow> bytes option) \<Rightarrow> m1_transcript \<Rightarrow> bytes \<Rightarrow> authenticated_m2 result" where
  "authenticate_m2 cbc_decrypt unpad tr m = bindR (authenticate_m2_envelope cbc_decrypt unpad tr m) ap_configuration"

definition authenticate_m2_envelopes ::
  "(bytes \<Rightarrow> bytes \<Rightarrow> bytes \<Rightarrow> bytes) \<Rightarrow> (bytes \<Rightarrow> bytes option) \<Rightarrow> m1_transcript \<Rightarrow> bytes list \<Rightarrow> int \<Rightarrow> bool \<Rightarrow> m2_envelope list result" where
  "authenticate_m2_envelopes cbc_decrypt unpad tr messages max_bss shared_session =
     (if \<not> (1 \<le> max_bss \<and> max_bss \<le> MAX_M2_PAYLOADS) then invalid
      else if \<not> (1 \<le> length messages \<and> int (length messages) \<le> max_bss) then invalid
      else bindR (mapR (authenticate_m2_envelope cbc_decrypt unpad tr) messages) (\<lambda>results.
        let nonces = map registrar_nonce results;
            indexes = List.map_filter bss_index results;
            publics = concat (map (\<lambda>r. map at_value (filter (\<lambda>a. at_kind a = PUBLIC_KEY) (m2_attributes r))) results)
        in if shared_session
           then if card (set nonces) \<noteq> 1 \<or> card (set publics) \<noteq> 1 \<or> \<not> distinct messages then invalid
                else if \<not> distinct indexes then invalid else Inr results
           else if \<not> distinct nonces then invalid
           else if \<not> distinct indexes then invalid else Inr results))"

definition authenticate_m2_batch ::
  "(bytes \<Rightarrow> bytes \<Rightarrow> bytes \<Rightarrow> bytes) \<Rightarrow> (bytes \<Rightarrow> bytes option) \<Rightarrow> m1_transcript \<Rightarrow> bytes list \<Rightarrow> int \<Rightarrow> authenticated_m2 list result" where
  "authenticate_m2_batch cbc_decrypt unpad tr messages max_bss =
     bindR (authenticate_m2_envelopes cbc_decrypt unpad tr messages max_bss False) (mapR ap_configuration)"

section \<open>What the parsers accept\<close>

lemma singleton_fold:
  "foldR (singleton_step lengths) got as = Inr got' \<longleftrightarrow>
     (let sel = filter (\<lambda>a. map_of lengths (at_kind a) \<noteq> None) as in
      got' = got @ map (\<lambda>a. (at_kind a, at_value a)) sel \<and> distinct (map at_kind sel) \<and>
      (\<forall>a \<in> set sel. map_of got (at_kind a) = None \<and> span_ok (the (map_of lengths (at_kind a))) (length (at_value a))))"
proof (induction as arbitrary: got)
  case (Cons a as)
  show ?case
  proof (cases "map_of lengths (at_kind a)")
    case None
    then show ?thesis using Cons by (simp add: singleton_step_def Let_def)
  next
    case (Some n)
    let ?p = "\<lambda>a. map_of lengths (at_kind a) \<noteq> None"
    have key: "map_of (got @ [(at_kind a, at_value a)]) k = None \<longleftrightarrow> map_of got k = None \<and> at_kind a \<noteq> k" for k
      by (auto simp: map_of_eq_None_iff)
    show ?thesis
    proof (cases "map_of got (at_kind a) = None \<and> span_ok n (length (at_value a))")
      case True
      then have "foldR (singleton_step lengths) got (a # as) = foldR (singleton_step lengths) (got @ [(at_kind a, at_value a)]) as"
        using Some by (simp add: singleton_step_def)
      moreover have "filter ?p (a # as) = a # filter ?p as" using Some by simp
      moreover have "at_kind a \<notin> at_kind ` set (filter ?p as) \<longleftrightarrow> (\<forall>x \<in> set (filter ?p as). at_kind a \<noteq> at_kind x)" by auto
      ultimately show ?thesis using True Some
        by (simp only: Cons.IH Let_def key list.map distinct.simps set_map list.set ball_simps append_assoc append.simps option.sel) blast
    next
      case False
      then have "foldR (singleton_step lengths) got (a # as) = invalid" using Some by (auto simp: singleton_step_def)
      then show ?thesis using False Some by auto
    qed
  qed
qed auto

text \<open>The consumed fields of a list of attributes.\<close>

definition consumed :: "spans \<Rightarrow> attribute list \<Rightarrow> attribute list" where
  "consumed lengths as = filter (\<lambda>a. map_of lengths (at_kind a) \<noteq> None) as"

lemma singletons_iff:
  "singletons as required optional = Inr got \<longleftrightarrow>
     (let sel = consumed (required @ optional) as in
      got = map (\<lambda>a. (at_kind a, at_value a)) sel \<and> distinct (map at_kind sel) \<and>
      (\<forall>a \<in> set sel. span_ok (the (map_of (required @ optional) (at_kind a))) (length (at_value a))) \<and>
      fst ` set required \<subseteq> at_kind ` set sel)"
proof -
  define lengths where "lengths = required @ optional"
  define sel where "sel = consumed lengths as"
  have key: "(\<exists>k \<in> fst ` set required. map_of (map (\<lambda>a. (at_kind a, at_value a)) sel) k = None) \<longleftrightarrow> \<not> fst ` set required \<subseteq> at_kind ` set sel"
    by (simp add: map_of_eq_None_iff image_image subset_eq)
  have fold: "foldR (singleton_step lengths) [] as = Inr x \<longleftrightarrow> x = map (\<lambda>a. (at_kind a, at_value a)) sel \<and> distinct (map at_kind sel) \<and>
      (\<forall>a \<in> set sel. span_ok (the (map_of lengths (at_kind a))) (length (at_value a)))" for x
    by (simp add: singleton_fold sel_def consumed_def Let_def)
  show ?thesis
    unfolding singletons_def lengths_def [symmetric] sel_def [symmetric] Let_def bindR_eq_Inr fold if_Inl_eq_Inr
    using key by (simp only: sum.inject) blast
qed
lemma map_of_kinds:
  "distinct (map at_kind as) \<Longrightarrow> map_of (map (\<lambda>a. (at_kind a, at_value a)) as) k = Some v \<longleftrightarrow> (\<exists>a \<in> set as. at_kind a = k \<and> at_value a = v)"
  by (subst map_of_eq_Some_iff) (auto simp: comp_def)

text \<open>A field is the value of the one attribute of its kind.\<close>

lemma singleton_field:
  assumes "singletons as required optional = Inr got" "map_of (required @ optional) k \<noteq> None"
  shows "map_of got k = Some v \<longleftrightarrow> (\<exists>a \<in> set as. at_kind a = k \<and> at_value a = v)"
proof -
  let ?sel = "consumed (required @ optional) as"
  have *: "got = map (\<lambda>a. (at_kind a, at_value a)) ?sel" "distinct (map at_kind ?sel)" using assms(1) by (simp_all add: singletons_iff Let_def)
  show ?thesis unfolding *(1) map_of_kinds [OF *(2)] using assms(2) by (auto simp: consumed_def simp del: map_of_append)
qed

lemma wsc_field_iff [result_simps]: "wsc_field got k = Inr v \<longleftrightarrow> map_of got k = Some v"
  by (auto simp: wsc_field_def split: option.splits)

abbreviation optional_lengths :: spans where
  "optional_lengths \<equiv> [(BSS_INDEX, Exactly 1), (ENCRYPTED_SETTINGS, Between 32 65535)]"

lemma wsc_message_parts:
  assumes "wsc_message data ty = Inr (as, got)"
  shows "decode_attributes data = Inr as" "singletons as (message_lengths ty) optional_lengths = Inr got"
    "map_of got MESSAGE_TYPE = Some [oct ty]"
  using assms by (auto simp: wsc_message_def bindR_eq_Inr wsc_field_iff Let_def simp del: decode_attributes_iff split: if_splits)

text \<open>The subelements of a WFA extension.\<close>

definition put_subelement :: "attribute \<Rightarrow> bytes" where
  "put_subelement a = [oct (at_kind a), oct (int (length (at_value a)))] @ at_value a"

definition subelement_ok :: "attribute \<Rightarrow> bool" where
  "subelement_ok a \<longleftrightarrow> 0 \<le> at_kind a \<and> at_kind a < 256 \<and> length (at_value a) < 256"

lemma vendor_loop_put:
  "list_all subelement_ok subs \<Longrightarrow> length got + length subs \<le> MAX_VENDOR_SUBELEMENTS \<Longrightarrow>
   vendor_loop (concat (map put_subelement subs)) got = Inr (got @ subs)"
proof (induction subs arbitrary: got)
  case (Cons a subs)
  let ?rest = "concat (map put_subelement subs)"
  have n: "unat (oct (int (length (at_value a)))) = length (at_value a)"
    using Cons.prems(1) by (simp add: subelement_ok_def unat_of_nat_octet)
  have k: "uint (oct (at_kind a)) = at_kind a" using Cons.prems(1) by (simp add: subelement_ok_def uint_word_of_int)
  have "vendor_loop (put_subelement a @ ?rest) got = vendor_loop ?rest (got @ [a])"
    by (subst vendor_loop.simps) (use Cons.prems n k in \<open>simp add: put_subelement_def Let_def\<close>)
  then show ?case using Cons by simp
qed (simp add: vendor_loop.simps)

section \<open>M1 and its fields\<close>

lemma mapR_encode:
  "mapR (\<lambda>a. encode_attribute (at_kind a) (at_value a)) as = Inr parts \<longleftrightarrow> list_all attribute_ok as \<and> parts = map put_attribute as"
proof (induction as arbitrary: parts)
  case (Cons a as)
  then show ?case by (auto simp: bindR_eq_Inr encode_attribute_eq split: if_splits)
qed auto

text \<open>The attributes of a device, given that its numbers fit their fields.\<close>

definition device_list :: "m1_device \<Rightarrow> attribute list" where
  "device_list d = map (\<lambda>(k, v). \<lparr>at_kind = k, at_value = v\<rparr>)
     [(0x1047, m1_uuid d), (0x1020, m1_al_mac d), (0x1004, u16 (authentication_types d)), (0x1010, u16 (encryption_types d)),
      (0x100D, [oct (connection_types d)]), (0x1008, u16 (configuration_methods d)), (0x1044, [oct (wps_state d)]),
      (0x1021, manufacturer d), (0x1023, model_name d), (0x1024, model_number d), (0x1042, serial_number d),
      (0x1054, primary_device_type d), (0x1011, device_name d), (0x103C, [oct (rf_band d)]), (0x1002, u16 (association_state d)),
      (0x1012, u16 (device_password_id d)), (0x1009, u16 (configuration_error d)),
      (0x102D, (hd (to_be 4 (os_version d)) OR 0x80) # tl (to_be 4 (os_version d)))]"

definition device_ok :: "m1_device \<Rightarrow> bool" where
  "device_ok d \<longleftrightarrow> 0 \<le> os_version d \<and> os_version d < 2 ^ 32 \<and>
     (\<forall>v \<in> set [authentication_types d, encryption_types d, configuration_methods d, association_state d, device_password_id d, configuration_error d].
        0 \<le> v \<and> v < 2 ^ 16) \<and> 0 \<le> connection_types d \<and> connection_types d < 2 ^ 8 \<and>
     rf_band d \<in> set [1, 2, 4, 8] \<and> wps_state d \<in> set [1, 2] \<and>
     (\<forall>s \<in> set [manufacturer d, model_name d, model_number d, serial_number d, device_name d]. 0 \<notin> set s)"

lemma wsc_uint_iff: "wsc_uint v n = Inr bs \<longleftrightarrow> 0 \<le> v \<and> v < 2 ^ (8 * n) \<and> bs = to_be n v"
  by (auto simp: wsc_uint_def)

lemma to_be_1: "to_be (Suc 0) v = [oct v]" "to_be 1 v = [oct v]"
  by simp_all

lemma m1_attributes_iff: "m1_attributes d = Inr facts \<longleftrightarrow> device_ok d \<and> facts = device_list d"
  by (auto simp: m1_attributes_def bindR_eq_Inr wsc_uint_iff device_ok_def device_list_def Let_def DEVICE_STRINGS_def to_be_1 if_Inl_eq_Inr)

lemma create_m1_parts:
  assumes "create_m1 d pair nonce = Inr tr"
  obtains facts as got where "m1_attributes d = Inr facts" "as = m1_list facts nonce (kp_public pair)" "tr_message tr = concat (map put_attribute as)"
    "tr_key_pair tr = pair" "wsc_message (tr_message tr) 4 = Inr (as, got)"
proof -
  from assms obtain facts parts x where *: "m1_attributes d = Inr facts" "mapR (\<lambda>a. encode_attribute (at_kind a) (at_value a)) (m1_list facts nonce (kp_public pair)) = Inr parts"
    "wsc_message (concat parts) 4 = Inr x" "tr = \<lparr>tr_message = concat parts, tr_key_pair = pair\<rparr>"
    by (auto simp: create_m1_def bindR_eq_Inr)
  let ?as = "m1_list facts nonce (kp_public pair)"
  have parts: "list_all attribute_ok ?as" "parts = map put_attribute ?as" using *(2) by (simp_all add: mapR_encode)
  obtain as got where x: "x = (as, got)" by (cases x)
  have "decode_attributes (concat parts) = Inr as" using wsc_message_parts(1) *(3) x by blast
  then have "length (concat parts) \<le> MAX_COMPONENT_BYTES" unfolding decode_attributes_iff by blast
  moreover have "length ?as \<le> MAX_COMPONENT_ATTRIBUTES"
    using *(1) by (simp add: m1_attributes_iff m1_list_def device_list_def MAX_COMPONENT_ATTRIBUTES_def)
  ultimately have "decode_attributes (concat parts) = Inr ?as" using parts unfolding decode_attributes_iff by simp
  then have "as = ?as" using \<open>decode_attributes (concat parts) = Inr as\<close> by simp
  then show thesis using that [OF *(1) refl] *(3,4) parts(2) x by simp
qed
lemma message_kinds: "map_of (message_lengths 4 @ optional_lengths) (at_kind a) \<noteq> None"
  if "a \<in> set (device_list d) \<or> at_kind a \<in> set [ENROLLEE_NONCE, PUBLIC_KEY]"
  using that by (auto simp: device_list_def message_lengths_def COMMON_LENGTHS_def DEVICE_STRINGS_def ENROLLEE_NONCE_def PUBLIC_KEY_def
      VERSION_def MESSAGE_TYPE_def BSS_INDEX_def ENCRYPTED_SETTINGS_def)

lemma m1_fields:
  assumes "create_m1 d pair nonce = Inr tr" "wsc_message (tr_message tr) 4 = Inr (as, got)"
  shows "as = m1_list (device_list d) nonce (kp_public pair)" "tr_key_pair tr = pair"
    "\<And>a. a \<in> set (device_list d) \<Longrightarrow> map_of got (at_kind a) = Some (at_value a)"
    "map_of got ENROLLEE_NONCE = Some nonce" "map_of got PUBLIC_KEY = Some (kp_public pair)"
proof -
  obtain facts got' where p: "m1_attributes d = Inr facts" "tr_key_pair tr = pair"
    "wsc_message (tr_message tr) 4 = Inr (m1_list facts nonce (kp_public pair), got')"
    using create_m1_parts [OF assms(1)] by metis
  then have facts: "facts = device_list d" and as: "as = m1_list (device_list d) nonce (kp_public pair)" using assms(2) by (simp_all add: m1_attributes_iff)
  show "as = m1_list (device_list d) nonce (kp_public pair)" "tr_key_pair tr = pair" using as p(2) by simp_all
  note field = singleton_field [OF wsc_message_parts(2) [OF assms(2)]]
  have sub: "set (device_list d) \<subseteq> set as" unfolding as m1_list_def using append_take_drop_id [of 2 "device_list d"] by (auto simp del: append_take_drop_id dest: in_set_dropD in_set_takeD) (metis UnE append_take_drop_id set_append)
  show "map_of got (at_kind a) = Some (at_value a)" if "a \<in> set (device_list d)" for a
    using field [OF message_kinds, of a d "at_value a"] that sub by auto
  let ?n = "\<lparr>at_kind = ENROLLEE_NONCE, at_value = nonce\<rparr>" and ?p = "\<lparr>at_kind = PUBLIC_KEY, at_value = kp_public pair\<rparr>"
  have "?n \<in> set as" "?p \<in> set as" unfolding as m1_list_def by simp_all
  then show "map_of got ENROLLEE_NONCE = Some nonce" "map_of got PUBLIC_KEY = Some (kp_public pair)"
    using field [OF message_kinds [of ?n d], of nonce] field [OF message_kinds [of ?p d], of "kp_public pair"] by force+
qed

lemma top_bit_octet: "uint ((w :: octet) OR 0x80) = (if uint w < 128 then uint w + 128 else uint w)"
proof -
  have "\<forall>q \<in> set [0..255]. q OR 128 = (if q < 128 then q + 128 else (q :: int))" by code_simp
  moreover have "0 \<le> uint w" "uint w \<le> 255" using uint_lt2p [of w] by simp_all
  ultimately show ?thesis by (simp add: uint_or)
qed

lemma top_bit_set:
  assumes "0 \<le> v" "v < 2 ^ 32"
  shows "from_be ((hd (to_be 4 v) OR 0x80) # tl (to_be 4 v)) = (if v < 2 ^ 31 then v + 2 ^ 31 else v)"
proof -
  obtain b bs where bs: "to_be 4 v = b # bs" "length bs = 3" by (cases "to_be 4 v") (auto dest: arg_cong [of _ _ length])
  have v: "from_be (b # bs) = v" using from_be_to_be [of v 4] assms bs(1) by simp
  have low: "0 \<le> from_be bs" "from_be bs < 2 ^ 24" using from_be_less [of bs] bs(2) by simp_all
  have eq: "from_be (c # bs) = uint c * 2 ^ 24 + from_be bs" for c :: octet
    using bs(2) by (cases bs; cases "tl bs"; cases "tl (tl bs)") (auto simp: from_be_def)
  have *: "uint b * 16777216 + from_be bs = v" "0 \<le> from_be bs" "from_be bs < 16777216" using v low by (simp_all add: eq)
  have "v < 2147483648" if "uint b < 128" using * that by linarith
  moreover have "uint b < 128" if "v < 2147483648" using * that by linarith
  ultimately have "uint b < 128 \<longleftrightarrow> v < 2 ^ 31" by auto
  then show ?thesis using v by (simp add: bs eq top_bit_octet)
qed

section \<open>Properties\<close>

text \<open>C33. An M1 says what the device is: parsing the message that \<open>M1Transcript.create\<close> made gives back all 18 facts of
  the device, each under its attribute type, with the nonce and the public value of the exchange: the identity and
  the strings octet for octet, the numbers as they were given, and the version of the operating system with its
  highest bit set.\<close>

theorem m1_roundtrip:
  assumes "create_m1 d pair nonce = Inr tr"
  shows "\<exists>as got. wsc_message (tr_message tr) 4 = Inr (as, got) \<and> tr_key_pair tr = pair \<and>
    map_of got 0x101A = Some nonce \<and> map_of got 0x1032 = Some (kp_public pair) \<and>
    map_of got 0x1047 = Some (m1_uuid d) \<and> map_of got 0x1020 = Some (m1_al_mac d) \<and>
    map_option from_be (map_of got 0x1004) = Some (authentication_types d) \<and> map_option from_be (map_of got 0x1010) = Some (encryption_types d) \<and>
    map_option from_be (map_of got 0x100D) = Some (connection_types d) \<and> map_option from_be (map_of got 0x1008) = Some (configuration_methods d) \<and>
    map_option from_be (map_of got 0x1044) = Some (wps_state d) \<and> map_option from_be (map_of got 0x103C) = Some (rf_band d) \<and>
    map_of got 0x1021 = Some (manufacturer d) \<and> map_of got 0x1023 = Some (model_name d) \<and> map_of got 0x1024 = Some (model_number d) \<and>
    map_of got 0x1042 = Some (serial_number d) \<and> map_of got 0x1011 = Some (device_name d) \<and> map_of got 0x1054 = Some (primary_device_type d) \<and>
    map_option from_be (map_of got 0x1002) = Some (association_state d) \<and> map_option from_be (map_of got 0x1012) = Some (device_password_id d) \<and>
    map_option from_be (map_of got 0x1009) = Some (configuration_error d) \<and>
    map_option from_be (map_of got 0x102D) = Some (if os_version d < 2 ^ 31 then os_version d + 2 ^ 31 else os_version d)"
proof -
  obtain facts as got where p: "m1_attributes d = Inr facts" "wsc_message (tr_message tr) 4 = Inr (as, got)"
    using create_m1_parts [OF assms] by metis
  note f = m1_fields [OF assms p(2)]
  have ok: "device_ok d" using p(1) by (simp add: m1_attributes_iff)
  have k: "map_of got k = Some v" if "\<lparr>at_kind = k, at_value = v\<rparr> \<in> set (device_list d)" for k v using f(3) [OF that] by simp
  have n: "map_option from_be (map_of got j) = Some w" if "\<lparr>at_kind = j, at_value = to_be n w\<rparr> \<in> set (device_list d)" "0 \<le> w" "w < 256 ^ n" for j w n
    using k [OF that(1)] from_be_to_be [OF that(2,3)] by simp
  have small: "rf_band d < 256" "0 \<le> rf_band d" "wps_state d < 256" "0 \<le> wps_state d" using ok by (auto simp: device_ok_def)
  have num: "map_option from_be (map_of got 0x1004) = Some (authentication_types d)" "map_option from_be (map_of got 0x1010) = Some (encryption_types d)"
    "map_option from_be (map_of got 0x1008) = Some (configuration_methods d)" "map_option from_be (map_of got 0x1002) = Some (association_state d)"
    "map_option from_be (map_of got 0x1012) = Some (device_password_id d)" "map_option from_be (map_of got 0x1009) = Some (configuration_error d)"
    by (rule n [of _ 2]; use ok in \<open>simp add: device_list_def device_ok_def\<close>)+
  have one_octet: "map_option from_be (map_of got 0x100D) = Some (connection_types d)" "map_option from_be (map_of got 0x1044) = Some (wps_state d)"
    "map_option from_be (map_of got 0x103C) = Some (rf_band d)"
    by (rule n [of _ 1]; use ok small in \<open>simp add: device_list_def device_ok_def\<close>)+
  have bs: "map_of got 0x1047 = Some (m1_uuid d)" "map_of got 0x1020 = Some (m1_al_mac d)" "map_of got 0x1021 = Some (manufacturer d)"
    "map_of got 0x1023 = Some (model_name d)" "map_of got 0x1024 = Some (model_number d)" "map_of got 0x1042 = Some (serial_number d)"
    "map_of got 0x1011 = Some (device_name d)" "map_of got 0x1054 = Some (primary_device_type d)"
    by (rule k; simp add: device_list_def)+
  have "map_of got 0x102D = Some ((hd (to_be 4 (os_version d)) OR 0x80) # tl (to_be 4 (os_version d)))" by (rule k; simp add: device_list_def)
  then have os: "map_option from_be (map_of got 0x102D) = Some (if os_version d < 2 ^ 31 then os_version d + 2 ^ 31 else os_version d)"
    using top_bit_set [of "os_version d"] ok by (simp add: device_ok_def del: to_be.simps)
  show ?thesis using p(2) f(2,4,5) num one_octet bs os unfolding ENROLLEE_NONCE_def PUBLIC_KEY_def by blast
qed

definition example_device :: m1_device where
  "example_device = \<lparr>m1_uuid = replicate 16 1, m1_al_mac = [2, 0, 0, 0, 0, 1], authentication_types = 0x20, encryption_types = 8, connection_types = 1,
     configuration_methods = 0x280, wps_state = 2, manufacturer = [65], model_name = [66], model_number = [67], serial_number = [68],
     primary_device_type = replicate 8 0, device_name = [69], rf_band = 1, association_state = 0, device_password_id = 0, configuration_error = 0,
     os_version = 1\<rparr>"

definition example_pair :: key_pair where
  "example_pair = \<lparr>kp_public = replicate 192 7, kp_exchange = \<lambda>_. None\<rparr>"

lemma example_m1: "\<exists>tr. create_m1 example_device example_pair (replicate 16 9) = Inr tr"
proof -
  let ?as = "m1_list (device_list example_device) (replicate 16 9) (replicate 192 7)"
  have a: "m1_attributes example_device = Inr (device_list example_device)"
    unfolding m1_attributes_iff by (simp add: device_ok_def example_device_def)
  have ok: "list_all attribute_ok ?as"
    by (simp add: m1_list_def device_list_def example_device_def attribute_ok_def VERSION_def MESSAGE_TYPE_def ENROLLEE_NONCE_def PUBLIC_KEY_def
        VENDOR_EXTENSION_def WFA_ID_def)
  have "length (concat (map put_attribute ?as)) \<le> MAX_COMPONENT_BYTES"
    by (simp add: m1_list_def device_list_def example_device_def MAX_COMPONENT_BYTES_def WFA_ID_def)
  then have d: "decode_attributes (concat (map put_attribute ?as)) = Inr ?as"
    unfolding decode_attributes_iff using ok by (simp add: m1_list_def device_list_def MAX_COMPONENT_ATTRIBUTES_def)
  have sel: "consumed (message_lengths 4 @ optional_lengths) ?as = butlast ?as"
    by (simp add: consumed_def m1_list_def device_list_def message_lengths_def COMMON_LENGTHS_def DEVICE_STRINGS_def VERSION_def MESSAGE_TYPE_def
        ENROLLEE_NONCE_def PUBLIC_KEY_def VENDOR_EXTENSION_def BSS_INDEX_def ENCRYPTED_SETTINGS_def)
  let ?got = "map (\<lambda>a. (at_kind a, at_value a)) (butlast ?as)"
  have b: "butlast ?as = take (length ?as - 1) ?as" by (simp add: butlast_conv_take)
  have "singletons ?as (message_lengths 4) optional_lengths = Inr ?got"
    unfolding singletons_iff Let_def sel
    by (simp add: m1_list_def device_list_def message_lengths_def COMMON_LENGTHS_def DEVICE_STRINGS_def example_device_def VERSION_def
        MESSAGE_TYPE_def ENROLLEE_NONCE_def PUBLIC_KEY_def VENDOR_EXTENSION_def BSS_INDEX_def ENCRYPTED_SETTINGS_def)
  moreover have "map_of ?got MESSAGE_TYPE = Some [oct 4]" "map_of ?got BSS_INDEX = None"
    by (simp_all add: m1_list_def device_list_def VERSION_def MESSAGE_TYPE_def BSS_INDEX_def ENROLLEE_NONCE_def PUBLIC_KEY_def VENDOR_EXTENSION_def)
  moreover have "vendor_subelements ?as = Inr [\<lparr>at_kind = 0, at_value = [0x20]\<rparr>]"
    using vendor_loop_put [of "[\<lparr>at_kind = 0, at_value = [0x20]\<rparr>]" "[]"]
    by (simp add: vendor_subelements_def vendor_step_def m1_list_def device_list_def VERSION_def MESSAGE_TYPE_def ENROLLEE_NONCE_def PUBLIC_KEY_def
        VENDOR_EXTENSION_def WFA_ID_def put_subelement_def subelement_ok_def MAX_VENDOR_SUBELEMENTS_def)
  ultimately have "wsc_message (concat (map put_attribute ?as)) 4 = Inr (?as, ?got)"
    by (simp add: wsc_message_def d wsc_field_def)
  then show ?thesis using a ok by (simp add: create_m1_def mapR_encode [THEN iffD2] example_pair_def)
qed

theorem m1_roundtrip_witness:
  "\<exists>tr as got. create_m1 example_device example_pair (replicate 16 9) = Inr tr \<and> wsc_message (tr_message tr) 4 = Inr (as, got) \<and>
     map_of got 0x1020 = Some [2, 0, 0, 0, 0, 1] \<and> map_option from_be (map_of got 0x1008) = Some 0x280 \<and>
     map_option from_be (map_of got 0x102D) = Some 0x80000001"
proof -
  obtain tr where tr: "create_m1 example_device example_pair (replicate 16 9) = Inr tr" using example_m1 by blast
  from m1_roundtrip [OF tr] tr show ?thesis by (auto simp: example_device_def)
qed

lemma bss_index_field:
  assumes "wsc_message m 5 = Inr (as, got)"
  shows "(case map_of got BSS_INDEX of None \<Rightarrow> Inr None | Some v \<Rightarrow> (case v of [] \<Rightarrow> Inl IndexError | b # _ \<Rightarrow> Inr (Some (uint b)))) =
    Inr (map_option from_be (map_of got BSS_INDEX))"
proof (cases "map_of got BSS_INDEX")
  case (Some v)
  note s = wsc_message_parts(2) [OF assms]
  have k: "map_of (message_lengths 5 @ optional_lengths) BSS_INDEX = Some (Exactly 1)"
    by (simp add: message_lengths_def COMMON_LENGTHS_def DEVICE_STRINGS_def VERSION_def MESSAGE_TYPE_def ENROLLEE_NONCE_def REGISTRAR_NONCE_def
        PUBLIC_KEY_def AUTHENTICATOR_def BSS_INDEX_def)
  then obtain a where a: "a \<in> set as" "at_kind a = BSS_INDEX" "at_value a = v" using singleton_field [OF s, of BSS_INDEX v] Some by auto
  then have "a \<in> set (consumed (message_lengths 5 @ optional_lengths) as)" using k by (simp add: consumed_def del: map_of_append)
  then have "span_ok (the (map_of (message_lengths 5 @ optional_lengths) (at_kind a))) (length (at_value a))"
    using s unfolding singletons_iff Let_def by blast
  then have "length v = 1" using k a by (simp del: map_of_append)
  then obtain b where "v = [b]" by (cases v) auto
  then show ?thesis using Some by (simp add: from_be_1)
qed simp

text \<open>C32. Settings are accepted only from an M2 made for this M1: an M2 is accepted, with its settings, exactly when it
  is well formed, repeats the nonce of the M1, and is some body authenticated over the M1 and that body with the
  keys derived from the M1's own key pair, the M1's nonce and address and the M2's public value and nonce, the settings
  being the attributes that its encrypted field decrypts to under these keys.\<close>

theorem m2_authentic:
  "authenticate_m2_envelope cbc_decrypt unpad tr m = Inr env \<longleftrightarrow>
   (\<exists>e_as enrollee registrar nonce peer mac_address keys body encrypted plain subs.
      wsc_message (tr_message tr) 4 = Inr (e_as, enrollee) \<and> wsc_message m 5 = Inr (m2_attributes env, registrar) \<and>
      map_of enrollee PUBLIC_KEY = Some (kp_public (tr_key_pair tr)) \<and> map_of enrollee ENROLLEE_NONCE = Some nonce \<and>
      map_of enrollee 0x1020 = Some mac_address \<and> map_of registrar ENROLLEE_NONCE = Some nonce \<and>
      map_of registrar PUBLIC_KEY = Some peer \<and> map_of registrar REGISTRAR_NONCE = Some (registrar_nonce env) \<and>
      map_of registrar 0x1048 = Some (registrar_uuid env) \<and> map_option from_be (map_of registrar BSS_INDEX) = bss_index env \<and>
      derive (kp_exchange (tr_key_pair tr)) peer nonce mac_address (registrar_nonce env) = Inr keys \<and>
      authenticate_message keys (tr_message tr) body = Inr m \<and>
      map_of registrar ENCRYPTED_SETTINGS = Some encrypted \<and> decrypt_settings cbc_decrypt unpad keys encrypted = Inr plain \<and>
      decode_attributes plain = Inr (config_data env) \<and> vendor_subelements (config_data env) = Inr subs)"
  (is "?lhs \<longleftrightarrow> ?rhs")
proof
  assume ?lhs
  then obtain e_as enrollee as registrar where w: "wsc_message (tr_message tr) 4 = Inr (e_as, enrollee)" "wsc_message m 5 = Inr (as, registrar)"
    by (auto simp: authenticate_m2_envelope_def bindR_eq_Inr [of "wsc_message _ _"] split: prod.splits)
  note b = bss_index_field [OF w(2)]
  from \<open>?lhs\<close> w show ?rhs unfolding authenticate_m2_envelope_def
    by (cases "map_of registrar ENCRYPTED_SETTINGS"; simp add: bindR_eq_Inr wsc_field_iff b if_Inl_eq_Inr verify_iff)
      (elim exE conjE; clarsimp; blast)
next
  assume ?rhs
  then show ?lhs
    by (elim exE conjE) (cases env; simp add: authenticate_m2_envelope_def bss_index_field wsc_field_def verify_iff [THEN iffD2])
qed

end
