(* ===== verification/Cmdu.thy ===== *)
theory Cmdu
  imports Emosa_Prelude
begin

text \<open>
  The IEEE 1905 envelope of \<open>emosa/wire/cmdu.py\<close>: TLVs, Ethernet frames, fragmentation of a
  message at TLV boundaries, the message-ID sequence and the duplicate window. The reassembler is
  in the theory \<open>Reassembly\<close>. The lemmas show that what is encoded is read back, that the frames
  of a message respect the MTU and carry exactly its TLVs, that IDs do not repeat within their
  16-bit period, and that the duplicate window is bounded and remembers.
\<close>

section \<open>Constants and checks\<close>

definition ETHERTYPE :: int where "ETHERTYPE = 0x893A"
definition MULTICAST :: bytes where "MULTICAST = [0x01, 0x80, 0xc2, 0x00, 0x00, 0x13]"
definition HEADER_size :: nat where "HEADER_size = 8"
definition MAX_CMDU :: nat where "MAX_CMDU = 1500"
definition MAX_VALUE :: nat where "MAX_VALUE = 0x3FFF"
definition MAX_TLVS :: nat where "MAX_TLVS = 256"
definition END_TLV :: bytes where "END_TLV = [0, 0, 0]"

lemmas cmdu_consts = HEADER_size_def MAX_CMDU_def MAX_VALUE_def MAX_TLVS_def

lemma length_END_TLV [simp]: "length END_TLV = 3"
  by (simp add: END_TLV_def)

definition uint_chk :: "int \<Rightarrow> nat \<Rightarrow> int result" where
  "uint_chk v bits = (if 0 \<le> v \<and> v < 2 ^ bits then Inr v else invalid)"

definition mac :: "bytes \<Rightarrow> bytes result" where
  "mac v = (if length v \<noteq> 6 then invalid else Inr v)"

lemma uint_chk_eq_Inr [result_simps]: "uint_chk v bits = Inr w \<longleftrightarrow> w = v \<and> 0 \<le> v \<and> v < 2 ^ bits"
  by (auto simp: uint_chk_def)

lemma mac_eq_Inr [result_simps]: "mac v = Inr w \<longleftrightarrow> w = v \<and> length v = 6"
  by (auto simp: mac_def)

section \<open>TLVs\<close>

record tlv =
  kind :: int
  tlv_value :: bytes

definition Tlv :: "int \<Rightarrow> bytes \<Rightarrow> tlv" where
  "Tlv k v = \<lparr>kind = k, tlv_value = v\<rparr>"

lemma Tlv_sel [simp]: "kind (Tlv k v) = k" "tlv_value (Tlv k v) = v"
  by (simp_all add: Tlv_def)

lemma Tlv_collapse [simp]: "Tlv (kind t) (tlv_value t) = t"
  by (simp add: Tlv_def)

lemma Tlv_inject [simp]: "Tlv k v = Tlv k' v' \<longleftrightarrow> k = k' \<and> v = v'"
  by (auto simp: Tlv_def)

definition tlv_encode :: "tlv \<Rightarrow> bytes result" where
  "tlv_encode t =
     bindR (uint_chk (kind t) 8) (\<lambda>_.
       if kind t = 0 \<or> length (tlv_value t) > MAX_VALUE then invalid
       else Inr (oct (kind t) # u16 (int (length (tlv_value t))) @ tlv_value t))"

function parse_loop :: "bytes \<Rightarrow> bool \<Rightarrow> tlv list \<Rightarrow> tlv list result" where
  "parse_loop payload final tlvs =
     (if payload = [] then
        (if final then invalid
         else if tlvs = [] then invalid
         else Inr tlvs)
      else if length payload < 3 then invalid
      else
        let k = val (payload ! 0);
            len = nat (from_be (py_slice payload 1 3) AND int MAX_VALUE);
            rest = drop 3 payload
        in if k = 0 then (if len \<noteq> 0 \<or> \<not> final then invalid else Inr tlvs)
           else if length rest < len then invalid
           else if length tlvs \<ge> MAX_TLVS then invalid
           else parse_loop (drop len rest) final (tlvs @ [Tlv k (take len rest)]))"
  by pat_completeness auto
termination
  by (relation "measure (\<lambda>(payload, _, _). length payload)") auto

declare parse_loop.simps [simp del]

definition parse_tlvs :: "bytes \<Rightarrow> bool \<Rightarrow> tlv list result" where
  "parse_tlvs payload final = parse_loop payload final []"

text \<open>The octets of one valid TLV, and which TLVs can be sent.\<close>

definition tlv_ok :: "tlv \<Rightarrow> bool" where
  "tlv_ok t \<longleftrightarrow> 0 < kind t \<and> kind t < 256 \<and> length (tlv_value t) \<le> MAX_VALUE"

definition put_tlv :: "tlv \<Rightarrow> bytes" where
  "put_tlv t = oct (kind t) # u16 (int (length (tlv_value t))) @ tlv_value t"

lemma tlv_encode_eq: "tlv_encode t = (if tlv_ok t then Inr (put_tlv t) else invalid)"
  by (auto simp: tlv_encode_def tlv_ok_def put_tlv_def uint_chk_def)

lemma length_put_tlv [simp]: "length (put_tlv t) = 3 + length (tlv_value t)"
  by (simp add: put_tlv_def)

lemma mask_small:
  assumes "0 \<le> v" "v \<le> int MAX_VALUE"
  shows "v AND int MAX_VALUE = v"
proof -
  have "int MAX_VALUE = mask 14" by (simp add: MAX_VALUE_def mask_eq_exp_minus_1)
  then have "v AND int MAX_VALUE = take_bit 14 v" by (simp add: take_bit_eq_mask)
  also have "\<dots> = v" using assms by (simp add: take_bit_int_eq_self MAX_VALUE_def)
  finally show ?thesis .
qed

lemma parse_loop_put:
  assumes "tlv_ok t" "length acc < MAX_TLVS"
  shows "parse_loop (put_tlv t @ rest) final acc = parse_loop rest final (acc @ [t])"
proof -
  let ?n = "length (tlv_value t)"
  have n: "?n \<le> MAX_VALUE" and k: "0 < kind t" "kind t < 256"
    using assms(1) by (auto simp: tlv_ok_def)
  have hd: "py_slice (put_tlv t @ rest) 1 3 = u16 (int ?n)"
    by (simp add: put_tlv_def py_slice_def)
  have len: "nat (from_be (py_slice (put_tlv t @ rest) 1 3) AND int MAX_VALUE) = ?n"
  proof -
    have "int ?n < 256 ^ 2" using n by (simp add: MAX_VALUE_def)
    then show ?thesis using n by (simp only: hd from_be_to_be of_nat_0_le_iff mask_small of_nat_le_iff nat_int)
  qed
  have body: "drop 3 (put_tlv t @ rest) = tlv_value t @ rest"
    by (simp add: put_tlv_def numeral_3_eq_3 u16_explicit)
  have ne: "put_tlv t \<noteq> []" "\<not> length (put_tlv t @ rest) < 3"
    by (simp_all add: put_tlv_def)
  have k0: "val ((put_tlv t @ rest) ! 0) = kind t"
    using k by (simp add: put_tlv_def)
  show ?thesis
    unfolding parse_loop.simps [of "put_tlv t @ rest" final acc] Let_def len body k0
    using assms(2) k ne by simp
qed

lemma parse_loop_list:
  assumes "list_all tlv_ok ts" "length acc + length ts \<le> MAX_TLVS"
  shows "parse_loop (concat (map put_tlv ts) @ rest) final acc = parse_loop rest final (acc @ ts)"
  using assms by (induction ts arbitrary: acc) (simp_all add: parse_loop_put)

lemma parse_loop_END: "parse_loop (END_TLV @ padding) True acc = Inr acc"
  by (subst parse_loop.simps) (simp add: END_TLV_def py_slice_def from_be_def)

lemma parse_loop_Nil: "parse_loop [] False acc = (if acc = [] then invalid else Inr acc)"
  by (subst parse_loop.simps) simp

lemma parse_tlvs_final:
  assumes "list_all tlv_ok ts" "length ts \<le> MAX_TLVS"
  shows "parse_tlvs (concat (map put_tlv ts) @ END_TLV @ padding) True = Inr ts"
  using assms by (simp add: parse_tlvs_def parse_loop_list parse_loop_END)

lemma parse_tlvs_partial:
  assumes "list_all tlv_ok ts" "length ts \<le> MAX_TLVS" "ts \<noteq> []"
  shows "parse_tlvs (concat (map put_tlv ts)) False = Inr ts"
  using assms parse_loop_list [of ts "[]" "[]" False] by (simp add: parse_tlvs_def parse_loop_Nil)

text \<open>Whatever the octets, what the loop returns is bounded, keeps what it had, and can be sent again.\<close>

lemma parse_loop_sound:
  assumes "parse_loop payload final acc = Inr ts" "list_all tlv_ok acc" "length acc \<le> MAX_TLVS"
  shows "list_all tlv_ok ts \<and> length ts \<le> MAX_TLVS \<and> (ts = [] \<longrightarrow> final)"
  using assms
proof (induction payload final acc rule: parse_loop.induct)
  case (1 payload final acc)
  define k where "k = val (payload ! 0)"
  define len where "len = nat (from_be (py_slice payload 1 3) AND int MAX_VALUE)"
  define rest where "rest = drop 3 payload"
  note eq = 1(2) [unfolded parse_loop.simps [of payload final acc] Let_def, folded k_def len_def rest_def]
  have lenle: "len \<le> MAX_VALUE"
    unfolding len_def by (simp add: nat_le_iff AND_upper2)
  show ?case
  proof (cases "payload = [] \<or> k = 0")
    case True
    with eq 1(3,4) show ?thesis by (auto split: if_splits)
  next
    case False
    with eq have go: "\<not> length payload < 3" "\<not> length rest < len" "\<not> length acc \<ge> MAX_TLVS"
      "parse_loop (drop len rest) final (acc @ [Tlv k (take len rest)]) = Inr ts"
      by (auto split: if_splits)
    have "tlv_ok (Tlv k (take len rest))"
      using False lenle by (auto simp: tlv_ok_def k_def val_pos_iff)
    moreover have "length (acc @ [Tlv k (take len rest)]) \<le> MAX_TLVS"
      using go(3) by simp
    ultimately show ?thesis
      using 1(1) [OF _ go(1) k_def len_def rest_def _ go(2) go(3) go(4)] False 1(3)
      by simp
  qed
qed

lemma parse_tlvs_sound:
  "parse_tlvs payload final = Inr ts \<Longrightarrow>
   list_all tlv_ok ts \<and> length ts \<le> MAX_TLVS \<and> (ts = [] \<longrightarrow> final)"
  unfolding parse_tlvs_def by (erule parse_loop_sound) auto

section \<open>Frames\<close>

record fragment =
  fr_destination :: bytes
  fr_source :: bytes
  fr_message_type :: int
  fr_mid :: int
  fr_fid :: int
  fr_last :: bool
  fr_relay :: bool
  fr_payload :: bytes
  fr_version :: int

definition fragment_encode :: "fragment \<Rightarrow> bytes result" where
  "fragment_encode f =
     bindR (mac (fr_destination f)) (\<lambda>_.
     bindR (mac (fr_source f)) (\<lambda>_.
     bindR (uint_chk (fr_message_type f) 16) (\<lambda>_.
     bindR (uint_chk (fr_mid f) 16) (\<lambda>_.
     bindR (uint_chk (fr_fid f) 8) (\<lambda>_.
       if fr_version f \<noteq> 0 then invalid
       else if length (fr_payload f) > MAX_CMDU - HEADER_size then invalid
       else
         let flags = (if fr_last f then 0x80 else 0) OR (if fr_relay f then 0x40 else (0 :: int));
             header = [0, 0] @ u16 (fr_message_type f) @ u16 (fr_mid f) @ [oct (fr_fid f), oct flags]
         in Inr (fr_destination f @ fr_source f @ u16 ETHERTYPE @ header @ fr_payload f))))))"

definition decode_frame :: "bytes \<Rightarrow> fragment result" where
  "decode_frame frame =
     (if \<not> (22 \<le> length frame \<and> length frame \<le> 14 + MAX_CMDU) then invalid
      else if from_be (py_slice frame 12 14) \<noteq> ETHERTYPE then invalid
      else
        let flags = val (frame ! 21)
        in Inr \<lparr>fr_destination = take 6 frame,
                fr_source = py_slice frame 6 12,
                fr_message_type = from_be (py_slice frame 16 18),
                fr_mid = from_be (py_slice frame 18 20),
                fr_fid = val (frame ! 20),
                fr_last = (flags AND 0x80 \<noteq> 0),
                fr_relay = (flags AND 0x40 \<noteq> 0),
                fr_payload = drop 22 frame,
                fr_version = val (frame ! 14)\<rparr>)"

text \<open>What a fragment must satisfy to be sent.\<close>

definition fragment_ok :: "fragment \<Rightarrow> bool" where
  "fragment_ok f \<longleftrightarrow>
     length (fr_destination f) = 6 \<and> length (fr_source f) = 6 \<and>
     0 \<le> fr_message_type f \<and> fr_message_type f < 65536 \<and> 0 \<le> fr_mid f \<and> fr_mid f < 65536 \<and>
     0 \<le> fr_fid f \<and> fr_fid f < 256 \<and> fr_version f = 0 \<and>
     length (fr_payload f) \<le> MAX_CMDU - HEADER_size"

definition put_frame :: "fragment \<Rightarrow> bytes" where
  "put_frame f =
     fr_destination f @ fr_source f @ [0x89, 0x3A] @ [0, 0] @ u16 (fr_message_type f) @ u16 (fr_mid f) @
     [oct (fr_fid f), oct ((if fr_last f then 0x80 else 0) OR (if fr_relay f then 0x40 else 0))] @
     fr_payload f"

lemma fragment_encode_eq:
  "fragment_encode f = (if fragment_ok f then Inr (put_frame f) else invalid)"
  by (auto simp: fragment_encode_def fragment_ok_def put_frame_def mac_def uint_chk_def
      u16_explicit ETHERTYPE_def Let_def)

lemma length_put_frame: "fragment_ok f \<Longrightarrow> length (put_frame f) = 22 + length (fr_payload f)"
  by (simp add: put_frame_def fragment_ok_def)

lemma from_be_u16_explicit: "0 \<le> v \<Longrightarrow> v < 65536 \<Longrightarrow> from_be [oct (v div 256), oct v] = v"
  using from_be_to_be [of v 2] by (simp add: u16_explicit)

lemma decode_put_frame:
  assumes "fragment_ok f"
  shows "decode_frame (put_frame f) = Inr f"
proof -
  have "from_be [0x89, 0x3A] = ETHERTYPE"
    by (simp add: from_be_def ETHERTYPE_def)
  then show ?thesis
    using assms
    by (cases f)
       (simp add: put_frame_def decode_frame_def fragment_ok_def u16_explicit py_slice_def nth_append
         from_be_u16_explicit cmdu_consts Let_def)
qed

section \<open>Fragmentation\<close>

definition frag_step :: "nat \<Rightarrow> bytes list \<times> bytes \<Rightarrow> tlv \<Rightarrow> (bytes list \<times> bytes) result" where
  "frag_step budget s t =
     bindR (tlv_encode t) (\<lambda>encoded.
       if length encoded + length END_TLV > budget then invalid
       else
         let (chunks, current) =
               (if length (snd s) + length encoded + length END_TLV > budget
                then (fst s @ [snd s], []) else s)
         in Inr (chunks, current @ encoded))"

definition fragment_message ::
  "bytes \<Rightarrow> bytes \<Rightarrow> int \<Rightarrow> int \<Rightarrow> tlv list \<Rightarrow> bool \<Rightarrow> nat \<Rightarrow> bytes list result" where
  "fragment_message destination source message_type mid tlvs relay mtu =
     (if \<not> (14 \<le> mtu \<and> mtu \<le> MAX_CMDU) then invalid
      else if length tlvs > MAX_TLVS then invalid
      else
        bindR (foldR (frag_step (mtu - HEADER_size)) ([], []) tlvs) (\<lambda>(chunks, current).
          let chunks = chunks @ [current @ END_TLV]
          in if length chunks > 64 then invalid
             else mapR (\<lambda>(fid, payload).
                    fragment_encode
                      \<lparr>fr_destination = destination, fr_source = source, fr_message_type = message_type,
                       fr_mid = mid, fr_fid = int fid, fr_last = (fid = length chunks - 1),
                       fr_relay = relay, fr_payload = payload, fr_version = 0\<rparr>)
                    (enumerate 0 chunks)))"

text \<open>A run of TLVs as octets, and the payload of the \<open>i\<close>-th of the groups a message is cut into.\<close>

definition put_tlvs :: "tlv list \<Rightarrow> bytes" where
  "put_tlvs ts = concat (map put_tlv ts)"

definition chunk_payload :: "tlv list list \<Rightarrow> nat \<Rightarrow> bytes" where
  "chunk_payload gs i = put_tlvs (gs ! i) @ (if i = length gs - 1 then END_TLV else [])"

definition chunk_frame :: "bytes \<Rightarrow> bytes \<Rightarrow> int \<Rightarrow> int \<Rightarrow> bool \<Rightarrow> tlv list list \<Rightarrow> nat \<Rightarrow> fragment" where
  "chunk_frame destination source message_type mid relay gs i =
     \<lparr>fr_destination = destination, fr_source = source, fr_message_type = message_type,
      fr_mid = mid, fr_fid = int i, fr_last = (i = length gs - 1),
      fr_relay = relay, fr_payload = chunk_payload gs i, fr_version = 0\<rparr>"

text \<open>How a message is cut: non-empty groups in order, each within the budget with the end marker.\<close>

definition grouping :: "nat \<Rightarrow> tlv list \<Rightarrow> tlv list list \<Rightarrow> bool" where
  "grouping budget ts gs \<longleftrightarrow>
     gs \<noteq> [] \<and> concat gs = ts \<and> [] \<notin> set (butlast gs) \<and> list_all tlv_ok ts \<and>
     (\<forall>g \<in> set gs. length (put_tlvs g) + 3 \<le> budget)"

lemma put_tlvs_simps [simp]:
  "put_tlvs [] = []" "put_tlvs (xs @ ys) = put_tlvs xs @ put_tlvs ys" "put_tlvs [t] = put_tlv t"
  by (simp_all add: put_tlvs_def)

lemma put_tlvs_eq_Nil [simp]: "put_tlvs ts = [] \<longleftrightarrow> ts = []"
  by (cases ts) (auto simp: put_tlvs_def put_tlv_def)

lemma length_put_tlvs: "length (put_tlvs ts) = sum_list (map (\<lambda>t. length (tlv_value t) + 3) ts)"
  by (induction ts) (simp_all add: put_tlvs_def)

lemma frag_fold_sound:
  assumes "foldR (frag_step budget) (map put_tlvs gs, put_tlvs cur) ts = Inr (chunks, current)"
    and "3 \<le> budget" "[] \<notin> set gs" "\<forall>g \<in> set (gs @ [cur]). length (put_tlvs g) + 3 \<le> budget"
  shows "\<exists>gs' cur'. chunks = map put_tlvs gs' \<and> current = put_tlvs cur' \<and>
           concat gs' @ cur' = concat gs @ cur @ ts \<and> [] \<notin> set gs' \<and> list_all tlv_ok ts \<and>
           (\<forall>g \<in> set (gs' @ [cur']). length (put_tlvs g) + 3 \<le> budget)"
  using assms
proof (induction ts arbitrary: gs cur)
  case Nil
  then show ?case by auto
next
  case (Cons t ts)
  from Cons.prems(1) have ok: "tlv_ok t" and fits: "length (put_tlv t) + 3 \<le> budget"
    by (auto simp: result_simps frag_step_def tlv_encode_eq split: if_splits)
  show ?case
  proof (cases "length (put_tlvs cur) + length (put_tlv t) + 3 > budget")
    case True
    then have "cur \<noteq> []" using fits by auto
    moreover have "frag_step budget (map put_tlvs gs, put_tlvs cur) t = Inr (map put_tlvs (gs @ [cur]), put_tlvs [t])"
      using ok fits True by (simp add: frag_step_def tlv_encode_eq)
    then have "foldR (frag_step budget) (map put_tlvs (gs @ [cur]), put_tlvs [t]) ts = Inr (chunks, current)"
      using Cons.prems(1) by simp
    ultimately show ?thesis
      using Cons.IH [of "gs @ [cur]" "[t]"] Cons.prems(2-4) fits ok by auto
  next
    case False
    then have "frag_step budget (map put_tlvs gs, put_tlvs cur) t = Inr (map put_tlvs gs, put_tlvs (cur @ [t]))"
      using ok fits by (simp add: frag_step_def tlv_encode_eq)
    then have "foldR (frag_step budget) (map put_tlvs gs, put_tlvs (cur @ [t])) ts = Inr (chunks, current)"
      using Cons.prems(1) by simp
    then show ?thesis
      using Cons.IH [of gs "cur @ [t]"] Cons.prems(2-4) False ok by auto
  qed
qed

lemma frag_fold_grouping:
  assumes "foldR (frag_step budget) ([], []) ts = Inr (chunks, current)" "3 \<le> budget"
  obtains gs cur where "chunks = map put_tlvs gs" "current = put_tlvs cur" "grouping budget ts (gs @ [cur])"
proof -
  from frag_fold_sound [of budget "[]" "[]" ts chunks current] assms
  obtain gs cur where "chunks = map put_tlvs gs" "current = put_tlvs cur" "concat gs @ cur = ts"
    "[] \<notin> set gs" "list_all tlv_ok ts" "\<forall>g \<in> set (gs @ [cur]). length (put_tlvs g) + 3 \<le> budget"
    by auto
  then show thesis by (intro that) (auto simp: grouping_def)
qed

lemma chunks_chunk_payload:
  "map put_tlvs gs @ [put_tlvs cur @ END_TLV] = map (chunk_payload (gs @ [cur])) [0..<Suc (length gs)]"
  by (rule nth_equalityI) (auto simp: chunk_payload_def nth_append less_Suc_eq)

lemma fragment_message_frames:
  assumes "fragment_message destination source message_type mid ts relay mtu = Inr frames"
  obtains gs where "grouping (mtu - HEADER_size) ts gs" "length gs \<le> 64" "length ts \<le> MAX_TLVS"
    "14 \<le> mtu" "mtu \<le> MAX_CMDU"
    "\<forall>i < length gs. fragment_ok (chunk_frame destination source message_type mid relay gs i)"
    "frames = map (\<lambda>i. put_frame (chunk_frame destination source message_type mid relay gs i)) [0..<length gs]"
proof -
  from assms obtain chunks current where
    g: "14 \<le> mtu" "mtu \<le> MAX_CMDU" "length ts \<le> MAX_TLVS" and
    fold: "foldR (frag_step (mtu - HEADER_size)) ([], []) ts = Inr (chunks, current)" and
    len: "length chunks < 64" and
    enc: "mapR (\<lambda>(fid, payload). fragment_encode
       \<lparr>fr_destination = destination, fr_source = source, fr_message_type = message_type,
        fr_mid = mid, fr_fid = int fid, fr_last = (fid = length chunks),
        fr_relay = relay, fr_payload = payload, fr_version = 0\<rparr>)
       (enumerate 0 (chunks @ [current @ END_TLV])) = Inr frames"
    by (auto simp: fragment_message_def result_simps Let_def)
  have "3 \<le> mtu - HEADER_size" using g by (simp add: HEADER_size_def)
  from frag_fold_grouping [OF fold this] obtain gs cur where
    gs: "chunks = map put_tlvs gs" "current = put_tlvs cur" "grouping (mtu - HEADER_size) ts (gs @ [cur])" .
  let ?f = "chunk_frame destination source message_type mid relay (gs @ [cur])"
  have pl: "chunks @ [current @ END_TLV] = map (chunk_payload (gs @ [cur])) [0..<Suc (length gs)]"
    using gs chunks_chunk_payload by simp
  have all2: "list_all2 (\<lambda>i frame. fragment_encode (?f i) = Inr frame) [0..<Suc (length gs)] frames"
    using enc [unfolded pl enumerate_map_upt mapR_map] gs(1)
    by (simp add: chunk_frame_def mapR_eq_Inr del: upt_Suc)
  then have nth: "length frames = Suc (length gs)"
    "\<forall>i < Suc (length gs). fragment_encode (?f i) = Inr (frames ! i)"
    by (auto simp: list_all2_conv_all_nth simp del: upt_Suc)
  have ok: "fragment_ok (?f i) \<and> frames ! i = put_frame (?f i)" if "i < Suc (length gs)" for i
    using nth(2) that by (auto simp: fragment_encode_eq split: if_splits)
  have "frames = map (\<lambda>i. put_frame (?f i)) [0..<length (gs @ [cur])]"
    by (rule nth_equalityI) (use nth(1) ok in \<open>auto simp del: upt_Suc\<close>)
  with gs(3) ok len g gs(1) show thesis
    by (intro that [of "gs @ [cur]"]) auto
qed

text \<open>Each frame of a message is read back as the fragment it was made from, and its payload as
  its group of TLVs.\<close>

lemma parse_chunk_payload:
  assumes "grouping budget ts gs" "length ts \<le> MAX_TLVS" "i < length gs"
  shows "parse_tlvs (chunk_payload gs i) (i = length gs - 1) = Inr (gs ! i)"
proof -
  have ok: "list_all tlv_ok (gs ! i)" and le: "length (gs ! i) \<le> length ts"
    using assms length_nth_le_concat [of i gs] by (auto simp: grouping_def list_all_iff)
  show ?thesis
  proof (cases "i = length gs - 1")
    case True
    then show ?thesis
      using parse_tlvs_final [of "gs ! i" "[]"] ok le assms(2) by (simp add: chunk_payload_def put_tlvs_def)
  next
    case False
    then have "gs ! i \<in> set (butlast gs)"
      using assms(3) by (metis One_nat_def Suc_pred butlast_conv_take in_set_conv_nth length_butlast
          less_Suc_eq list.size(3) not_less_zero nth_butlast length_greater_0_conv)
    then have "gs ! i \<noteq> []" using assms(1) by (auto simp: grouping_def)
    then show ?thesis
      using False parse_tlvs_partial [of "gs ! i"] ok le assms(2) by (simp add: chunk_payload_def put_tlvs_def)
  qed
qed

section \<open>Message identifiers and duplicates\<close>

record mid_sequence =
  previous :: int

definition MidSequence :: "int \<Rightarrow> mid_sequence result" where
  "MidSequence p = bindR (uint_chk p 16) (\<lambda>p. Inr \<lparr>previous = p\<rparr>)"

definition next_mid :: "mid_sequence \<Rightarrow> int \<times> mid_sequence" where
  "next_mid s = (let p = (previous s + 1) AND 0xFFFF in (p, s\<lparr>previous := p\<rparr>))"

record duplicate_window =
  dw_timeout :: real
  dw_capacity :: nat
  dw_entries :: "((bytes \<times> int) \<times> real) list"

definition DuplicateWindow :: "real \<Rightarrow> nat \<Rightarrow> duplicate_window result" where
  "DuplicateWindow timeout capacity =
     (if \<not> (0 < timeout \<and> timeout \<le> 3600) \<or> \<not> (1 \<le> capacity \<and> capacity \<le> 65536) then invalid
      else Inr \<lparr>dw_timeout = timeout, dw_capacity = capacity, dw_entries = []\<rparr>)"

definition seen :: "duplicate_window \<Rightarrow> real \<Rightarrow> bytes \<Rightarrow> int \<Rightarrow> duplicate_window \<times> bool result" where
  "seen w now origin_al mid =
     (let w = w\<lparr>dw_entries := filter (\<lambda>(_, end). end > now) (dw_entries w)\<rparr>
      in case bindR (mac origin_al) (\<lambda>a. bindR (uint_chk mid 16) (\<lambda>m. Inr (a, m))) of
           Inl e \<Rightarrow> (w, Inl e)
         | Inr key \<Rightarrow>
             if map_of (dw_entries w) key \<noteq> None then (w, Inr True)
             else if length (dw_entries w) \<ge> dw_capacity w then (w, Inl (EmosaError BUSY))
             else (w\<lparr>dw_entries := AList.update key (now + dw_timeout w) (dw_entries w)\<rparr>, Inr False))"

lemma next_mid_eq: "next_mid s = ((previous s + 1) mod 65536, s\<lparr>previous := (previous s + 1) mod 65536\<rparr>)"
  by (simp add: next_mid_def Let_def and_FFFF)

text \<open>The identifiers of the next \<open>n\<close> messages.\<close>

fun mids :: "nat \<Rightarrow> mid_sequence \<Rightarrow> int list" where
  "mids 0 s = []"
| "mids (Suc n) s = (let (m, s') = next_mid s in m # mids n s')"

lemma mids_eq: "mids n s = map (\<lambda>i. (previous s + 1 + int i) mod 65536) [0..<n]"
proof (induction n arbitrary: s)
  case (Suc n)
  have shift: "(p mod 65536 + 1 + int i) mod 65536 = (p + 1 + int i) mod 65536" for p i
    by (metis add.assoc mod_add_left_eq)
  have upd: "previous (s\<lparr>previous := m\<rparr>) = m" for m
    by simp
  have "mids (Suc n) s = (previous s + 1) mod 65536 # mids n (s\<lparr>previous := (previous s + 1) mod 65536\<rparr>)"
    by (simp add: next_mid_eq Let_def)
  also have "\<dots> = (previous s + 1) mod 65536 #
      map (\<lambda>i. (previous s + 1 + int (Suc i)) mod 65536) [0..<n]"
    unfolding Suc by (simp only: upd shift) (simp add: algebra_simps)
  also have "\<dots> = map (\<lambda>i. (previous s + 1 + int i) mod 65536) [0..<Suc n]"
    by (simp add: map_upt_Suc del: upt_Suc)
  finally show ?case .
qed simp

lemma distinct_mids:
  assumes "n \<le> 65536"
  shows "distinct (mids n s)"
proof -
  have "i = j" if ij: "i < n" "j < n"
    "(previous s + 1 + int i) mod 65536 = (previous s + 1 + int j) mod 65536" for i j :: nat
  proof -
    from ij(3) have "(65536 :: int) dvd int i - int j"
      by (metis add_diff_cancel_left mod_eq_dvd_iff)
    moreover have "\<bar>int i - int j\<bar> < 65536" using ij(1,2) assms by linarith
    ultimately have "int i - int j = 0" by (metis dvd_imp_le_int not_le abs_numeral)
    then show ?thesis by simp
  qed
  then show ?thesis unfolding mids_eq by (auto simp: distinct_map inj_on_def)
qed

text \<open>The duplicate window: what it keeps.\<close>

definition window_ok :: "duplicate_window \<Rightarrow> bool" where
  "window_ok w \<longleftrightarrow> distinct (map fst (dw_entries w)) \<and> length (dw_entries w) \<le> dw_capacity w"

lemma seen_window_ok:
  assumes "window_ok w" "seen w now a m = (w', r)"
  shows "window_ok w'"
proof -
  let ?es = "filter (\<lambda>(_, end). end > now) (dw_entries w)"
  have d: "distinct (map fst ?es)" and l: "length ?es \<le> dw_capacity w"
    using assms(1) by (auto simp: window_ok_def distinct_map_fst_filter intro: order_trans [OF length_filter_le])
  have "length (AList.update k v ?es) \<le> dw_capacity w" if "\<not> dw_capacity w \<le> length ?es" for k v
    using length_update_le [of k v ?es] that by linarith
  then show ?thesis
    using assms(2) d l
    by (auto simp: seen_def window_ok_def Let_def AList.distinct_update
        split: sum.splits if_splits)
qed

text \<open>An entry stays until its end: no call made before then removes or changes it.\<close>

lemma seen_keeps:
  assumes "window_ok w" "map_of (dw_entries w) key = Some e" "now < e" "seen w now a m = (w', r)"
  shows "map_of (dw_entries w') key = Some e"
proof -
  have "map_of (filter (\<lambda>(_, end). end > now) (dw_entries w)) key = Some e"
    using assms(1-3) by (simp add: window_ok_def map_of_filter_val)
  then show ?thesis
    using assms(4) by (auto simp: seen_def Let_def AList.update_conv' split: sum.splits if_splits)
qed

lemma seen_hit:
  assumes "window_ok w" "map_of (dw_entries w) (a, m) = Some e" "now < e" "length a = 6" "0 \<le> m" "m < 65536"
  shows "snd (seen w now a m) = Inr True"
  using assms map_of_filter_val [of "dw_entries w" "\<lambda>end. end > now" "(a, m)"]
  by (simp add: seen_def Let_def window_ok_def mac_def uint_chk_def)

lemma seen_miss:
  assumes "seen w now a m = (w', Inr False)"
  shows "map_of (dw_entries w') (a, m) = Some (now + dw_timeout w)" "length a = 6" "0 \<le> m" "m < 65536"
    "dw_timeout w' = dw_timeout w"
  using assms by (auto simp: seen_def Let_def AList.update_conv' result_simps split: sum.splits if_splits)

text \<open>A run of calls, each at its own clock reading.\<close>

fun seen_run :: "duplicate_window \<Rightarrow> (real \<times> bytes \<times> int) list \<Rightarrow> duplicate_window" where
  "seen_run w [] = w"
| "seen_run w ((now, a, m) # calls) = seen_run (fst (seen w now a m)) calls"

lemma seen_run_window_ok: "window_ok w \<Longrightarrow> window_ok (seen_run w calls)"
  by (induction w calls rule: seen_run.induct) (auto intro: seen_window_ok surjective_pairing)

lemma seen_run_keeps:
  assumes "window_ok w" "map_of (dw_entries w) key = Some e" "\<forall>(now, _) \<in> set calls. now < e"
  shows "map_of (dw_entries (seen_run w calls)) key = Some e"
  using assms
  by (induction w calls rule: seen_run.induct)
     (auto intro: seen_window_ok surjective_pairing seen_keeps)

section \<open>Properties\<close>

text \<open>Frames are a value codec: whatever the structural encoder accepts is decoded to itself.\<close>

interpretation frame_codec: value_codec fragment_encode decode_frame "\<lambda>f. f"
  by unfold_locales (auto simp: fragment_encode_eq decode_put_frame split: if_splits)

text \<open>Reading back a message body: the TLVs that \<open>Tlv.encode\<close> accepts, written one after the other
  and closed by the end marker, are returned by \<open>parse_tlvs\<close> exactly, and whatever follows the end
  marker (Ethernet padding) changes nothing.\<close>

theorem tlv_stream_roundtrip:
  assumes "mapR tlv_encode ts = Inr es" "length ts \<le> MAX_TLVS"
  shows "parse_tlvs (concat es @ END_TLV @ padding) True = Inr ts"
proof -
  have "list_all tlv_ok ts \<and> es = map put_tlv ts"
    using assms(1) unfolding mapR_eq_Inr
    by (induction rule: list_all2_induct) (auto simp: tlv_encode_eq split: if_splits)
  with assms(2) show ?thesis by (simp add: parse_tlvs_final)
qed

theorem tlv_stream_roundtrip_witness:
  "mapR tlv_encode [Tlv 1 [7, 8], Tlv 3 []] = Inr [[1, 0, 2, 7, 8], [3, 0, 0]] \<and>
   parse_tlvs (concat [[1, 0, 2, 7, 8], [3, 0, 0]] @ END_TLV @ [9]) True = Inr [Tlv 1 [7, 8], Tlv 3 []]"
proof -
  have *: "mapR tlv_encode [Tlv 1 [7, 8], Tlv 3 []] = Inr [[1, 0, 2, 7, 8], [3, 0, 0]]"
    by (simp add: tlv_encode_def uint_chk_def MAX_VALUE_def u16_explicit)
  moreover have "length [Tlv 1 [7, 8], Tlv 3 []] \<le> MAX_TLVS" by (simp add: MAX_TLVS_def)
  ultimately show ?thesis using tlv_stream_roundtrip [OF *, of "[9]"] by simp
qed

text \<open>A frame that \<open>Fragment.encode\<close> produces is decoded by \<open>decode_frame\<close> to the same fragment, so
  two different fragments never have the same octets on the wire.\<close>

theorem frame_roundtrip:
  assumes "fragment_encode f = Inr frame"
  shows "decode_frame frame = Inr f \<and> (\<forall>g. fragment_encode g = Inr frame \<longrightarrow> g = f)"
  using frame_codec.decode_encode [OF assms] frame_codec.encode_inj [OF assms] by blast

definition example_fragment :: fragment where
  "example_fragment = \<lparr>fr_destination = [1, 2, 3, 4, 5, 6], fr_source = [2, 0, 0, 0, 0, 1],
     fr_message_type = 0x8004, fr_mid = 7, fr_fid = 0, fr_last = True, fr_relay = False,
     fr_payload = [0, 0, 0], fr_version = 0\<rparr>"

theorem frame_roundtrip_witness:
  "fragment_encode example_fragment =
     Inr [1, 2, 3, 4, 5, 6, 2, 0, 0, 0, 0, 1, 0x89, 0x3A, 0, 0, 0x80, 4, 0, 7, 0, 0x80, 0, 0, 0] \<and>
   decode_frame [1, 2, 3, 4, 5, 6, 2, 0, 0, 0, 0, 1, 0x89, 0x3A, 0, 0, 0x80, 4, 0, 7, 0, 0x80, 0, 0, 0] =
     Inr example_fragment"
proof -
  have *: "fragment_encode example_fragment =
     Inr [1, 2, 3, 4, 5, 6, 2, 0, 0, 0, 0, 1, 0x89, 0x3A, 0, 0, 0x80, 4, 0, 7, 0, 0x80, 0, 0, 0]"
    by (simp add: example_fragment_def fragment_encode_eq fragment_ok_def put_frame_def u16_explicit cmdu_consts)
  with frame_roundtrip [OF *] show ?thesis by simp
qed

text \<open>C16. Fragmentation at TLV boundaries: when \<open>fragment_message\<close> accepts a message it emits between
  one and 64 frames, none longer than the MTU allows, which decode to fragments numbered in order of
  the same message, the last one and only it flagged last; and the TLVs read from their payloads, in
  order, are exactly the TLVs of the message.\<close>

theorem fragment_message_sound:
  assumes "fragment_message d s ty m ts relay mtu = Inr frames"
  shows "\<exists>fs gs. frames \<noteq> [] \<and> length frames \<le> 64 \<and> (\<forall>frame \<in> set frames. length frame \<le> 14 + mtu) \<and>
    map decode_frame frames = map Inr fs \<and> concat gs = ts \<and> length gs = length frames \<and>
    (\<forall>i < length frames.
       fr_destination (fs ! i) = d \<and> fr_source (fs ! i) = s \<and> fr_message_type (fs ! i) = ty \<and>
       fr_mid (fs ! i) = m \<and> fr_relay (fs ! i) = relay \<and> fr_version (fs ! i) = 0 \<and>
       fr_fid (fs ! i) = int i \<and> fr_last (fs ! i) = (Suc i = length frames) \<and>
       parse_tlvs (fr_payload (fs ! i)) (fr_last (fs ! i)) = Inr (gs ! i))"
proof -
  obtain gs where gs: "grouping (mtu - HEADER_size) ts gs" "length gs \<le> 64" "length ts \<le> MAX_TLVS" "14 \<le> mtu"
    "\<forall>i < length gs. fragment_ok (chunk_frame d s ty m relay gs i)"
    "frames = map (\<lambda>i. put_frame (chunk_frame d s ty m relay gs i)) [0..<length gs]"
    using fragment_message_frames [OF assms] by metis
  let ?f = "chunk_frame d s ty m relay gs"
  have ne: "gs \<noteq> []" and ts: "concat gs = ts" using gs(1) by (auto simp: grouping_def)
  have "length (chunk_payload gs i) \<le> mtu - 8" if "i < length gs" for i
  proof -
    have "length (put_tlvs (gs ! i)) + 3 \<le> mtu - 8"
      using gs(1) that by (simp add: grouping_def HEADER_size_def)
    then show ?thesis by (auto simp: chunk_payload_def)
  qed
  then have "length (put_frame (?f i)) \<le> 14 + mtu" if "i < length gs" for i
    using gs(4,5) that by (simp add: length_put_frame) (fastforce simp: chunk_frame_def)
  moreover have "map decode_frame frames = map Inr (map ?f [0..<length gs])"
    using gs(5) by (auto simp: gs(6) decode_put_frame)
  moreover have "(i = length gs - 1) = (Suc i = length gs)" if "i < length gs" for i
    using that by auto
  ultimately show ?thesis
    using gs(2,3,6) ne ts parse_chunk_payload [OF gs(1,3)]
    by (intro exI [of _ "map ?f [0..<length gs]"] exI [of _ gs]) (auto simp: chunk_frame_def)
qed

theorem fragment_message_sound_witness:
  "\<exists>frames. fragment_message [1, 2, 3, 4, 5, 6] [2, 0, 0, 0, 0, 1] 2 5 [Tlv 1 [], Tlv 3 []] False 14 = Inr frames \<and>
     length frames = 2 \<and> (\<forall>frame \<in> set frames. length frame \<le> 28)"
proof -
  have "fragment_message [1, 2, 3, 4, 5, 6] [2, 0, 0, 0, 0, 1] 2 5 [Tlv 1 [], Tlv 3 []] False 14 =
      Inr [[1, 2, 3, 4, 5, 6, 2, 0, 0, 0, 0, 1, 0x89, 0x3A, 0, 0, 0, 2, 0, 5, 0, 0, 1, 0, 0],
           [1, 2, 3, 4, 5, 6, 2, 0, 0, 0, 0, 1, 0x89, 0x3A, 0, 0, 0, 2, 0, 5, 1, 0x80, 3, 0, 0, 0, 0, 0]]"
    by (simp add: fragment_message_def frag_step_def tlv_encode_def uint_chk_def u16_explicit cmdu_consts
        fragment_encode_eq fragment_ok_def put_frame_def END_TLV_def)
  from fragment_message_sound [OF this] this show ?thesis by auto
qed

text \<open>Message identifiers: starting from any previous identifier, the next up to 65536 calls of
  \<open>MidSequence.next\<close> give pairwise different 16-bit values, each one more than the one before modulo
  65536.\<close>

theorem next_mid_distinct:
  assumes "MidSequence p = Inr s" "n \<le> 65536"
  shows "distinct (mids n s) \<and> length (mids n s) = n \<and> (\<forall>m \<in> set (mids n s). 0 \<le> m \<and> m < 65536) \<and>
    (\<forall>i < n. mids n s ! i = (p + 1 + int i) mod 65536)"
  using assms distinct_mids [of n s] by (auto simp: mids_eq MidSequence_def result_simps)

theorem next_mid_distinct_witness:
  "MidSequence 65535 = Inr \<lparr>previous = 65535\<rparr> \<and> distinct (mids 3 \<lparr>previous = 65535\<rparr>) \<and>
   mids 3 \<lparr>previous = 65535\<rparr> ! 0 = 0"
proof -
  have *: "MidSequence 65535 = Inr \<lparr>previous = 65535\<rparr>"
    by (simp add: MidSequence_def uint_chk_def)
  moreover have "(3 :: nat) \<le> 65536" by simp
  ultimately show ?thesis
    using next_mid_distinct [OF *, of 3] by (auto dest: spec [of _ 0])
qed

text \<open>Duplicate suppression: once a call of \<open>seen\<close> at time \<open>now\<close> has reported a message as new, any
  calls for any messages made before \<open>now + timeout\<close> leave it remembered, so the same message is then
  reported as a duplicate; and the window never holds more than its capacity.\<close>

theorem seen_remembers:
  assumes "window_ok w" "seen w now a m = (w', Inr False)"
    and "\<forall>(t, _) \<in> set calls. t < now + dw_timeout w" "later < now + dw_timeout w"
  shows "snd (seen (seen_run w' calls) later a m) = Inr True \<and>
    length (dw_entries (seen_run w' calls)) \<le> dw_capacity (seen_run w' calls)"
proof -
  note miss = seen_miss [OF assms(2)]
  have w': "window_ok w'" using assms(1,2) by (rule seen_window_ok)
  have run: "window_ok (seen_run w' calls)" using w' by (rule seen_run_window_ok)
  have "map_of (dw_entries (seen_run w' calls)) (a, m) = Some (now + dw_timeout w)"
    using w' miss(1) assms(3) by (rule seen_run_keeps)
  with run assms(4) miss(2-4) have "snd (seen (seen_run w' calls) later a m) = Inr True"
    by (intro seen_hit)
  with run show ?thesis by (simp add: window_ok_def)
qed

theorem seen_remembers_witness:
  "\<exists>w'. seen \<lparr>dw_timeout = 60, dw_capacity = 2, dw_entries = []\<rparr> 10 [2, 0, 0, 0, 0, 1] 7 = (w', Inr False) \<and>
     snd (seen (seen_run w' [(20, [2, 0, 0, 0, 0, 3], 8)]) 69 [2, 0, 0, 0, 0, 1] 7) = Inr True"
proof -
  let ?w = "\<lparr>dw_timeout = 60, dw_capacity = 2, dw_entries = []\<rparr> :: duplicate_window"
  have *: "seen ?w 10 [2, 0, 0, 0, 0, 1] 7 = (?w\<lparr>dw_entries := [(([2, 0, 0, 0, 0, 1], 7), 70)]\<rparr>, Inr False)"
    by (simp add: seen_def mac_def uint_chk_def)
  have "window_ok ?w" by (simp add: window_ok_def)
  from seen_remembers [OF this *, of "[(20, [2, 0, 0, 0, 0, 3], 8)]" 69] * show ?thesis by auto
qed

end
