(* ===== verification/Reassembly.thy ===== *)
theory Reassembly
  imports Cmdu
begin

text \<open>
  The class \<open>Reassembler\<close> of \<open>emosa/wire/cmdu.py\<close>: bounded contexts with a fixed deadline, poisoned by
  the first conflicting fragment. The lemmas show that its budgets hold in every reachable state,
  that it never runs into a missing fragment, that a poisoned context delivers nothing, and that the
  fragments of a message are reassembled to that message in whatever order they arrive.
\<close>

section \<open>Model\<close>

record message =
  msg_destination :: bytes
  msg_source :: bytes
  msg_type :: int
  msg_mid :: int
  msg_relay :: bool
  msg_tlvs :: "tlv list"
  msg_fragments :: int

type_synonym part = "bool \<times> tlv list"

record assembly =
  started :: real
  asm_relay :: bool
  parts :: "(int \<times> part) list"
  asm_last :: "int option"
  asm_size :: int
  poisoned :: bool

definition Assembly :: "real \<Rightarrow> bool \<Rightarrow> assembly" where
  "Assembly t relay =
     \<lparr>started = t, asm_relay = relay, parts = [], asm_last = None, asm_size = 0, poisoned = False\<rparr>"

type_synonym context_key = "string \<times> bytes \<times> bytes \<times> int \<times> int"

record reassembler =
  timeout :: real
  max_contexts :: nat
  max_bytes :: int
  max_message_bytes :: int
  max_fragments :: int
  contexts :: "(context_key \<times> assembly) list"
  buffered :: int

definition Reassembler :: "real \<Rightarrow> nat \<Rightarrow> int \<Rightarrow> int \<Rightarrow> int \<Rightarrow> reassembler result" where
  "Reassembler t contexts_budget bytes_budget message_budget fragments_budget =
     (if \<not> (0 < t \<and> t \<le> 60) \<or> \<not> (1 \<le> contexts_budget \<and> contexts_budget \<le> 1024) then invalid
      else if \<not> (1 \<le> fragments_budget \<and> fragments_budget \<le> 256)
           \<or> \<not> (1 \<le> message_budget \<and> message_budget \<le> bytes_budget \<and> bytes_budget \<le> 16777216) then invalid
      else Inr \<lparr>timeout = t, max_contexts = contexts_budget, max_bytes = bytes_budget,
                max_message_bytes = message_budget, max_fragments = fragments_budget,
                contexts = [], buffered = 0\<rparr>)"

definition is_expired :: "reassembler \<Rightarrow> real \<Rightarrow> context_key \<times> assembly \<Rightarrow> bool" where
  "is_expired r now c \<longleftrightarrow> now - started (snd c) \<ge> timeout r"

definition expire :: "reassembler \<Rightarrow> real \<Rightarrow> reassembler \<times> nat" where
  "expire r now =
     (let expired = filter (is_expired r now) (contexts r)
      in (r\<lparr>contexts := filter (\<lambda>c. \<not> is_expired r now c) (contexts r),
            buffered := buffered r - (\<Sum>c \<leftarrow> expired. asm_size (snd c))\<rparr>,
          length expired))"

definition poison :: "reassembler \<Rightarrow> context_key \<Rightarrow> assembly \<Rightarrow> reassembler \<times> 'a result" where
  "poison r key st =
     (r\<lparr>contexts := AList.update key (st\<lparr>parts := [], asm_size := 0, poisoned := True\<rparr>) (contexts r),
        buffered := buffered r - asm_size st\<rparr>,
      invalid)"

definition tlvs_size :: "tlv list \<Rightarrow> int" where
  "tlvs_size ts = (\<Sum>t \<leftarrow> ts. int (length (tlv_value t)) + 3)"

definition asm_complete :: "assembly \<Rightarrow> bool" where
  "asm_complete st \<longleftrightarrow> (case asm_last st of None \<Rightarrow> False | Some l \<Rightarrow> int (length (parts st)) = l + 1)"

text \<open>\<open>state.parts[fid][1]\<close>, with the exception for a missing key.\<close>

definition part_tlvs :: "assembly \<Rightarrow> int \<Rightarrow> tlv list result" where
  "part_tlvs st fid = (case map_of (parts st) fid of None \<Rightarrow> Inl KeyError | Some p \<Rightarrow> Inr (snd p))"

text \<open>The end of \<open>feed\<close>: the message once every fragment up to the last is there.\<close>

definition deliver :: "reassembler \<Rightarrow> context_key \<Rightarrow> assembly \<Rightarrow> fragment \<Rightarrow> reassembler \<times> message option result" where
  "deliver r key st part =
     (if \<not> asm_complete st then (r, Inr None)
      else case mapR (part_tlvs st) (map int [0..<nat (the (asm_last st) + 1)]) of
             Inl e \<Rightarrow> (r, Inl e)
           | Inr values \<Rightarrow>
               (r\<lparr>contexts := AList.delete key (contexts r), buffered := buffered r - asm_size st\<rparr>,
                Inr (Some \<lparr>msg_destination = fr_destination part, msg_source = fr_source part,
                           msg_type = fr_message_type part, msg_mid = fr_mid part,
                           msg_relay = fr_relay part, msg_tlvs = concat values,
                           msg_fragments = the (asm_last st) + 1\<rparr>)))"

text \<open>A fragment whose TLVs are read and whose index is new, against the rest of its context.\<close>

definition store_part ::
  "reassembler \<Rightarrow> context_key \<Rightarrow> assembly \<Rightarrow> fragment \<Rightarrow> tlv list \<Rightarrow> reassembler \<times> message option result" where
  "store_part r key st part tlvs =
     (let fid = fr_fid part; size = tlvs_size tlvs in
      if (case asm_last st of None \<Rightarrow> False | Some l \<Rightarrow> fid > l \<or> (fr_last part \<and> fid \<noteq> l))
      then poison r key st
      else if fr_last part \<and> (\<exists>f \<in> set (map fst (parts st)). f > fid) then poison r key st
      else if asm_size st + size > max_message_bytes r \<or> buffered r + size > max_bytes r
      then poison r key st
      else if (\<Sum>p \<leftarrow> parts st. length (snd (snd p))) + length tlvs > MAX_TLVS then poison r key st
      else
        let st' = st\<lparr>parts := AList.update fid (fr_last part, tlvs) (parts st),
                     asm_size := asm_size st + size,
                     asm_last := (if fr_last part then Some fid else asm_last st)\<rparr>;
            r' = r\<lparr>contexts := AList.update key st' (contexts r), buffered := buffered r + size\<rparr>
        in deliver r' key st' part)"

definition feed_part ::
  "reassembler \<Rightarrow> context_key \<Rightarrow> assembly \<Rightarrow> fragment \<Rightarrow> reassembler \<times> message option result" where
  "feed_part r key st part =
     (if poisoned st then (r, invalid)
      else if fr_fid part \<ge> max_fragments r \<or> fr_relay part \<noteq> asm_relay st then poison r key st
      else case parse_tlvs (fr_payload part) (fr_last part) of
             Inl _ \<Rightarrow> poison r key st
           | Inr tlvs \<Rightarrow>
               (case map_of (parts st) (fr_fid part) of
                  Some normalized \<Rightarrow>
                    if normalized \<noteq> (fr_last part, tlvs) then poison r key st else (r, Inr None)
                | None \<Rightarrow> store_part r key st part tlvs))"

text \<open>\<open>feed\<close>: the clock is read once to expire contexts and once more when a context is opened.\<close>

definition feed ::
  "reassembler \<Rightarrow> real \<Rightarrow> real \<Rightarrow> bytes \<Rightarrow> string \<Rightarrow> reassembler \<times> message option result" where
  "feed r now opened frame ingress =
     (let r = fst (expire r now) in
      case decode_frame frame of
        Inl e \<Rightarrow> (r, Inl e)
      | Inr part \<Rightarrow>
          if fr_version part \<noteq> 0 then (r, unsupported)
          else
            let key = (ingress, fr_source part, fr_destination part, fr_message_type part, fr_mid part) in
            (case map_of (contexts r) key of
               Some st \<Rightarrow> feed_part r key st part
             | None \<Rightarrow>
                 if length (contexts r) \<ge> max_contexts r then (r, Inl (EmosaError BUSY))
                 else
                   let st = Assembly opened (fr_relay part)
                   in feed_part (r\<lparr>contexts := AList.update key st (contexts r)\<rparr>) key st part))"

section \<open>Budgets\<close>

definition parts_size :: "assembly \<Rightarrow> int" where
  "parts_size st = (\<Sum>p \<leftarrow> parts st. tlvs_size (snd (snd p)))"

text \<open>What holds of one context, whether poisoned or not.\<close>

definition assembly_wf :: "reassembler \<Rightarrow> assembly \<Rightarrow> bool" where
  "assembly_wf r st \<longleftrightarrow>
     distinct (map fst (parts st)) \<and> (\<forall>f \<in> set (map fst (parts st)). 0 \<le> f \<and> f < max_fragments r) \<and>
     asm_size st = parts_size st \<and> asm_size st \<le> max_message_bytes r \<and>
     (\<Sum>p \<leftarrow> parts st. length (snd (snd p))) \<le> MAX_TLVS \<and>
     (poisoned st \<longrightarrow> parts st = []) \<and>
     (\<not> poisoned st \<longrightarrow> (case asm_last st of None \<Rightarrow> True
        | Some l \<Rightarrow> l \<in> set (map fst (parts st)) \<and> (\<forall>f \<in> set (map fst (parts st)). f \<le> l)))"

text \<open>Between calls no context is complete: it would have been delivered.\<close>

definition assembly_ok :: "reassembler \<Rightarrow> assembly \<Rightarrow> bool" where
  "assembly_ok r st \<longleftrightarrow> assembly_wf r st \<and> (\<not> poisoned st \<longrightarrow> \<not> asm_complete st)"

definition reassembler_ok :: "reassembler \<Rightarrow> bool" where
  "reassembler_ok r \<longleftrightarrow>
     0 < timeout r \<and> 1 \<le> max_contexts r \<and> 1 \<le> max_fragments r \<and> max_fragments r \<le> 256 \<and>
     1 \<le> max_message_bytes r \<and> max_message_bytes r \<le> max_bytes r \<and>
     distinct (map fst (contexts r)) \<and> length (contexts r) \<le> max_contexts r \<and>
     (\<forall>st \<in> set (map snd (contexts r)). assembly_ok r st) \<and>
     buffered r = (\<Sum>c \<leftarrow> contexts r. asm_size (snd c)) \<and> buffered r \<le> max_bytes r"

lemma tlvs_size_nonneg [simp]: "0 \<le> tlvs_size ts"
  by (auto simp: tlvs_size_def intro!: sum_list_nonneg)

lemma parts_size_nonneg [simp]: "0 \<le> parts_size st"
  by (auto simp: parts_size_def intro!: sum_list_nonneg)

lemma asm_size_nonneg: "assembly_ok r st \<Longrightarrow> 0 \<le> asm_size st"
  by (simp add: assembly_ok_def assembly_wf_def)

text \<open>Replacing or removing the value of a key in a dictionary, and sums over its values.\<close>

lemma sum_update_present:
  fixes f :: "'v \<Rightarrow> int"
  shows "distinct (map fst al) \<Longrightarrow> map_of al k = Some v \<Longrightarrow>
    (\<Sum>c \<leftarrow> AList.update k v' al. f (snd c)) = (\<Sum>c \<leftarrow> al. f (snd c)) - f v + f v'"
  by (induction al) (auto split: if_splits)

lemma sum_delete_present:
  fixes f :: "'v \<Rightarrow> int"
  shows "distinct (map fst al) \<Longrightarrow> map_of al k = Some v \<Longrightarrow>
    (\<Sum>c \<leftarrow> AList.delete k al. f (snd c)) = (\<Sum>c \<leftarrow> al. f (snd c)) - f v"
proof (induction al)
  case (Cons c al)
  show ?case
  proof (cases "fst c = k")
    case True
    then have "AList.delete k (c # al) = al"
      using Cons.prems(1) by (cases c) auto
    then show ?thesis using True Cons.prems by (cases c) auto
  next
    case False
    then show ?thesis using Cons by (cases c) (auto simp: AList.delete_eq)
  qed
qed simp

lemma length_update_present: "map_of al k \<noteq> None \<Longrightarrow> length (AList.update k v al) = length al"
  by (induction al) auto

lemma values_update: "set (map snd (AList.update k v al)) \<subseteq> insert v (set (map snd al))"
  by (induction al) auto

lemma values_delete: "set (map snd (AList.delete k al)) \<subseteq> set (map snd al)"
  by (auto simp: AList.delete_eq)

lemma length_delete_le: "length (AList.delete k al) \<le> length al"
  by (simp add: AList.delete_eq)

lemma assembly_ok_frame [simp]:
  "assembly_ok (r\<lparr>contexts := cs\<rparr>) st = assembly_ok r st"
  "assembly_ok (r\<lparr>buffered := b\<rparr>) st = assembly_ok r st"
  by (simp_all add: assembly_ok_def assembly_wf_def)

lemma context_update_ok:
  assumes "reassembler_ok r" "map_of (contexts r) key = Some st" "assembly_ok r st'"
    and "b = buffered r - asm_size st + asm_size st'" "b \<le> max_bytes r"
  shows "reassembler_ok (r\<lparr>contexts := AList.update key st' (contexts r), buffered := b\<rparr>)"
proof -
  have "\<forall>s \<in> set (map snd (AList.update key st' (contexts r))). assembly_ok r s"
    using assms(1,3) values_update [of key st' "contexts r"] unfolding reassembler_ok_def by blast
  then show ?thesis
    using assms unfolding reassembler_ok_def
    by (simp add: AList.distinct_update length_update_present sum_update_present del: set_map)
qed

lemma map_of_assembly_ok:
  "reassembler_ok r \<Longrightarrow> map_of (contexts r) key = Some st \<Longrightarrow> assembly_ok r st"
  by (auto simp: reassembler_ok_def dest!: map_of_SomeD)

lemma context_delete_ok:
  assumes "reassembler_ok r" "map_of (contexts r) key = Some st"
  shows "reassembler_ok (r\<lparr>contexts := AList.delete key (contexts r), buffered := buffered r - asm_size st\<rparr>)"
proof -
  have "0 \<le> asm_size st"
    using map_of_assembly_ok [OF assms] by (rule asm_size_nonneg)
  moreover have "\<forall>s \<in> set (map snd (AList.delete key (contexts r))). assembly_ok r s"
    using assms(1) values_delete [of key "contexts r"] unfolding reassembler_ok_def by blast
  ultimately show ?thesis
    using assms length_delete_le [of key "contexts r"] unfolding reassembler_ok_def
    by (simp add: AList.distinct_delete sum_delete_present del: set_map)
qed

lemma poison_ok:
  assumes "reassembler_ok r" "map_of (contexts r) key = Some st"
  shows "reassembler_ok (fst (poison r key st))"
proof -
  let ?st = "st\<lparr>parts := [], asm_size := 0, poisoned := True\<rparr>"
  have ok: "assembly_ok r st" using assms by (rule map_of_assembly_ok)
  have "assembly_ok r ?st"
    using assms(1) by (auto simp: assembly_ok_def assembly_wf_def parts_size_def reassembler_ok_def)
  then have "reassembler_ok (r\<lparr>contexts := AList.update key ?st (contexts r), buffered := buffered r - asm_size st\<rparr>)"
    using assms asm_size_nonneg [OF ok] by (intro context_update_ok) (auto simp: reassembler_ok_def)
  then show ?thesis by (simp add: poison_def)
qed

lemma expire_ok: "reassembler_ok r \<Longrightarrow> reassembler_ok (fst (expire r now))"
proof -
  assume ok: "reassembler_ok r"
  have "(\<Sum>c \<leftarrow> cs. asm_size (snd c)) =
      (\<Sum>c \<leftarrow> filter (is_expired r now) cs. asm_size (snd c)) +
      (\<Sum>c \<leftarrow> filter (\<lambda>c. \<not> is_expired r now c) cs. asm_size (snd c))" for cs :: "(context_key \<times> assembly) list"
    by (induction cs) auto
  note split = this [of "contexts r"]
  have "0 \<le> (\<Sum>c \<leftarrow> filter (is_expired r now) (contexts r). asm_size (snd c))"
    using ok by (intro sum_list_nonneg) (auto simp: reassembler_ok_def intro: asm_size_nonneg)
  then show ?thesis
    using ok split
    by (auto simp: reassembler_ok_def expire_def Let_def distinct_map_fst_filter
        intro: order_trans [OF length_filter_le])
qed

text \<open>A complete context has every index up to its last one: as many distinct indexes as there are.\<close>

lemma distinct_upto_all:
  assumes "distinct xs" "\<forall>f \<in> set xs. 0 \<le> f \<and> f \<le> (l :: int)" "int (length xs) = l + 1"
  shows "set xs = {0..l}"
proof (rule card_subset_eq)
  show "card (set xs) = card {0..l}"
    using assms by (simp add: distinct_card)
qed (use assms in auto)

lemma complete_parts:
  assumes "assembly_wf r st" "\<not> poisoned st" "asm_complete st"
  shows "mapR (part_tlvs st) (map int [0..<nat (the (asm_last st) + 1)]) =
     Inr (map (\<lambda>f. snd (the (map_of (parts st) f))) (map int [0..<nat (the (asm_last st) + 1)]))"
proof -
  obtain l where l: "asm_last st = Some l" "int (length (parts st)) = l + 1"
    using assms(3) by (auto simp: asm_complete_def split: option.splits)
  have "set (map fst (parts st)) = {0..l}"
    using assms l by (intro distinct_upto_all) (auto simp: assembly_wf_def)
  then have "map_of (parts st) (int i) \<noteq> None" if "i < nat (l + 1)" for i
    using that by (auto simp: map_of_eq_None_iff)
  then show ?thesis
    by (intro mapR_total) (auto simp: part_tlvs_def l(1) split: option.splits)
qed

lemma deliver_ok:
  assumes "reassembler_ok r" "map_of (contexts r) key = Some st" "assembly_wf r st'" "\<not> poisoned st'"
    and "buffered r - asm_size st + asm_size st' \<le> max_bytes r"
  shows "reassembler_ok (fst (deliver (r\<lparr>contexts := AList.update key st' (contexts r),
            buffered := buffered r - asm_size st + asm_size st'\<rparr>) key st' part))"
    and "snd (deliver (r\<lparr>contexts := AList.update key st' (contexts r),
            buffered := buffered r - asm_size st + asm_size st'\<rparr>) key st' part) \<noteq> Inl e"
proof -
  let ?r = "r\<lparr>contexts := AList.update key st' (contexts r), buffered := buffered r - asm_size st + asm_size st'\<rparr>"
  have "reassembler_ok (fst (deliver ?r key st' part)) \<and> snd (deliver ?r key st' part) \<noteq> Inl e"
  proof (cases "asm_complete st'")
    case True
    then show ?thesis
      using complete_parts [OF assms(3,4) True] context_delete_ok [OF assms(1,2)]
      by (simp add: deliver_def AList.delete_update_same)
  next
    case False
    then have "reassembler_ok ?r"
      using assms by (intro context_update_ok) (auto simp: assembly_ok_def)
    with False show ?thesis by (simp add: deliver_def)
  qed
  then show "reassembler_ok (fst (deliver ?r key st' part))" "snd (deliver ?r key st' part) \<noteq> Inl e"
    by simp_all
qed

text \<open>The context once a new fragment is stored.\<close>

definition stored :: "assembly \<Rightarrow> fragment \<Rightarrow> tlv list \<Rightarrow> assembly" where
  "stored st part tlvs =
     st\<lparr>parts := AList.update (fr_fid part) (fr_last part, tlvs) (parts st),
        asm_size := asm_size st + tlvs_size tlvs,
        asm_last := (if fr_last part then Some (fr_fid part) else asm_last st)\<rparr>"

definition acceptable :: "reassembler \<Rightarrow> assembly \<Rightarrow> fragment \<Rightarrow> tlv list \<Rightarrow> bool" where
  "acceptable r st part tlvs \<longleftrightarrow>
     (case asm_last st of None \<Rightarrow> True | Some l \<Rightarrow> fr_fid part \<le> l \<and> (fr_last part \<longrightarrow> fr_fid part = l)) \<and>
     (fr_last part \<longrightarrow> (\<forall>f \<in> set (map fst (parts st)). f \<le> fr_fid part)) \<and>
     asm_size st + tlvs_size tlvs \<le> max_message_bytes r \<and> buffered r + tlvs_size tlvs \<le> max_bytes r \<and>
     (\<Sum>p \<leftarrow> parts st. length (snd (snd p))) + length tlvs \<le> MAX_TLVS"

lemma store_part_eq:
  "store_part r key st part tlvs =
     (if acceptable r st part tlvs
      then deliver (r\<lparr>contexts := AList.update key (stored st part tlvs) (contexts r),
                      buffered := buffered r + tlvs_size tlvs\<rparr>) key (stored st part tlvs) part
      else poison r key st)"
  by (auto simp: store_part_def acceptable_def stored_def Let_def not_le not_less split: option.splits)

lemma stored_wf:
  assumes "assembly_wf r st" "\<not> poisoned st" "map_of (parts st) (fr_fid part) = None"
    and "0 \<le> fr_fid part" "fr_fid part < max_fragments r" "acceptable r st part tlvs"
  shows "assembly_wf r (stored st part tlvs)" "\<not> poisoned (stored st part tlvs)"
    "asm_size (stored st part tlvs) = asm_size st + tlvs_size tlvs"
  using assms
  by (auto simp: assembly_wf_def stored_def acceptable_def update_new parts_size_def map_of_eq_None_iff
      split: option.splits)

lemma store_part_ok:
  assumes "reassembler_ok r" "map_of (contexts r) key = Some st" "\<not> poisoned st"
    and "map_of (parts st) (fr_fid part) = None" "0 \<le> fr_fid part" "fr_fid part < max_fragments r"
  shows "reassembler_ok (fst (store_part r key st part tlvs)) \<and>
    (\<forall>e. snd (store_part r key st part tlvs) = Inl e \<longrightarrow> e = EmosaError INVALID_INPUT)"
proof (cases "acceptable r st part tlvs")
  case True
  have wf: "assembly_wf r st"
    using map_of_assembly_ok [OF assms(1,2)] by (simp add: assembly_ok_def)
  note st = stored_wf [OF wf assms(3-6) True]
  have b: "buffered r + tlvs_size tlvs = buffered r - asm_size st + asm_size (stored st part tlvs)"
    using st(3) by simp
  have le: "buffered r - asm_size st + asm_size (stored st part tlvs) \<le> max_bytes r"
    using True st(3) by (simp add: acceptable_def)
  show ?thesis
    using deliver_ok [OF assms(1,2) st(1,2) le] True unfolding store_part_eq b by simp
next
  case False
  then show ?thesis
    using poison_ok [OF assms(1,2)] by (simp add: store_part_eq) (simp add: poison_def)
qed

lemma feed_part_ok:
  assumes "reassembler_ok r" "map_of (contexts r) key = Some st" "0 \<le> fr_fid part"
  shows "reassembler_ok (fst (feed_part r key st part)) \<and>
    (\<forall>e. snd (feed_part r key st part) = Inl e \<longrightarrow> e = EmosaError INVALID_INPUT)"
  using assms poison_ok [OF assms(1,2)] store_part_ok [OF assms(1,2)]
  by (auto simp: feed_part_def split: sum.splits option.splits) (auto simp: poison_def)

lemma open_context_ok:
  assumes "reassembler_ok r" "map_of (contexts r) key = None" "length (contexts r) < max_contexts r"
  shows "reassembler_ok (r\<lparr>contexts := AList.update key (Assembly t relay) (contexts r)\<rparr>)"
  using assms
  by (auto simp: reassembler_ok_def update_new map_of_eq_None_iff Assembly_def assembly_ok_def
      assembly_wf_def parts_size_def asm_complete_def)

lemma decode_frame_fid: "decode_frame frame = Inr f \<Longrightarrow> 0 \<le> fr_fid f \<and> fr_fid f < 256"
  by (auto simp: decode_frame_def Let_def split: if_splits)

lemma feed_ok:
  assumes "reassembler_ok r"
  shows "reassembler_ok (fst (feed r now opened frame ingress)) \<and>
    (\<forall>e. snd (feed r now opened frame ingress) = Inl e \<longrightarrow>
       e \<in> EmosaError ` {INVALID_INPUT, UNSUPPORTED_OPERATION, BUSY})"
proof -
  let ?r = "fst (expire r now)"
  have r: "reassembler_ok ?r" using assms by (rule expire_ok)
  show ?thesis
  proof (cases "decode_frame frame")
    case (Inl e)
    then have "e = EmosaError INVALID_INPUT" by (auto simp: decode_frame_def Let_def split: if_splits)
    with Inl r show ?thesis by (simp add: feed_def Let_def)
  next
    case (Inr part)
    let ?key = "(ingress, fr_source part, fr_destination part, fr_message_type part, fr_mid part)"
    have fid: "0 \<le> fr_fid part" using decode_frame_fid [OF Inr] by simp
    show ?thesis
    proof (cases "map_of (contexts ?r) ?key")
      case None
      let ?st = "Assembly opened (fr_relay part)"
      let ?r' = "?r\<lparr>contexts := AList.update ?key ?st (contexts ?r)\<rparr>"
      have "length (contexts ?r) < max_contexts ?r \<Longrightarrow> reassembler_ok ?r'"
        using r None by (intro open_context_ok)
      moreover have "map_of (contexts ?r') ?key = Some ?st"
        by (simp add: AList.update_conv')
      ultimately show ?thesis
        using feed_part_ok [of ?r' ?key ?st part] fid None Inr r
        by (auto simp: feed_def Let_def not_le)
    next
      case (Some st)
      then show ?thesis
        using feed_part_ok [OF r Some fid] Inr r by (auto simp: feed_def Let_def)
    qed
  qed
qed

text \<open>The reassembler as a component: it is constructed with some budgets, then fed and expired.\<close>

definition reassembler_init :: "reassembler \<Rightarrow> bool" where
  "reassembler_init r \<longleftrightarrow> (\<exists>t c b m f. Reassembler t c b m f = Inr r)"

inductive reassembler_step :: "reassembler \<Rightarrow> reassembler \<Rightarrow> bool" where
  step_feed: "reassembler_step r (fst (feed r now opened frame ingress))"
| step_expire: "reassembler_step r (fst (expire r now))"

lemma Reassembler_ok: "Reassembler t c b m f = Inr r \<Longrightarrow> reassembler_ok r"
  by (auto simp: Reassembler_def reassembler_ok_def split: if_splits)

interpretation reassembly: state_invariant reassembler_init reassembler_step reassembler_ok
proof
  show "reassembler_ok s" if "reassembler_init s" for s
    using that Reassembler_ok by (auto simp: reassembler_init_def)
  show "reassembler_ok t" if "reassembler_ok s" "reassembler_step s t" for s t
    using that(2,1) by induction (auto simp: feed_ok expire_ok)
qed

section \<open>Reassembly in any order\<close>

text \<open>The context after the fragments with the indexes \<open>done\<close> of the groups \<open>gs\<close> were stored.\<close>

definition partial_asm :: "real \<Rightarrow> bool \<Rightarrow> tlv list list \<Rightarrow> nat list \<Rightarrow> assembly" where
  "partial_asm t relay gs done =
     \<lparr>started = t, asm_relay = relay,
      parts = map (\<lambda>i. (int i, (i = length gs - 1, gs ! i))) done,
      asm_last = (if length gs - 1 \<in> set done then Some (int (length gs - 1)) else None),
      asm_size = (\<Sum>i \<leftarrow> done. tlvs_size (gs ! i)), poisoned = False\<rparr>"

lemma partial_asm_Nil: "partial_asm t relay gs [] = Assembly t relay"
  by (simp add: partial_asm_def Assembly_def)

lemma map_of_partial:
  "map_of (parts (partial_asm t relay gs done)) (int i) =
     (if i \<in> set done then Some (i = length gs - 1, gs ! i) else None)"
  by (induction "done") (auto simp: partial_asm_def)

lemma distinct_sum_list_le:
  fixes f :: "nat \<Rightarrow> 'a :: ordered_comm_monoid_add"
  assumes "distinct xs" "set xs \<subseteq> {..<n}" "\<And>i. 0 \<le> f i"
  shows "(\<Sum>i \<leftarrow> xs. f i) \<le> (\<Sum>i \<leftarrow> [0..<n]. f i)"
proof -
  have "(\<Sum>i \<leftarrow> xs. f i) = sum f (set xs)"
    using assms(1) by (simp add: sum_list_distinct_conv_sum_set)
  also have "\<dots> \<le> sum f {..<n}"
    using assms(2,3) by (intro sum_mono2) auto
  also have "\<dots> = (\<Sum>i \<leftarrow> [0..<n]. f i)"
    by (simp add: sum_list_distinct_conv_sum_set atLeast0LessThan)
  finally show ?thesis .
qed

lemma sum_list_nth: "(\<Sum>i \<leftarrow> [0..<length xs]. f (xs ! i)) = sum_list (map f xs)"
proof -
  have "map (\<lambda>i. f (xs ! i)) [0..<length xs] = map f xs"
    by (rule nth_equalityI) auto
  then show ?thesis by simp
qed

lemma tlvs_size_concat: "tlvs_size (concat gs) = (\<Sum>g \<leftarrow> gs. tlvs_size g)"
  by (induction gs) (simp_all add: tlvs_size_def)

lemma complete_partial:
  assumes "distinct got" "set got \<subseteq> {..<length gs}" "gs \<noteq> []"
  shows "asm_complete (partial_asm t relay gs got) \<longleftrightarrow> length got = length gs"
proof -
  obtain n where n: "length gs = Suc n" using assms(3) by (cases gs) auto
  have "n \<in> set got" if "length got = Suc n"
  proof -
    have "set got = {..<length gs}"
      using assms(1,2) that n by (intro card_subset_eq) (auto simp: distinct_card)
    with n show ?thesis by simp
  qed
  then show ?thesis
    by (auto simp: asm_complete_def partial_asm_def n)
qed

lemma stored_partial:
  assumes "i \<notin> set got"
  shows "stored (partial_asm t relay gs got) (chunk_frame d s ty m relay gs i) (gs ! i) =
     partial_asm t relay gs (got @ [i])"
proof -
  have "map_of (parts (partial_asm t relay gs got)) (int i) = None"
    using assms by (simp add: map_of_partial)
  from update_new [OF this] show ?thesis
    by (auto simp: stored_def chunk_frame_def partial_asm_def)
qed

text \<open>Indexes in the order they first arrive; a repeated one is a retransmission.\<close>

fun arrive :: "nat list \<Rightarrow> nat list \<Rightarrow> nat list" where
  "arrive got [] = got"
| "arrive got (i # pre) = arrive (if i \<in> set got then got else got @ [i]) pre"

lemma arrive_props:
  "distinct got \<Longrightarrow> distinct (arrive got pre)" "set (arrive got pre) = set got \<union> set pre"
  by (induction got pre rule: arrive.induct) auto

text \<open>What the caller needs of the reassembler for one message, and what each step keeps of it.\<close>

definition room :: "reassembler \<Rightarrow> tlv list list \<Rightarrow> nat list \<Rightarrow> bool" where
  "room r gs got \<longleftrightarrow>
     reassembler_ok r \<and> int (length gs) \<le> max_fragments r \<and>
     (\<Sum>g \<leftarrow> gs. tlvs_size g) \<le> max_message_bytes r \<and>
     buffered r + (\<Sum>g \<leftarrow> gs. tlvs_size g) \<le> max_bytes r + (\<Sum>i \<leftarrow> got. tlvs_size (gs ! i))"

lemma partial_sizes:
  assumes "distinct got" "set got \<subseteq> {..<length gs}" "i \<notin> set got" "i < length gs"
  shows "(\<Sum>j \<leftarrow> got. tlvs_size (gs ! j)) + tlvs_size (gs ! i) \<le> (\<Sum>g \<leftarrow> gs. tlvs_size g)"
    and "(\<Sum>j \<leftarrow> got. length (gs ! j)) + length (gs ! i) \<le> length (concat gs)"
  using distinct_sum_list_le [of "got @ [i]" "length gs" "\<lambda>j. tlvs_size (gs ! j)"]
    distinct_sum_list_le [of "got @ [i]" "length gs" "\<lambda>j. length (gs ! j)"] assms
  by (simp_all add: sum_list_nth length_concat)

lemma acceptable_partial:
  assumes "room r gs got" "distinct got" "set got \<subseteq> {..<length gs}" "i \<notin> set got" "i < length gs"
    and "length (concat gs) \<le> MAX_TLVS"
  shows "acceptable r (partial_asm t relay gs got) (chunk_frame d s ty m relay gs i) (gs ! i)"
  using assms partial_sizes [OF assms(2-5)]
  by (auto simp: acceptable_def partial_asm_def chunk_frame_def room_def comp_def)
text \<open>A context that waits for the rest of the message \<open>gs\<close>.\<close>

definition waiting :: "reassembler \<Rightarrow> context_key \<Rightarrow> real \<Rightarrow> bool \<Rightarrow> tlv list list \<Rightarrow> nat list \<Rightarrow> bool" where
  "waiting r key t relay gs got \<longleftrightarrow>
     room r gs got \<and> map_of (contexts r) key = Some (partial_asm t relay gs got) \<and>
     distinct got \<and> set got \<subseteq> {..<length gs}"

lemma started_partial [simp]: "started (partial_asm t relay gs got) = t"
  by (simp add: partial_asm_def)

lemma expire_fields [simp]:
  "timeout (fst (expire r now)) = timeout r" "max_contexts (fst (expire r now)) = max_contexts r"
  "max_bytes (fst (expire r now)) = max_bytes r" "max_fragments (fst (expire r now)) = max_fragments r"
  "max_message_bytes (fst (expire r now)) = max_message_bytes r"
  by (simp_all add: expire_def Let_def)

lemma expire_contexts:
  "contexts (fst (expire r now)) = filter (\<lambda>c. \<not> is_expired r now c) (contexts r)"
  by (simp add: expire_def Let_def)

lemma expire_buffered:
  assumes "reassembler_ok r"
  shows "buffered (fst (expire r now)) \<le> buffered r"
proof -
  have "0 \<le> asm_size (snd c)" if "c \<in> set (contexts r)" for c
    using assms that asm_size_nonneg [of r "snd c"] by (auto simp: reassembler_ok_def)
  then have "0 \<le> (\<Sum>c \<leftarrow> filter (is_expired r now) (contexts r). asm_size (snd c))"
    by (intro sum_list_nonneg) auto
  then show ?thesis by (simp add: expire_def Let_def)
qed

lemma expire_keeps:
  assumes "distinct (map fst (contexts r))" "map_of (contexts r) key = Some st" "now - started st < timeout r"
  shows "map_of (contexts (fst (expire r now))) key = Some st"
  using assms map_of_filter_val [of "contexts r" "\<lambda>st. now - started st < timeout r" key]
  by (simp add: expire_contexts is_expired_def not_le case_prod_beta')

lemma expire_room: "room r gs got \<Longrightarrow> room (fst (expire r now)) gs got"
  using expire_buffered [of r now] expire_ok [of r now] by (auto simp: room_def)

lemma expire_waiting:
  assumes "waiting r key t relay gs got" "now - t < timeout r"
  shows "waiting (fst (expire r now)) key t relay gs got"
proof -
  have "distinct (map fst (contexts r))"
    using assms(1) by (simp add: waiting_def room_def reassembler_ok_def)
  then show ?thesis
    using assms expire_keeps [of r key "partial_asm t relay gs got" now] expire_room
    by (simp add: waiting_def)
qed

lemma feed_part_new:
  assumes "waiting r key t relay gs got" "grouping budget (concat gs) gs" "length (concat gs) \<le> MAX_TLVS"
    and "i < length gs" "i \<notin> set got"
  shows "feed_part r key (partial_asm t relay gs got) (chunk_frame d s ty m relay gs i) =
    deliver (r\<lparr>contexts := AList.update key (partial_asm t relay gs (got @ [i])) (contexts r),
              buffered := buffered r + tlvs_size (gs ! i)\<rparr>)
      key (partial_asm t relay gs (got @ [i])) (chunk_frame d s ty m relay gs i)"
proof -
  have parse: "parse_tlvs (chunk_payload gs i) (i = length gs - 1) = Inr (gs ! i)"
    using assms by (intro parse_chunk_payload)
  have new: "map_of (parts (partial_asm t relay gs got)) (int i) = None"
    using assms(5) by (simp add: map_of_partial)
  have acc: "acceptable r (partial_asm t relay gs got) (chunk_frame d s ty m relay gs i) (gs ! i)"
    using assms by (intro acceptable_partial) (auto simp: waiting_def)
  have fid: "\<not> int i \<ge> max_fragments r"
    using assms(1,4) by (auto simp: waiting_def room_def)
  have "feed_part r key (partial_asm t relay gs got) (chunk_frame d s ty m relay gs i) =
      store_part r key (partial_asm t relay gs got) (chunk_frame d s ty m relay gs i) (gs ! i)"
    using parse new fid
    by (simp add: feed_part_def chunk_frame_def) (simp add: partial_asm_def)
  then show ?thesis
    using acc stored_partial [OF assms(5)] by (simp add: store_part_eq)
qed

lemma feed_part_again:
  assumes "waiting r key t relay gs got" "grouping budget (concat gs) gs" "length (concat gs) \<le> MAX_TLVS"
    and "i \<in> set got"
  shows "feed_part r key (partial_asm t relay gs got) (chunk_frame d s ty m relay gs i) = (r, Inr None)"
proof -
  have i: "i < length gs" using assms by (auto simp: waiting_def)
  have parse: "parse_tlvs (chunk_payload gs i) (i = length gs - 1) = Inr (gs ! i)"
    using assms i by (intro parse_chunk_payload)
  have old: "map_of (parts (partial_asm t relay gs got)) (int i) = Some (i = length gs - 1, gs ! i)"
    using assms(4) by (simp add: map_of_partial)
  have "\<not> int i \<ge> max_fragments r"
    using assms(1) i by (auto simp: waiting_def room_def)
  then show ?thesis
    using parse old by (simp add: feed_part_def chunk_frame_def) (simp add: partial_asm_def)
qed

lemma waiting_store:
  assumes "waiting r key t relay gs got" "i < length gs" "i \<notin> set got" "length (got @ [i]) < length gs"
    and "length (concat gs) \<le> MAX_TLVS"
  shows "waiting (r\<lparr>contexts := AList.update key (partial_asm t relay gs (got @ [i])) (contexts r),
              buffered := buffered r + tlvs_size (gs ! i)\<rparr>) key t relay gs (got @ [i])"
proof -
  let ?st = "partial_asm t relay gs got" and ?st' = "partial_asm t relay gs (got @ [i])"
  let ?f = "chunk_frame [] [] 0 0 relay gs i"
  have w: "room r gs got" "map_of (contexts r) key = Some ?st" "distinct got" "set got \<subseteq> {..<length gs}"
    using assms(1) by (auto simp: waiting_def)
  have acc: "acceptable r ?st ?f (gs ! i)"
    using w assms by (intro acceptable_partial)
  have wf: "assembly_wf r ?st"
    using map_of_assembly_ok [of r key ?st] w by (simp add: assembly_ok_def room_def)
  have "assembly_wf r (stored ?st ?f (gs ! i))"
    by (rule stored_wf(1) [OF wf _ _ _ _ acc])
       (use w assms(2,3) in \<open>auto simp: chunk_frame_def map_of_partial room_def\<close>, simp add: partial_asm_def)
  moreover have "gs \<noteq> []" using assms(2) by auto
  ultimately have "assembly_ok r ?st'"
    using stored_partial [OF assms(3)] complete_partial [of "got @ [i]" gs t relay] w(3,4) assms(2-4)
    by (auto simp: assembly_ok_def)
  moreover have "buffered r + tlvs_size (gs ! i) \<le> max_bytes r"
    using acc by (simp add: acceptable_def)
  ultimately have "reassembler_ok (r\<lparr>contexts := AList.update key ?st' (contexts r), buffered := buffered r + tlvs_size (gs ! i)\<rparr>)"
    using w by (intro context_update_ok) (auto simp: room_def partial_asm_def)
  then show ?thesis
    using w assms(2,3) by (auto simp: waiting_def room_def AList.update_conv')
qed

text \<open>One more frame of the message: kept, or ignored when it is a retransmission.\<close>

lemma deliver_waits:
  assumes "waiting r key t relay gs got" "i < length gs" "i \<notin> set got" "length (got @ [i]) < length gs"
  shows "deliver r' key (partial_asm t relay gs (got @ [i])) part = (r', Inr None)"
proof -
  have "gs \<noteq> []" using assms(2) by auto
  then show ?thesis
    using complete_partial [of "got @ [i]" gs t relay] assms by (auto simp: deliver_def waiting_def)
qed

lemma feed_part_waits:
  assumes "waiting r key t relay gs got" "grouping budget (concat gs) gs" "length (concat gs) \<le> MAX_TLVS"
    and "i < length gs" "length (arrive got [i]) < length gs"
  shows "\<exists>r'. feed_part r key (partial_asm t relay gs got) (chunk_frame d s ty m relay gs i) = (r', Inr None) \<and>
    waiting r' key t relay gs (arrive got [i]) \<and> timeout r' = timeout r"
proof (cases "i \<in> set got")
  case True
  then show ?thesis using feed_part_again [OF assms(1-3) True] assms(1) by simp
next
  case False
  then show ?thesis
    using feed_part_new [OF assms(1-4) False, of d s ty m] waiting_store [OF assms(1,4) False _ assms(3)]
      deliver_waits [OF assms(1,4) False] assms(5)
    by simp
qed

definition chunk_message :: "bytes \<Rightarrow> bytes \<Rightarrow> int \<Rightarrow> int \<Rightarrow> bool \<Rightarrow> tlv list list \<Rightarrow> message" where
  "chunk_message d s ty m relay gs =
     \<lparr>msg_destination = d, msg_source = s, msg_type = ty, msg_mid = m, msg_relay = relay,
      msg_tlvs = concat gs, msg_fragments = int (length gs)\<rparr>"

lemma feed_part_completes:
  assumes "waiting r key t relay gs got" "grouping budget (concat gs) gs" "length (concat gs) \<le> MAX_TLVS"
    and "i < length gs" "i \<notin> set got" "length (got @ [i]) = length gs"
  shows "snd (feed_part r key (partial_asm t relay gs got) (chunk_frame d s ty m relay gs i)) =
    Inr (Some (chunk_message d s ty m relay gs))"
proof -
  let ?st = "partial_asm t relay gs (got @ [i])"
  have d: "distinct (got @ [i])" "set (got @ [i]) \<subseteq> {..<length gs}" and ne: "gs \<noteq> []"
    using assms by (auto simp: waiting_def)
  have all: "set (got @ [i]) = {..<length gs}"
    using d assms(6) by (intro card_subset_eq) (auto simp: distinct_card simp del: set_append)
  have last: "asm_last ?st = Some (int (length gs - 1))"
    using all ne by (simp add: partial_asm_def)
  have n: "nat (the (asm_last ?st) + 1) = length gs"
    unfolding last using ne by (cases gs) auto
  have "mapR (part_tlvs ?st) (map int [0..<length gs]) = Inr (map (\<lambda>j. gs ! nat j) (map int [0..<length gs]))"
  proof (rule mapR_total)
    fix x assume "x \<in> set (map int [0..<length gs])"
    then obtain j where j: "x = int j" "j < length gs" by auto
    then have "j \<in> set (got @ [i])" using all by blast
    with j(1) show "part_tlvs ?st x = Inr (gs ! nat x)"
      by (simp only: part_tlvs_def map_of_partial if_True option.case snd_conv nat_int)
  qed
  also have "map (\<lambda>j. gs ! nat j) (map int [0..<length gs]) = gs"
    by (simp add: comp_def map_nth)
  finally have vals: "mapR (part_tlvs ?st) (map int [0..<length gs]) = Inr gs" .
  have fr: "the (asm_last ?st) + 1 = int (length gs)"
    unfolding last using ne by (cases gs) auto
  show ?thesis
    using feed_part_new [OF assms(1-5), of d s ty m] complete_partial [OF d ne, of t relay] assms(6) vals
    by (simp add: deliver_def n fr del: map_map) (simp add: chunk_message_def chunk_frame_def)
qed

lemma feed_put_frame:
  assumes "fragment_ok f"
  shows "feed r now opened (put_frame f) ingress =
    (let r = fst (expire r now); key = (ingress, fr_source f, fr_destination f, fr_message_type f, fr_mid f) in
     case map_of (contexts r) key of
       Some st \<Rightarrow> feed_part r key st f
     | None \<Rightarrow> if length (contexts r) \<ge> max_contexts r then (r, Inl (EmosaError BUSY))
               else feed_part (r\<lparr>contexts := AList.update key (Assembly opened (fr_relay f)) (contexts r)\<rparr>) key
                      (Assembly opened (fr_relay f)) f)"
  using assms by (auto simp: feed_def decode_put_frame Let_def fragment_ok_def split: option.splits)

text \<open>A run of received frames: each with the two clock readings of its call.\<close>

fun feeds :: "reassembler \<Rightarrow> (real \<times> real \<times> bytes) list \<Rightarrow> string \<Rightarrow> reassembler \<times> message option result list" where
  "feeds r [] ingress = (r, [])"
| "feeds r ((now, opened, frame) # calls) ingress =
     (let (r', result) = feed r now opened frame ingress;
          (r'', results) = feeds r' calls ingress
      in (r'', result # results))"

lemma feeds_waiting:
  assumes "waiting r (ingress, s, d, ty, m) t relay gs got"
    and "grouping budget (concat gs) gs" "length (concat gs) \<le> MAX_TLVS"
    and "\<forall>i < length gs. fragment_ok (chunk_frame d s ty m relay gs i)"
    and "map (\<lambda>c. snd (snd c)) calls = map (\<lambda>i. put_frame (chunk_frame d s ty m relay gs i)) (pre @ [i])"
    and "\<forall>(now, opened, frame) \<in> set calls. now - t < timeout r"
    and "set (got @ pre @ [i]) = {..<length gs}" "i \<notin> set (got @ pre)"
  shows "snd (feeds r calls ingress) = replicate (length pre) (Inr None) @ [Inr (Some (chunk_message d s ty m relay gs))]"
  using assms(1,5-8)
proof (induction pre arbitrary: r got calls)
  case Nil
  let ?key = "(ingress, s, d, ty, m)" and ?f = "chunk_frame d s ty m relay gs i"
  obtain now opened where calls: "calls = [(now, opened, put_frame ?f)]"
    using Nil.prems(2) by (cases calls) auto
  have w: "waiting (fst (expire r now)) ?key t relay gs got"
    using Nil.prems(1,3) calls by (intro expire_waiting) auto
  have i: "i < length gs" "i \<notin> set got" using Nil.prems(4,5) by auto
  have "distinct (got @ [i])" using w Nil.prems(5) by (auto simp: waiting_def)
  then have "length (got @ [i]) = length gs"
    using Nil.prems(4) distinct_card [of "got @ [i]"] by simp
  then have "snd (feed_part (fst (expire r now)) ?key (partial_asm t relay gs got) ?f) =
      Inr (Some (chunk_message d s ty m relay gs))"
    using w i by (intro feed_part_completes [OF _ assms(2,3)])
  moreover have "feed r now opened (put_frame ?f) ingress =
      feed_part (fst (expire r now)) ?key (partial_asm t relay gs got) ?f"
    using w assms(4) i by (simp add: feed_put_frame Let_def waiting_def chunk_frame_def)
  ultimately show ?case by (simp add: calls case_prod_beta)
next
  case (Cons j js)
  let ?key = "(ingress, s, d, ty, m)" and ?f = "chunk_frame d s ty m relay gs j"
  obtain now opened calls' where calls: "calls = (now, opened, put_frame ?f) # calls'"
    "map (\<lambda>c. snd (snd c)) calls' = map (\<lambda>i. put_frame (chunk_frame d s ty m relay gs i)) (js @ [i])"
    using Cons.prems(2) by (cases calls) auto
  have w: "waiting (fst (expire r now)) ?key t relay gs got"
    using Cons.prems(1,3) calls(1) by (intro expire_waiting) auto
  have j: "j < length gs" using Cons.prems(4) by auto
  have d: "distinct got" using w by (simp add: waiting_def)
  have "set (arrive got [j]) \<subseteq> {..<length gs} - {i}" "i < length gs"
    using Cons.prems(4,5) arrive_props(2) [of got "[j]"] by auto
  then have "card (set (arrive got [j])) \<le> length gs - 1"
    by (metis card_Diff_singleton card_lessThan card_mono finite_Diff finite_lessThan lessThan_iff)
  then have len: "length (arrive got [j]) < length gs"
    using arrive_props(1) [OF d, of "[j]"] \<open>i < length gs\<close> by (simp add: distinct_card del: arrive.simps)
  obtain r' where r': "feed_part (fst (expire r now)) ?key (partial_asm t relay gs got) ?f = (r', Inr None)"
    "waiting r' ?key t relay gs (arrive got [j])" "timeout r' = timeout (fst (expire r now))"
    using feed_part_waits [OF w assms(2,3) j len] by blast
  have feed: "feed r now opened (put_frame ?f) ingress = (r', Inr None)"
    using w assms(4) j r'(1) by (simp add: feed_put_frame Let_def waiting_def chunk_frame_def)
  have "snd (feeds r' calls' ingress) = replicate (length js) (Inr None) @ [Inr (Some (chunk_message d s ty m relay gs))]"
    using Cons.prems(3-5) calls r'(3) arrive_props(2) [of got "[j]"]
    by (intro Cons.IH [OF r'(2)]) (auto simp del: arrive.simps)
  then show ?case by (simp add: calls(1) feed case_prod_beta)
qed

lemma feeds_any_order:
  assumes "reassembler_ok r"
    and "fragment_message d s ty m ts relay mtu = Inr frames"
    and "map_of (contexts r) (ingress, s, d, ty, m) = None" "length (contexts r) < max_contexts r"
    and "int (length frames) \<le> max_fragments r" "tlvs_size ts \<le> max_message_bytes r"
    and "buffered r + tlvs_size ts \<le> max_bytes r"
    and "map (\<lambda>c. snd (snd c)) calls = map (\<lambda>i. frames ! i) (pre @ [i])"
    and "set (pre @ [i]) = {..<length frames}" "i \<notin> set pre"
    and "\<forall>(now, opened, frame) \<in> set calls. t0 \<le> opened \<and> now < t0 + timeout r"
  shows "snd (feeds r calls ingress) = replicate (length pre) (Inr None) @
    [Inr (Some \<lparr>msg_destination = d, msg_source = s, msg_type = ty, msg_mid = m, msg_relay = relay,
               msg_tlvs = ts, msg_fragments = int (length frames)\<rparr>)]"
proof -
  let ?key = "(ingress, s, d, ty, m)"
  obtain gs where gs: "grouping (mtu - HEADER_size) ts gs" "length ts \<le> MAX_TLVS"
    "\<forall>i < length gs. fragment_ok (chunk_frame d s ty m relay gs i)"
    "frames = map (\<lambda>i. put_frame (chunk_frame d s ty m relay gs i)) [0..<length gs]"
    using fragment_message_frames [OF assms(2)] by metis
  have ts: "ts = concat gs" and len: "length frames = length gs"
    using gs(1,4) by (auto simp: grouping_def)
  have frames: "map (\<lambda>i. frames ! i) (pre @ [i]) = map (\<lambda>i. put_frame (chunk_frame d s ty m relay gs i)) (pre @ [i])"
    using assms(9) by (intro map_cong [OF refl]) (auto simp: gs(4))
  obtain now opened frame calls' where calls: "calls = (now, opened, frame) # calls'"
    using assms(8) by (cases calls) auto
  let ?r = "fst (expire r now)"
  let ?q = "?r\<lparr>contexts := AList.update ?key (Assembly opened relay) (contexts ?r)\<rparr>"
  have none: "map_of (contexts ?r) ?key = None"
    using assms(3) by (auto simp: expire_contexts map_of_eq_None_iff)
  have free: "length (contexts ?r) < max_contexts ?r"
    using assms(4) le_less_trans [OF length_filter_le] by (auto simp: expire_contexts)
  have ok: "reassembler_ok ?q"
    using expire_ok [OF assms(1)] none free by (intro open_context_ok)
  have sizes: "(\<Sum>g \<leftarrow> gs. tlvs_size g) = tlvs_size ts"
    by (simp add: ts tlvs_size_concat)
  have w: "waiting ?q ?key opened relay gs []"
    using ok assms(5-7) expire_buffered [OF assms(1), of now] len sizes
    by (auto simp: waiting_def room_def partial_asm_Nil AList.update_conv')
  text \<open>The first call opens the context and is then as if the context had been there.\<close>
  have start: "feed ?q now opened frame ingress = feed r now opened frame ingress"
  proof -
    obtain j where j: "frame = put_frame (chunk_frame d s ty m relay gs j)" "j < length gs"
      using assms(8,9) calls frames len by (cases pre) auto
    have "now - opened < timeout r" using assms(11) calls by auto
    then have "\<not> is_expired ?q now (?key, Assembly opened relay)"
      by (simp add: is_expired_def Assembly_def)
    moreover have "filter (\<lambda>c. \<not> is_expired ?q now c) (contexts ?r) = contexts ?r"
      by (auto simp: expire_contexts is_expired_def)
    ultimately have "fst (expire ?q now) = ?q"
      using none by (simp add: expire_def Let_def update_new) (auto simp: is_expired_def filter_empty_conv expire_contexts)
    then show ?thesis
      using j gs(3) none free by (simp add: feed_put_frame Let_def AList.update_conv' chunk_frame_def)
  qed
  have "snd (feeds ?q calls ingress) =
      replicate (length pre) (Inr None) @ [Inr (Some (chunk_message d s ty m relay gs))]"
    using assms(8-11) frames gs ts len calls
    by (intro feeds_waiting [OF w, where i = i and pre = pre and budget = "mtu - HEADER_size"]) auto
  then show ?thesis
    using start by (simp add: calls chunk_message_def ts len case_prod_beta)
qed

section \<open>Quarantine\<close>

lemma deliver_timeout: "timeout (fst (deliver r key st part)) = timeout r"
  by (auto simp: deliver_def split: sum.splits)

lemma feed_timeout: "timeout (fst (feed r now opened frame ingress)) = timeout r"
  by (auto simp: feed_def Let_def feed_part_def store_part_eq deliver_timeout poison_def
      split: sum.splits option.splits)

text \<open>A poisoned context keeps its key and its deadline whatever else is fed before it.\<close>

definition quarantined :: "reassembler \<Rightarrow> context_key \<Rightarrow> real \<Rightarrow> bool" where
  "quarantined r key t \<longleftrightarrow> (\<exists>st. map_of (contexts r) key = Some st \<and> poisoned st \<and> started st = t)"

lemma deliver_other: "key' \<noteq> key \<Longrightarrow> map_of (contexts (fst (deliver r key' st part))) key = map_of (contexts r) key"
  by (auto simp: deliver_def AList.delete_conv' split: sum.splits)

lemma feed_part_other:
  "key' \<noteq> key \<Longrightarrow> map_of (contexts (fst (feed_part r key' st part))) key = map_of (contexts r) key"
  by (auto simp: feed_part_def store_part_eq deliver_other poison_def AList.update_conv'
      split: sum.splits option.splits)

lemma feed_quarantined:
  assumes "reassembler_ok r" "quarantined r key t" "now - t < timeout r"
  shows "quarantined (fst (feed r now opened frame ingress)) key t"
proof -
  let ?r = "fst (expire r now)"
  obtain st where st: "map_of (contexts r) key = Some st" "poisoned st" "started st = t"
    using assms(2) by (auto simp: quarantined_def)
  then have q: "map_of (contexts ?r) key = Some st"
    using assms(1,3) by (intro expire_keeps) (auto simp: reassembler_ok_def)
  have "map_of (contexts (fst (feed r now opened frame ingress))) key = Some st"
  proof (cases "decode_frame frame")
    case (Inr part)
    let ?key = "(ingress, fr_source part, fr_destination part, fr_message_type part, fr_mid part)"
    show ?thesis
      by (cases "?key = key")
         (use Inr q st(2) in \<open>auto simp: feed_def Let_def feed_part_def [of _ key st]
            feed_part_other AList.update_conv' split: option.splits\<close>)
  qed (simp add: feed_def Let_def q)
  with st show ?thesis by (auto simp: quarantined_def)
qed

lemma feeds_quarantined:
  assumes "reassembler_ok r" "quarantined r key t" "\<forall>(now, _) \<in> set calls. now - t < timeout r"
  shows "quarantined (fst (feeds r calls ingress)) key t \<and> reassembler_ok (fst (feeds r calls ingress)) \<and>
    timeout (fst (feeds r calls ingress)) = timeout r"
  using assms
proof (induction r calls ingress rule: feeds.induct)
  case (2 r now opened frame calls ingress)
  obtain r' res where f: "feed r now opened frame ingress = (r', res)" by fastforce
  have "quarantined r' key t" "reassembler_ok r'"
    using feed_quarantined [OF 2(2,3), of now opened frame ingress] feed_ok [OF 2(2), of now opened frame ingress] 2(4) f
    by auto
  moreover have "timeout r' = timeout r"
    using f feed_timeout [of r now opened frame ingress] by simp
  ultimately show ?case using 2 f by (simp add: case_prod_beta)
qed simp

section \<open>Properties\<close>

text \<open>C13. Reassembly is independent of order and retransmission: when the fragments of an accepted
  message arrive from one ingress in any order, with any repetitions before the last missing one,
  within the deadline and within the reassembler's budgets, every call but the one that brings the
  last missing fragment returns nothing and that one returns the message with its TLVs in order.\<close>

theorem reassembly_any_order:
  assumes "reassembler_ok r" "fragment_message d s ty m ts relay mtu = Inr frames"
    and "map_of (contexts r) (ingress, s, d, ty, m) = None" "length (contexts r) < max_contexts r"
    and "int (length frames) \<le> max_fragments r" "tlvs_size ts \<le> max_message_bytes r"
    and "buffered r + tlvs_size ts \<le> max_bytes r"
    and "map (\<lambda>c. snd (snd c)) calls = map (\<lambda>i. frames ! i) (pre @ [i])"
    and "set (pre @ [i]) = {..<length frames}" "i \<notin> set pre"
    and "\<forall>(now, opened, frame) \<in> set calls. t0 \<le> opened \<and> now < t0 + timeout r"
  shows "snd (feeds r calls ingress) = replicate (length pre) (Inr None) @
    [Inr (Some \<lparr>msg_destination = d, msg_source = s, msg_type = ty, msg_mid = m, msg_relay = relay,
               msg_tlvs = ts, msg_fragments = int (length frames)\<rparr>)]"
  using assms by (rule feeds_any_order)

definition example_reassembler :: reassembler where
  "example_reassembler = \<lparr>timeout = 5, max_contexts = 2, max_bytes = 100, max_message_bytes = 50,
     max_fragments = 4, contexts = [], buffered = 0\<rparr>"

definition example_frames :: "bytes list" where
  "example_frames =
     [[1, 2, 3, 4, 5, 6, 2, 0, 0, 0, 0, 1, 0x89, 0x3A, 0, 0, 0, 2, 0, 5, 0, 0, 1, 0, 0],
      [1, 2, 3, 4, 5, 6, 2, 0, 0, 0, 0, 1, 0x89, 0x3A, 0, 0, 0, 2, 0, 5, 1, 0x80, 3, 0, 0, 0, 0, 0]]"

lemma example_fragmented:
  "fragment_message [1, 2, 3, 4, 5, 6] [2, 0, 0, 0, 0, 1] 2 5 [Tlv 1 [], Tlv 3 []] False 14 = Inr example_frames"
  by (simp add: fragment_message_def frag_step_def tlv_encode_def uint_chk_def u16_explicit cmdu_consts
      fragment_encode_eq fragment_ok_def put_frame_def END_TLV_def example_frames_def)

lemma example_reassembler_ok: "reassembler_ok example_reassembler"
  by (simp add: reassembler_ok_def example_reassembler_def)

theorem reassembly_any_order_witness:
  "snd (feeds example_reassembler
      [(10, 10, example_frames ! 1), (11, 11, example_frames ! 1), (12, 12, example_frames ! 0)] ''eth0'') =
    [Inr None, Inr None,
     Inr (Some \<lparr>msg_destination = [1, 2, 3, 4, 5, 6], msg_source = [2, 0, 0, 0, 0, 1], msg_type = 2, msg_mid = 5,
       msg_relay = False, msg_tlvs = [Tlv 1 [], Tlv 3 []], msg_fragments = 2\<rparr>)]"
proof -
  have len: "length example_frames = 2" by (simp add: example_frames_def)
  have idx: "set ([1, 1] @ [0]) = {..<length example_frames}" by (auto simp: len)
  show ?thesis
    using reassembly_any_order [OF example_reassembler_ok example_fragmented, of "''eth0''"
        "[(10, 10, example_frames ! 1), (11, 11, example_frames ! 1), (12, 12, example_frames ! 0)]"
        "[1, 1]" 0 10] idx
    by (simp add: len example_reassembler_def tlvs_size_def numeral_2_eq_2)
qed

text \<open>C14. Resource bounds: in every state the reassembler can reach from its construction, whatever is
  fed to it and whenever it is expired, it holds no more contexts and no more octets than its budgets
  allow, the octets it counts are those it stores, no context stores a fragment index outside its
  budget or more octets than one message may have, and nothing but its own refusals is raised.\<close>

theorem reassembler_budgets:
  assumes "reachable reassembler_init reassembler_step r"
  shows "length (contexts r) \<le> max_contexts r \<and> 0 \<le> buffered r \<and> buffered r \<le> max_bytes r \<and>
    buffered r = (\<Sum>c \<leftarrow> contexts r. \<Sum>p \<leftarrow> parts (snd c). tlvs_size (snd (snd p))) \<and>
    (\<forall>(key, st) \<in> set (contexts r). asm_size st \<le> max_message_bytes r \<and> distinct (map fst (parts st)) \<and>
       (\<forall>(fid, p) \<in> set (parts st). 0 \<le> fid \<and> fid < max_fragments r)) \<and>
    (\<forall>now opened frame ingress e. snd (feed r now opened frame ingress) = Inl e \<longrightarrow>
       e \<in> {EmosaError INVALID_INPUT, EmosaError UNSUPPORTED_OPERATION, EmosaError BUSY})"
proof -
  have ok: "reassembler_ok r" using assms by (rule reassembly.reachable_inv)
  have each: "assembly_wf r (snd c)" if "c \<in> set (contexts r)" for c
    using ok that by (auto simp: reassembler_ok_def assembly_ok_def)
  then have sizes: "asm_size (snd c) = (\<Sum>p \<leftarrow> parts (snd c). tlvs_size (snd (snd p)))" if "c \<in> set (contexts r)" for c
    using that by (simp add: assembly_wf_def parts_size_def)
  have b: "buffered r = (\<Sum>c \<leftarrow> contexts r. \<Sum>p \<leftarrow> parts (snd c). tlvs_size (snd (snd p)))"
    using ok sizes by (auto simp: reassembler_ok_def cong: map_cong)
  moreover have "0 \<le> buffered r"
    unfolding b by (intro sum_list_nonneg) (auto intro!: sum_list_nonneg)
  moreover have "\<forall>(key, st) \<in> set (contexts r). asm_size st \<le> max_message_bytes r \<and> distinct (map fst (parts st)) \<and>
       (\<forall>(fid, p) \<in> set (parts st). 0 \<le> fid \<and> fid < max_fragments r)"
    using each by (fastforce simp: assembly_wf_def)
  ultimately show ?thesis
    using ok feed_ok [OF ok] by (auto simp: reassembler_ok_def)
qed

theorem reassembler_budgets_witness:
  "0 \<le> buffered (fst (feed example_reassembler 10 10 (example_frames ! 1) ''eth0'')) \<and>
   buffered (fst (feed example_reassembler 10 10 (example_frames ! 1) ''eth0'')) \<le>
     max_bytes (fst (feed example_reassembler 10 10 (example_frames ! 1) ''eth0''))"
proof -
  have "reassembler_init example_reassembler"
    unfolding reassembler_init_def example_reassembler_def
    by (intro exI [of _ 5] exI [of _ 2] exI [of _ 100] exI [of _ 50] exI [of _ 4]) (simp add: Reassembler_def)
  then have "reachable reassembler_init reassembler_step (fst (feed example_reassembler 10 10 (example_frames ! 1) ''eth0''))"
    using step_feed by (blast intro: reachable_init reachable_step)
  from reassembler_budgets [OF this] show ?thesis by blast
qed

text \<open>C15. A conflicting retransmission is not resolved by guessing: when a fragment differs from the one
  stored under its index, the call is refused and the context poisoned, and whatever is fed before the
  context's original deadline, every further fragment of that message is refused, also the right ones.\<close>

theorem conflict_quarantines:
  assumes "reassembler_ok r" "decode_frame frame = Inr f" "fr_version f = 0"
    and "map_of (contexts r) (ingress, fr_source f, fr_destination f, fr_message_type f, fr_mid f) = Some st"
    and "now - started st < timeout r" "\<not> poisoned st"
    and "map_of (parts st) (fr_fid f) = Some prior"
    and "fst prior \<noteq> fr_last f \<or> parse_tlvs (fr_payload f) (fr_last f) \<noteq> Inr (snd prior)"
    and "\<forall>(now', _) \<in> set calls. now' - started st < timeout r"
    and "decode_frame frame' = Inr f'" "fr_version f' = 0"
    and "(fr_source f', fr_destination f', fr_message_type f', fr_mid f') =
      (fr_source f, fr_destination f, fr_message_type f, fr_mid f)"
    and "later - started st < timeout r"
  shows "snd (feed r now opened frame ingress) = invalid \<and>
    snd (feed (fst (feeds (fst (feed r now opened frame ingress)) calls ingress')) later opened' frame' ingress) = invalid"
proof -
  let ?key = "(ingress, fr_source f, fr_destination f, fr_message_type f, fr_mid f)"
  let ?r = "fst (expire r now)"
  have ctx: "map_of (contexts ?r) ?key = Some st"
    using assms(1,4,5) by (intro expire_keeps) (auto simp: reassembler_ok_def)
  have feed: "feed r now opened frame ingress = feed_part ?r ?key st f"
    using assms(2,3) ctx by (simp add: feed_def Let_def)
  have "feed_part ?r ?key st f = poison ?r ?key st"
    using assms(6-8) by (auto simp: feed_part_def split: sum.splits)
  then have res: "snd (feed r now opened frame ingress) = invalid"
    and q: "quarantined (fst (feed r now opened frame ingress)) ?key (started st)"
    unfolding feed by (simp_all add: poison_def quarantined_def AList.update_conv')
  have ok: "reassembler_ok (fst (feed r now opened frame ingress))" using feed_ok [OF assms(1)] by blast
  let ?s = "fst (feeds (fst (feed r now opened frame ingress)) calls ingress')"
  have s: "quarantined ?s ?key (started st)" "reassembler_ok ?s" "timeout ?s = timeout r"
    using feeds_quarantined [OF ok q] assms(9) feed_timeout by simp_all
  then obtain st' where st': "map_of (contexts ?s) ?key = Some st'" "poisoned st'" "started st' = started st"
    by (auto simp: quarantined_def)
  then have "map_of (contexts (fst (expire ?s later))) ?key = Some st'"
    using s assms(13) by (intro expire_keeps) (auto simp: reassembler_ok_def)
  then have "snd (feed ?s later opened' frame' ingress) = invalid"
    using assms(10-12) st'(2) by (simp add: feed_def Let_def feed_part_def)
  with res show ?thesis by simp
qed

definition example_conflict :: bytes where
  "example_conflict = [1, 2, 3, 4, 5, 6, 2, 0, 0, 0, 0, 1, 0x89, 0x3A, 0, 0, 0, 2, 0, 5, 0, 0, 9, 0, 0]"

definition example_partial :: reassembler where
  "example_partial = example_reassembler\<lparr>
     contexts := [((''eth0'', [2, 0, 0, 0, 0, 1], [1, 2, 3, 4, 5, 6], 2, 5),
       (Assembly 10 False)\<lparr>parts := [(0, (False, [Tlv 1 []]))], asm_size := 3\<rparr>)], buffered := 3\<rparr>"

theorem conflict_quarantines_witness:
  "snd (feed example_partial 11 11 example_conflict ''eth0'') = invalid \<and>
   snd (feed (fst (feeds (fst (feed example_partial 11 11 example_conflict ''eth0''))
     [(12, 12, example_frames ! 0)] ''eth0'')) 14 14 (example_frames ! 1) ''eth0'') = invalid"
proof -
  have ok: "reassembler_ok example_partial"
    by (simp add: example_partial_def example_reassembler_def reassembler_ok_def assembly_ok_def assembly_wf_def
        asm_complete_def Assembly_def parts_size_def tlvs_size_def MAX_TLVS_def)
  have d: "decode_frame example_conflict = Inr \<lparr>fr_destination = [1, 2, 3, 4, 5, 6], fr_source = [2, 0, 0, 0, 0, 1],
      fr_message_type = 2, fr_mid = 5, fr_fid = 0, fr_last = False, fr_relay = False, fr_payload = [9, 0, 0], fr_version = 0\<rparr>"
    by (simp add: example_conflict_def decode_frame_def py_slice_def from_be_def ETHERTYPE_def cmdu_consts)
  have d': "decode_frame (example_frames ! 1) = Inr \<lparr>fr_destination = [1, 2, 3, 4, 5, 6], fr_source = [2, 0, 0, 0, 0, 1],
      fr_message_type = 2, fr_mid = 5, fr_fid = 1, fr_last = True, fr_relay = False, fr_payload = [3, 0, 0, 0, 0, 0], fr_version = 0\<rparr>"
    by (simp add: example_frames_def decode_frame_def py_slice_def from_be_def ETHERTYPE_def cmdu_consts)
  have p: "parse_tlvs [9, 0, 0] False = Inr [Tlv 9 []]"
    using parse_tlvs_partial [of "[Tlv 9 []]"] by (simp add: put_tlv_def tlv_ok_def MAX_TLVS_def u16_explicit)
  show ?thesis
    using conflict_quarantines [OF ok d, where ingress = "''eth0''" and now = 11 and opened = 11 and
        calls = "[(12, 12, example_frames ! 0)]" and ingress' = "''eth0''" and frame' = "example_frames ! 1" and
        later = 14 and opened' = 14, OF _ _ _ _ _ _ _ d'] p
    by (simp add: example_partial_def example_reassembler_def Assembly_def)
qed

end
