(* ===== verification/He_Mcs.thy ===== *)
theory He_Mcs
  imports Emosa_Prelude
begin

unbundle bit_operations_syntax

text \<open>
  The Supported HE-MCS And NSS Set field of \<open>emosa/he_mcs.py\<close>: for each width a pair of maps of eight
  two-bit codes, each map a little-endian 16-bit integer. The lemmas show that encoding and decoding
  are inverse to each other, given which widths are present.
\<close>

section \<open>Model\<close>

record he_mcs_pair =
  rx_codes :: "int list"
  tx_codes :: "int list"

record he_supported_mcs =
  up_to_80 :: he_mcs_pair
  mhz160 :: "he_mcs_pair option"
  mhz80plus80 :: "he_mcs_pair option"

definition map_bytes :: "int list \<Rightarrow> bytes result" where
  "map_bytes codes =
     (if length codes \<noteq> 8 then invalid
      else if \<exists>code \<in> set codes. \<not> (0 \<le> code \<and> code \<le> 3) then invalid
      else Inr (to_le 2 (\<Sum>(n, code) \<leftarrow> enumerate 0 codes. push_bit (2 * n) code)))"

text \<open>The present pairs in the order of the field.\<close>

definition width_pairs :: "he_supported_mcs \<Rightarrow> he_mcs_pair list" where
  "width_pairs v = concat (map (\<lambda>p. case p of None \<Rightarrow> [] | Some pair \<Rightarrow> [pair])
     [Some (up_to_80 v), mhz160 v, mhz80plus80 v])"

definition encode_he_mcs :: "he_supported_mcs \<Rightarrow> bytes result" where
  "encode_he_mcs v =
     foldR (\<lambda>acc pair. bindR (map_bytes (rx_codes pair)) (\<lambda>rx. bindR (map_bytes (tx_codes pair)) (\<lambda>tx.
       Inr (acc @ rx @ tx)))) [] (width_pairs v)"

definition map_codes :: "bytes \<Rightarrow> int list" where
  "map_codes bs = (let v = from_le bs in map (\<lambda>n. drop_bit (2 * n) v AND 3) [0..<8])"

definition decode_pair :: "bytes \<Rightarrow> nat \<Rightarrow> he_mcs_pair" where
  "decode_pair bs offset =
     \<lparr>rx_codes = map_codes (py_slice bs offset (offset + 2)),
      tx_codes = map_codes (py_slice bs (offset + 2) (offset + 4))\<rparr>"

definition decode_he_mcs :: "bytes \<Rightarrow> bool \<Rightarrow> bool \<Rightarrow> he_supported_mcs result" where
  "decode_he_mcs bs he160 he8080 =
     (if length bs \<noteq> 4 + 4 * of_bool he160 + 4 * of_bool he8080 then invalid
      else
        let pairs = map (\<lambda>i. decode_pair bs (4 * i)) [0..<length bs div 4]
        in Inr \<lparr>up_to_80 = pairs ! 0,
                mhz160 = (if he160 then Some (pairs ! 1) else None),
                mhz80plus80 = (if he8080 then Some (last pairs) else None)\<rparr>)"

text \<open>The description: for each width the codes of its pair, or nothing.\<close>

definition describe_he_mcs :: "he_supported_mcs \<Rightarrow> (string \<times> (int list \<times> int list) option) list result" where
  "describe_he_mcs v =
     bindR (encode_he_mcs v) (\<lambda>_.
       Inr (map (\<lambda>(name, pair). (name, map_option (\<lambda>p. (rx_codes p, tx_codes p)) pair))
         [(''up_to_80_mhz'', Some (up_to_80 v)), (''160_mhz'', mhz160 v), (''80_plus_80_mhz'', mhz80plus80 v)]))"

section \<open>One map\<close>

definition codes_ok :: "int list \<Rightarrow> bool" where
  "codes_ok codes \<longleftrightarrow> length codes = 8 \<and> (\<forall>c \<in> set codes. 0 \<le> c \<and> c \<le> 3)"

fun codes_value :: "int list \<Rightarrow> int" where
  "codes_value [] = 0"
| "codes_value (c # cs) = c + 4 * codes_value cs"

lemma sum_enumerate_codes:
  "(\<Sum>(n, code) \<leftarrow> enumerate k codes. push_bit (2 * n) code) = push_bit (2 * k) (codes_value codes)"
  by (induction codes arbitrary: k) (simp_all add: push_bit_eq_mult algebra_simps power_add)

lemma codes_value_range:
  "\<forall>c \<in> set cs. 0 \<le> c \<and> c \<le> 3 \<Longrightarrow> 0 \<le> codes_value cs \<and> codes_value cs < 4 ^ length cs"
  by (induction cs) auto

lemma and_3_mod: "(v :: int) AND 3 = v mod 4"
  using take_bit_eq_mask [of 2 v] by (simp add: take_bit_eq_mod mask_eq_exp_minus_1)

lemma drop_bit_Suc_codes: "drop_bit (2 * Suc n) (v :: int) = drop_bit (2 * n) (v div 4)"
proof -
  have "v div 4 = drop_bit 2 v" by (simp add: drop_bit_eq_div)
  then show ?thesis by (simp add: drop_bit_drop_bit add.commute)
qed

lemma codes_of_value:
  "\<forall>c \<in> set cs. 0 \<le> c \<and> c \<le> 3 \<Longrightarrow> map (\<lambda>n. drop_bit (2 * n) (codes_value cs) AND 3) [0..<length cs] = cs"
proof (induction cs)
  case (Cons c cs)
  have "map (\<lambda>n. drop_bit (2 * n) (codes_value (c # cs)) AND 3) [0..<length (c # cs)] =
      ((c + 4 * codes_value cs) AND 3) # map (\<lambda>n. drop_bit (2 * Suc n) (c + 4 * codes_value cs) AND 3) [0..<length cs]"
    by (simp add: upt_conv_Cons map_Suc_upt [symmetric] comp_def del: upt_Suc mult_Suc_right)
  also have "\<dots> = c # cs"
    using Cons by (simp add: drop_bit_Suc_codes and_3_mod del: mult_Suc_right)
  finally show ?case .
qed simp

lemma value_of_codes:
  "0 \<le> v \<Longrightarrow> v < 4 ^ k \<Longrightarrow> codes_value (map (\<lambda>n. drop_bit (2 * n) v AND 3) [0..<k]) = v"
proof (induction k arbitrary: v)
  case (Suc k)
  have "map (\<lambda>n. drop_bit (2 * n) v AND 3) [0..<Suc k] =
      (v AND 3) # map (\<lambda>n. drop_bit (2 * Suc n) v AND 3) [0..<k]"
    by (simp add: upt_conv_Cons map_Suc_upt [symmetric] comp_def del: upt_Suc mult_Suc_right)
  moreover have "codes_value (map (\<lambda>n. drop_bit (2 * n) (v div 4) AND 3) [0..<k]) = v div 4"
    using Suc.prems by (intro Suc.IH) (simp_all add: div_less_iff_less_mult mult.commute)
  ultimately show ?case by (simp add: drop_bit_Suc_codes and_3_mod del: upt_Suc mult_Suc_right)
qed simp

lemma map_bytes_eq_Inr [result_simps]:
  "map_bytes codes = Inr bs \<longleftrightarrow> codes_ok codes \<and> bs = to_le 2 (codes_value codes)"
  using sum_enumerate_codes [of 0 codes] by (auto simp: map_bytes_def codes_ok_def)

lemma map_codes_to_le: "codes_ok codes \<Longrightarrow> map_codes (to_le 2 (codes_value codes)) = codes"
  using codes_value_range [of codes] codes_of_value [of codes]
  by (simp add: map_codes_def Let_def codes_ok_def from_le_to_le)

lemma map_codes_ok: "codes_ok (map_codes bs)"
  by (auto simp: map_codes_def codes_ok_def Let_def and_3_mod)

lemma to_le_map_codes: "length bs = 2 \<Longrightarrow> to_le 2 (codes_value (map_codes bs)) = bs"
  using from_le_less [of bs] value_of_codes [of "from_le bs" 8]
  by (simp add: map_codes_def Let_def to_le_def from_le_def to_be_from_be)

section \<open>The whole field\<close>

definition pair_ok :: "he_mcs_pair \<Rightarrow> bool" where
  "pair_ok p \<longleftrightarrow> codes_ok (rx_codes p) \<and> codes_ok (tx_codes p)"

definition put_pair :: "he_mcs_pair \<Rightarrow> bytes" where
  "put_pair p = to_le 2 (codes_value (rx_codes p)) @ to_le 2 (codes_value (tx_codes p))"

lemma length_put_pair [simp]: "length (put_pair p) = 4"
  by (simp add: put_pair_def)

lemma length_put_pairs [simp]: "length (concat (map put_pair ps)) = 4 * length ps"
  by (induction ps) auto

lemma encode_he_mcs_eq_Inr [result_simps]:
  "encode_he_mcs v = Inr bs \<longleftrightarrow> list_all pair_ok (width_pairs v) \<and> bs = concat (map put_pair (width_pairs v))"
proof -
  have "foldR (\<lambda>acc pair. bindR (map_bytes (rx_codes pair)) (\<lambda>rx. bindR (map_bytes (tx_codes pair)) (\<lambda>tx.
       Inr (acc @ rx @ tx)))) acc ps = Inr bs \<longleftrightarrow> list_all pair_ok ps \<and> bs = acc @ concat (map put_pair ps)" for acc ps
    by (induction ps arbitrary: acc) (auto simp: result_simps pair_ok_def put_pair_def)
  from this [of "[]"] show ?thesis by (simp add: encode_he_mcs_def)
qed

lemma decode_pair_nth:
  assumes "list_all pair_ok ps" "i < length ps"
  shows "decode_pair (concat (map put_pair ps)) (4 * i) = ps ! i"
proof -
  have "concat (map put_pair ps) = concat (map put_pair (take i ps)) @ put_pair (ps ! i) @ concat (map put_pair (drop (Suc i) ps))"
    using assms(2) id_take_nth_drop [of i ps] by (metis concat.simps(2) concat_append list.simps(9) map_append)
  moreover have "length (concat (map put_pair (take i ps))) = 4 * i" using assms(2) by simp
  moreover have "pair_ok (ps ! i)" using assms by (simp add: list_all_length)
  ultimately show ?thesis
    by (simp add: decode_pair_def py_slice_append_right put_pair_def pair_ok_def map_codes_to_le)
qed

lemma put_decode_pair:
  assumes "offset + 4 \<le> length bs"
  shows "put_pair (decode_pair bs offset) = py_slice bs offset (offset + 4)"
proof -
  have "take 2 (drop offset bs) @ take 2 (drop 2 (drop offset bs)) = take 4 (drop offset bs)"
    using take_add [of 2 2 "drop offset bs"] by simp
  with assms show ?thesis
    by (simp add: put_pair_def decode_pair_def to_le_map_codes) (simp add: py_slice_def add.commute)
qed

lemma concat_slices: "length bs = 4 * n \<Longrightarrow> concat (map (\<lambda>i. py_slice bs (4 * i) (4 * i + 4)) [0..<n]) = bs"
proof (induction n arbitrary: bs)
  case (Suc n)
  have "map (\<lambda>i. py_slice bs (4 * i) (4 * i + 4)) [0..<n] = map (\<lambda>i. py_slice (take (4 * n) bs) (4 * i) (4 * i + 4)) [0..<n]"
    by (auto simp: py_slice_def drop_take min_def)
  then have "concat (map (\<lambda>i. py_slice bs (4 * i) (4 * i + 4)) [0..<n]) = take (4 * n) bs"
    using Suc.IH [of "take (4 * n) bs"] Suc.prems by (simp del: map_eq_conv)
  then show ?case using Suc.prems by (simp add: py_slice_def)
qed simp

lemma decode_encode_he_mcs:
  assumes "encode_he_mcs v = Inr bs"
  shows "decode_he_mcs bs (mhz160 v \<noteq> None) (mhz80plus80 v \<noteq> None) = Inr v"
proof -
  from assms have ok: "list_all pair_ok (width_pairs v)" and bs: "bs = concat (map put_pair (width_pairs v))"
    by (simp_all add: result_simps)
  have dec: "map (\<lambda>i. decode_pair bs (4 * i)) [0..<length bs div 4] = width_pairs v"
    unfolding bs by (rule nth_equalityI) (simp_all add: decode_pair_nth [OF ok])
  have "length bs = 4 * length (width_pairs v)" unfolding bs by simp
  with dec show ?thesis
    unfolding decode_he_mcs_def by (auto simp: width_pairs_def split: option.splits)
qed

lemma encode_decode_he_mcs:
  assumes "decode_he_mcs bs he160 he8080 = Inr v"
  shows "encode_he_mcs v = Inr bs \<and> (mhz160 v \<noteq> None) = he160 \<and> (mhz80plus80 v \<noteq> None) = he8080"
proof -
  let ?pairs = "map (\<lambda>i. decode_pair bs (4 * i)) [0..<length bs div 4]"
  from assms have len: "length bs = 4 + 4 * of_bool he160 + 4 * of_bool he8080"
    and v: "v = \<lparr>up_to_80 = ?pairs ! 0, mhz160 = (if he160 then Some (?pairs ! 1) else None),
                mhz80plus80 = (if he8080 then Some (last ?pairs) else None)\<rparr>"
    by (auto simp only: decode_he_mcs_def Let_def if_Inl_eq_Inr sum.inject)
  have "?pairs \<noteq> []" using len by simp
  then have "last ?pairs = ?pairs ! (length ?pairs - 1)" by (rule last_conv_nth)
  then have pairs: "width_pairs v = ?pairs"
    using len unfolding v width_pairs_def by (cases he160; cases he8080) (simp_all add: upt_rec)
  have four: "length bs = 4 * (length bs div 4)" using len by (cases he160; cases he8080) simp_all
  have "concat (map put_pair ?pairs) = concat (map (\<lambda>i. py_slice bs (4 * i) (4 * i + 4)) [0..<length bs div 4])"
    by (intro arg_cong [of _ _ concat]) (auto simp: put_decode_pair)
  also have "\<dots> = bs" using four by (rule concat_slices)
  finally have "encode_he_mcs v = Inr bs"
    by (simp add: result_simps pairs list_all_iff pair_ok_def decode_pair_def map_codes_ok)
  moreover have "(mhz160 v \<noteq> None) = he160" "(mhz80plus80 v \<noteq> None) = he8080" by (simp_all add: v)
  ultimately show ?thesis by blast
qed

section \<open>Properties\<close>

text \<open>The HE-MCS field and its octets correspond one to one: given which widths are present, decoding
  yields a value exactly when encoding that value, with those widths, yields the octets.\<close>

theorem he_mcs_bijective:
  "decode_he_mcs bs he160 he8080 = Inr v \<longleftrightarrow>
   encode_he_mcs v = Inr bs \<and> (mhz160 v \<noteq> None) = he160 \<and> (mhz80plus80 v \<noteq> None) = he8080"
  using encode_decode_he_mcs decode_encode_he_mcs by blast

end
