(* ===== verification/Easymesh_Payloads.thy ===== *)
theory Easymesh_Payloads
  imports He_Mcs
begin

unbundle bit_operations_syntax

text \<open>
  The selected EasyMesh TLV values of \<open>emosa/easymesh_payloads.py\<close>, with the operating classes of
  \<open>emosa/operating_classes.py\<close> they are checked against. A payload is a datatype with one constructor
  per payload class; the parts of a payload are records. The encoder is written branch by branch as
  in the source, with every check in its place; the decoder is a composition of readers. The lemmas
  give the layout of each value as a pure function, show that the encoder writes it and that the
  decoder reads it back, and that the decoder reads nothing else.
\<close>

section \<open>Data\<close>

definition MAX_VALUE_BYTES :: nat where "MAX_VALUE_BYTES = 16384"

definition GLOBAL_OPERATING_CLASSES :: "(int \<times> string \<times> int list) list" where
  "GLOBAL_OPERATING_CLASSES =
     [(81, ''2.4G'', [1..13]),
      (82, ''2.4G'', [14]),
      (83, ''2.4G'', [1..9]),
      (84, ''2.4G'', [5..13]),
      (115, ''5G'', [36, 40, 44, 48]),
      (116, ''5G'', [36, 44]),
      (117, ''5G'', [40, 48]),
      (124, ''5G'', [149, 153, 157, 161]),
      (125, ''5G'', [149, 153, 157, 161, 165, 169, 173, 177]),
      (128, ''5G'', [42, 58, 106, 122, 138, 155, 171])]"

definition CENTER_CHANNEL_CLASSES :: "int list" where "CENTER_CHANNEL_CLASSES = [128]"

record operational_bss =
  ap_mac :: bytes
  op_ssid :: bytes

record operational_radio =
  op_ruid :: bytes
  op_bsses :: "operational_bss list"

record configured_bss =
  cb_bssid :: bytes
  cb_flags :: int
  cb_ssid :: bytes

record configured_radio =
  cr_ruid :: bytes
  cr_bsses :: "configured_bss list"

record associated_client =
  ac_mac :: bytes
  association_seconds :: int

record bss_clients =
  bc_bssid :: bytes
  bc_clients :: "associated_client list"

record basic_operating_class =
  operating_class :: int
  max_eirp_dbm :: int
  non_operable_channels :: "int list"

record wifi6_role =
  role_id :: int
  role_mcs :: he_supported_mcs
  beamforming_flags :: int
  mu_mimo_users :: int
  max_dl_ofdma_tx :: int
  max_ul_ofdma_rx :: int
  role_feature_flags :: int

record inventory_radio =
  inv_ruid :: bytes
  chipset_vendor :: bytes

text \<open>The constructors take the fields of the class in their order.\<close>

datatype payload =
    SupportedServices "int list"
  | SearchedServices "int list"
  | RadioIdentifier bytes
  | APOperationalBss "operational_radio list"
  | BssConfigurationReport "configured_radio list"
  | AssociatedClients "bss_clients list"
  | AKMSuiteCapabilities "bytes list" "bytes list"
  | SupportedCipherSuites "bytes list"
  | APRadioBasicCapabilities bytes int "basic_operating_class list"
  | APHTCapabilities bytes int
  | APVHTCapabilities bytes int int int int
  | APHECapabilities bytes bytes int int
  | APWifi6Capabilities bytes "wifi6_role list"
  | DeviceInventory bytes bytes bytes "inventory_radio list"
  | APCapability int
  | Profile2APCapability int int int int
  | APRadioAdvancedCapabilities bytes int
  | MultiAPProfile int

fun payload_kind :: "payload \<Rightarrow> int" where
  "payload_kind (SupportedServices _) = 0x80"
| "payload_kind (SearchedServices _) = 0x81"
| "payload_kind (RadioIdentifier _) = 0x82"
| "payload_kind (APOperationalBss _) = 0x83"
| "payload_kind (BssConfigurationReport _) = 0xB7"
| "payload_kind (AssociatedClients _) = 0x84"
| "payload_kind (AKMSuiteCapabilities _ _) = 0xCC"
| "payload_kind (SupportedCipherSuites _) = 0xED"
| "payload_kind (APRadioBasicCapabilities _ _ _) = 0x85"
| "payload_kind (APHTCapabilities _ _) = 0x86"
| "payload_kind (APVHTCapabilities _ _ _ _ _) = 0x87"
| "payload_kind (APHECapabilities _ _ _ _) = 0x88"
| "payload_kind (APWifi6Capabilities _ _) = 0xAA"
| "payload_kind (DeviceInventory _ _ _ _) = 0xD4"
| "payload_kind (APCapability _) = 0xA1"
| "payload_kind (Profile2APCapability _ _ _ _) = 0xB4"
| "payload_kind (APRadioAdvancedCapabilities _ _) = 0xBE"
| "payload_kind (MultiAPProfile _) = 0xB3"

definition supported_known_services :: "int list \<Rightarrow> int list" where
  "supported_known_services services = filter (\<lambda>s. s \<in> set [0, 1]) services"

definition searched_known_services :: "int list \<Rightarrow> int list" where
  "searched_known_services services = filter (\<lambda>s. s = 0) services"

definition byte_counter_units :: "int \<Rightarrow> int" where
  "byte_counter_units flags = drop_bit 6 flags AND 3"

section \<open>Checks\<close>

definition octet_chk :: "int \<Rightarrow> bytes result" where
  "octet_chk v = (if \<not> (0 \<le> v \<and> v \<le> 255) then invalid else Inr [oct v])"

definition octets_chk :: "bytes \<Rightarrow> nat \<Rightarrow> bytes result" where
  "octets_chk v n = (if length v \<noteq> n then invalid else Inr v)"

definition u16_chk :: "int \<Rightarrow> bytes result" where
  "u16_chk v = (if \<not> (0 \<le> v \<and> v \<le> 65535) then invalid else Inr (to_be 2 v))"

definition inventory_string :: "bytes \<Rightarrow> bytes result" where
  "inventory_string raw =
     (if length raw > 64 then invalid
      else bindR (octet_chk (int (length raw))) (\<lambda>n. Inr (n @ raw)))"

definition count_chk :: "'a list \<Rightarrow> bytes result" where
  "count_chk items = octet_chk (int (length items))"

definition bounded :: "bytes \<Rightarrow> bytes result" where
  "bounded v = (if length v > MAX_VALUE_BYTES then unsupported else Inr v)"

definition effective_profile :: "int \<Rightarrow> int \<Rightarrow> int result" where
  "effective_profile profile receiver_profile =
     bindR (octet_chk profile) (\<lambda>_.
       if receiver_profile \<notin> set [1, 2, 3] then invalid
       else Inr (if profile \<in> set [1, 2, 3] then profile else receiver_profile))"

section \<open>Encoding\<close>

text \<open>\<open>a() + b()\<close>, and a loop that extends the value with what each item gives and checks the budget.\<close>

definition catR :: "bytes result \<Rightarrow> bytes result \<Rightarrow> bytes result" where
  "catR a b = bindR a (\<lambda>x. bindR b (\<lambda>y. Inr (x @ y)))"

definition joinR :: "('a \<Rightarrow> bytes result) \<Rightarrow> 'a list \<Rightarrow> bytes result" where
  "joinR f xs = bindR (mapR f xs) (\<lambda>parts. Inr (concat parts))"

definition extend_each :: "('a \<Rightarrow> bytes result) \<Rightarrow> bytes \<Rightarrow> 'a list \<Rightarrow> bytes result" where
  "extend_each f = foldR (\<lambda>acc x. bindR (f x) (\<lambda>b. bounded (acc @ b)))"

text \<open>A loop over groups: the head of the group, then its members one by one.\<close>

definition extend_groups ::
  "('g \<Rightarrow> bytes result) \<Rightarrow> ('a \<Rightarrow> bytes result) \<Rightarrow> ('g \<Rightarrow> 'a list) \<Rightarrow> bytes \<Rightarrow> 'g list \<Rightarrow> bytes result" where
  "extend_groups head item members =
     foldR (\<lambda>acc g. bindR (head g) (\<lambda>h. extend_each item (acc @ h) (members g)))"

definition encode_selectors :: "bytes list \<Rightarrow> bytes result" where
  "encode_selectors selectors = catR (count_chk selectors) (joinR (\<lambda>s. octets_chk s 4) selectors)"

definition encode_client :: "associated_client \<Rightarrow> bytes result" where
  "encode_client c =
     (if association_seconds c < 0 then invalid
      else catR (octets_chk (ac_mac c) 6) (u16_chk (min (association_seconds c) 65535)))"

definition encode_clients :: "bss_clients list \<Rightarrow> bytes result" where
  "encode_clients bsses =
     bindR (count_chk bsses) (\<lambda>n.
       extend_groups (\<lambda>bss. catR (octets_chk (bc_bssid bss) 6) (u16_chk (int (length (bc_clients bss)))))
         encode_client bc_clients n bsses)"

definition encode_configured_bss :: "configured_bss \<Rightarrow> bytes result" where
  "encode_configured_bss bss =
     (if length (cb_ssid bss) > 32 then invalid
      else bindR (octet_chk (cb_flags bss)) (\<lambda>_.
        if cb_flags bss AND 3 \<noteq> 0 then invalid
        else bindR (octets_chk (cb_bssid bss) 6) (\<lambda>bssid.
          Inr (bssid @ [oct (cb_flags bss), 0, oct (int (length (cb_ssid bss)))] @ cb_ssid bss))))"

definition encode_report :: "configured_radio list \<Rightarrow> bytes result" where
  "encode_report radios =
     bindR (count_chk radios) (\<lambda>n.
       extend_groups (\<lambda>radio. catR (octets_chk (cr_ruid radio) 6) (count_chk (cr_bsses radio)))
         encode_configured_bss cr_bsses n radios)"

definition encode_services :: "int list \<Rightarrow> int list \<Rightarrow> bytes result" where
  "encode_services allowed services =
     bindR (count_chk services) (\<lambda>n.
       foldR (\<lambda>acc service. bindR (octet_chk service) (\<lambda>b.
         if service \<notin> set allowed then invalid else Inr (acc @ b))) n services)"

definition encode_role :: "wifi6_role \<Rightarrow> bytes result" where
  "encode_role role =
     bindR (octet_chk (role_id role)) (\<lambda>_.
       if role_id role \<notin> set [0, 1] then invalid
       else bindR (encode_he_mcs (role_mcs role)) (\<lambda>mcs.
         let flags = push_bit 6 (role_id role) OR (if mhz160 (role_mcs role) \<noteq> None then 32 else 0)
               OR (if mhz80plus80 (role_mcs role) \<noteq> None then 16 else 0) OR int (length mcs)
         in bindR (octet_chk flags) (\<lambda>f.
           bindR (joinR octet_chk [beamforming_flags role, mu_mimo_users role, max_dl_ofdma_tx role,
               max_ul_ofdma_rx role, role_feature_flags role]) (\<lambda>tail.
             Inr (f @ mcs @ tail)))))"

definition encode_operating_class :: "basic_operating_class \<Rightarrow> bytes result" where
  "encode_operating_class op =
     bindR (octet_chk (operating_class op)) (\<lambda>ident.
       case map_of GLOBAL_OPERATING_CLASSES (operating_class op) of
         None \<Rightarrow> unsupported
       | Some (_, channels) \<Rightarrow>
           if \<not> (-128 \<le> max_eirp_dbm op \<and> max_eirp_dbm op \<le> 127) then invalid
           else bindR (count_chk (non_operable_channels op)) (\<lambda>n.
             bindR (joinR (\<lambda>channel. bindR (octet_chk channel) (\<lambda>b.
               if channel \<notin> set channels then invalid else Inr b)) (non_operable_channels op)) (\<lambda>tail.
                 Inr (ident @ [oct (max_eirp_dbm op)] @ n @ tail))))"

definition encode_operational_bss :: "operational_bss \<Rightarrow> bytes result" where
  "encode_operational_bss bss =
     bindR (octets_chk (ap_mac bss) 6) (\<lambda>m.
       if length (op_ssid bss) > 32 then invalid
       else bindR (octet_chk (int (length (op_ssid bss)))) (\<lambda>n. Inr (m @ n @ op_ssid bss)))"

definition encode_inventory_radio :: "inventory_radio \<Rightarrow> bytes result" where
  "encode_inventory_radio radio = catR (octets_chk (inv_ruid radio) 6) (inventory_string (chipset_vendor radio))"

fun encode_body :: "payload \<Rightarrow> bytes result" where
  "encode_body (AKMSuiteCapabilities backhaul fronthaul) = joinR encode_selectors [backhaul, fronthaul]"
| "encode_body (SupportedCipherSuites selectors) = joinR encode_selectors [selectors]"
| "encode_body (AssociatedClients bsses) = encode_clients bsses"
| "encode_body (BssConfigurationReport radios) = encode_report radios"
| "encode_body (SupportedServices services) = encode_services [0, 1] services"
| "encode_body (SearchedServices services) = encode_services [0] services"
| "encode_body (RadioIdentifier ruid) = octets_chk ruid 6"
| "encode_body (MultiAPProfile profile) =
     bindR (octet_chk profile) (\<lambda>v. if profile \<notin> set [1, 2, 3] then invalid else Inr v)"
| "encode_body (APHTCapabilities ruid flags) =
     bindR (catR (octets_chk ruid 6) (octet_chk flags)) (\<lambda>v. if flags AND 1 \<noteq> 0 then invalid else Inr v)"
| "encode_body (APVHTCapabilities ruid tx rx streams features) =
     bindR (octets_chk ruid 6) (\<lambda>r.
       bindR (catR (u16_chk tx) (u16_chk rx)) (\<lambda>m.
         bindR (catR (octet_chk streams) (octet_chk features)) (\<lambda>f.
           if features AND 15 \<noteq> 0 then invalid else Inr (r @ m @ f))))"
| "encode_body (APHECapabilities ruid mcs streams features) =
     bindR (octets_chk ruid 6) (\<lambda>r.
       if length mcs \<notin> set [4, 8, 12] then invalid
       else bindR (octet_chk (int (length mcs))) (\<lambda>n.
         bindR (catR (octet_chk streams) (octet_chk features)) (\<lambda>f.
           if features AND 1 \<noteq> 0 then invalid
           else if length mcs \<noteq> 4 + 4 * of_bool (streams AND 1 \<noteq> 0) + 4 * of_bool (streams AND 2 \<noteq> 0) then invalid
           else Inr (r @ n @ mcs @ f))))"
| "encode_body (DeviceInventory serial version env radios) =
     bindR (catR (inventory_string serial) (catR (inventory_string version)
       (catR (inventory_string env) (count_chk radios)))) (\<lambda>head.
         if radios = [] then invalid else extend_each encode_inventory_radio head radios)"
| "encode_body (APWifi6Capabilities ruid roles) =
     bindR (catR (octets_chk ruid 6) (count_chk roles)) (\<lambda>head. extend_each encode_role head roles)"
| "encode_body (APCapability flags) =
     bindR (octet_chk flags) (\<lambda>f. if flags AND 7 \<noteq> 0 then invalid else Inr f)"
| "encode_body (APRadioAdvancedCapabilities ruid flags) =
     bindR (octet_chk flags) (\<lambda>f.
       if flags AND 1 \<noteq> 0 then invalid else bindR (octets_chk ruid 6) (\<lambda>r. Inr (r @ f)))"
| "encode_body (Profile2APCapability rules reserved flags vids) =
     bindR (octet_chk flags) (\<lambda>f.
       if flags AND 7 \<noteq> 0 then invalid
       else bindR (catR (octet_chk rules) (catR (octet_chk reserved) (catR (Inr f) (octet_chk vids)))) (\<lambda>v.
         if reserved \<noteq> 0 \<or> byte_counter_units flags = 3 then invalid else Inr v))"
| "encode_body (APRadioBasicCapabilities ruid max_bss classes) =
     bindR (catR (octets_chk ruid 6) (octet_chk max_bss)) (\<lambda>head.
       if max_bss = 0 then invalid
       else bindR (count_chk classes) (\<lambda>n. extend_each encode_operating_class (head @ n) classes))"
| "encode_body (APOperationalBss radios) =
     bindR (count_chk radios) (\<lambda>n.
       extend_groups (\<lambda>radio. catR (octets_chk (op_ruid radio) 6) (count_chk (op_bsses radio)))
         encode_operational_bss op_bsses n radios)"

definition encode_value :: "payload \<Rightarrow> bytes result" where
  "encode_value p = bindR (encode_body p) bounded"

section \<open>Decoding\<close>

text \<open>\<open>tuple(read() for _ in range(reader.octet()))\<close>, and the readers of the parts. The octets of a list of
  small integers are \<open>tuple(reader.take(reader.octet()))\<close>.\<close>

definition counted :: "'a parser \<Rightarrow> 'a list parser" where
  "counted p = thenP get_octet (\<lambda>n. timesP (nat n) p)"

definition get_limited :: "int \<Rightarrow> bytes parser" where
  "get_limited limit = thenP get_octet (\<lambda>n. if n > limit then failP (EmosaError INVALID_INPUT) else get_bytes (nat n))"

definition get_ssid :: "bytes parser" where "get_ssid = get_limited 32"

definition get_inventory_string :: "bytes parser" where "get_inventory_string = get_limited 64"

definition get_ints :: "int list parser" where
  "get_ints = thenP get_octet (\<lambda>n. thenP (get_bytes (nat n)) (\<lambda>bs. returnP (map val bs)))"

definition get_client :: "associated_client parser" where
  "get_client = thenP (get_bytes 6) (\<lambda>m. thenP get_u16 (\<lambda>t. returnP \<lparr>ac_mac = m, association_seconds = t\<rparr>))"

definition get_bss_clients :: "bss_clients parser" where
  "get_bss_clients = thenP (get_bytes 6) (\<lambda>bssid. thenP get_u16 (\<lambda>n.
     thenP (timesP (nat n) get_client) (\<lambda>cs. returnP \<lparr>bc_bssid = bssid, bc_clients = cs\<rparr>)))"

definition get_configured_bss :: "configured_bss parser" where
  "get_configured_bss = thenP (get_bytes 6) (\<lambda>bssid. thenP get_octet (\<lambda>flags. thenP get_octet (\<lambda>_.
     thenP get_ssid (\<lambda>ssid. returnP \<lparr>cb_bssid = bssid, cb_flags = flags AND 0xFC, cb_ssid = ssid\<rparr>))))"

definition get_configured_radio :: "configured_radio parser" where
  "get_configured_radio = thenP (get_bytes 6) (\<lambda>ruid. thenP (counted get_configured_bss) (\<lambda>bsses.
     returnP \<lparr>cr_ruid = ruid, cr_bsses = bsses\<rparr>))"

definition get_operational_bss :: "operational_bss parser" where
  "get_operational_bss = thenP (get_bytes 6) (\<lambda>m. thenP get_ssid (\<lambda>ssid. returnP \<lparr>ap_mac = m, op_ssid = ssid\<rparr>))"

definition get_operational_radio :: "operational_radio parser" where
  "get_operational_radio = thenP (get_bytes 6) (\<lambda>ruid. thenP (counted get_operational_bss) (\<lambda>bsses.
     returnP \<lparr>op_ruid = ruid, op_bsses = bsses\<rparr>))"

definition get_inventory_radio :: "inventory_radio parser" where
  "get_inventory_radio = thenP (get_bytes 6) (\<lambda>ruid. thenP get_inventory_string (\<lambda>vendor.
     returnP \<lparr>inv_ruid = ruid, chipset_vendor = vendor\<rparr>))"

definition get_operating_class :: "basic_operating_class parser" where
  "get_operating_class = thenP get_octet (\<lambda>ident. thenP (get_bytes 1) (\<lambda>power. thenP get_ints (\<lambda>channels.
     returnP \<lparr>operating_class = ident, max_eirp_dbm = sint (hd power), non_operable_channels = channels\<rparr>)))"

definition get_role :: "wifi6_role parser" where
  "get_role = thenP get_octet (\<lambda>flags. thenP (get_bytes (nat (flags AND 15))) (\<lambda>raw.
     case decode_he_mcs raw (flags AND 32 \<noteq> 0) (flags AND 16 \<noteq> 0) of
       Inl e \<Rightarrow> failP e
     | Inr mcs \<Rightarrow>
         thenP get_octet (\<lambda>a. thenP get_octet (\<lambda>b. thenP get_octet (\<lambda>c. thenP get_octet (\<lambda>d. thenP get_octet (\<lambda>e.
           returnP \<lparr>role_id = drop_bit 6 flags, role_mcs = mcs, beamforming_flags = a, mu_mimo_users = b,
                    max_dl_ofdma_tx = c, max_ul_ofdma_rx = d, role_feature_flags = e\<rparr>)))))))"

definition decode_body :: "int \<Rightarrow> payload parser" where
  "decode_body k =
     (if k = 0xCC then
        thenP (counted (get_bytes 4)) (\<lambda>b. thenP (counted (get_bytes 4)) (\<lambda>f. returnP (AKMSuiteCapabilities b f)))
      else if k = 0xED then thenP (counted (get_bytes 4)) (\<lambda>s. returnP (SupportedCipherSuites s))
      else if k = 0x84 then thenP (counted get_bss_clients) (\<lambda>b. returnP (AssociatedClients b))
      else if k = 0xB7 then thenP (counted get_configured_radio) (\<lambda>r. returnP (BssConfigurationReport r))
      else if k = 0x80 \<or> k = 0x81 then
        thenP get_ints (\<lambda>s. returnP (if k = 0x80 then SupportedServices s else SearchedServices s))
      else if k = 0x82 then thenP (get_bytes 6) (\<lambda>r. returnP (RadioIdentifier r))
      else if k = 0x83 then thenP (counted get_operational_radio) (\<lambda>r. returnP (APOperationalBss r))
      else if k = 0xB3 then thenP get_octet (\<lambda>p. returnP (MultiAPProfile p))
      else if k = 0xA1 then thenP get_octet (\<lambda>f. returnP (APCapability f))
      else if k = 0xB4 then
        thenP get_octet (\<lambda>a. thenP get_octet (\<lambda>b. thenP get_octet (\<lambda>c. thenP get_octet (\<lambda>d.
          returnP (Profile2APCapability a b c d)))))
      else if k = 0xBE then
        thenP (get_bytes 6) (\<lambda>r. thenP get_octet (\<lambda>f. returnP (APRadioAdvancedCapabilities r f)))
      else if k = 0x86 then thenP (get_bytes 6) (\<lambda>r. thenP get_octet (\<lambda>f. returnP (APHTCapabilities r f)))
      else if k = 0x87 then
        thenP (get_bytes 6) (\<lambda>r. thenP get_u16 (\<lambda>tx. thenP get_u16 (\<lambda>rx. thenP get_octet (\<lambda>s. thenP get_octet (\<lambda>f.
          returnP (APVHTCapabilities r tx rx s f))))))
      else if k = 0x88 then
        thenP (get_bytes 6) (\<lambda>r. thenP get_octet (\<lambda>n.
          if n \<notin> set [4, 8, 12] then failP (EmosaError INVALID_INPUT)
          else thenP (get_bytes (nat n)) (\<lambda>mcs. thenP get_octet (\<lambda>s. thenP get_octet (\<lambda>f.
            returnP (APHECapabilities r mcs s f))))))
      else if k = 0xAA then
        thenP (get_bytes 6) (\<lambda>r. thenP (counted get_role) (\<lambda>roles. returnP (APWifi6Capabilities r roles)))
      else if k = 0xD4 then
        thenP get_inventory_string (\<lambda>serial. thenP get_inventory_string (\<lambda>version. thenP get_inventory_string (\<lambda>env.
          thenP get_octet (\<lambda>n.
            if n = 0 then failP (EmosaError INVALID_INPUT)
            else thenP (timesP (nat n) get_inventory_radio) (\<lambda>radios. returnP (DeviceInventory serial version env radios))))))
      else if k = 0x85 then
        thenP (get_bytes 6) (\<lambda>r. thenP get_octet (\<lambda>m.
          if m = 0 then failP (EmosaError INVALID_INPUT)
          else thenP (counted get_operating_class) (\<lambda>classes. returnP (APRadioBasicCapabilities r m classes))))
      else failP (EmosaError UNSUPPORTED_OPERATION))"

definition decode_value :: "int \<Rightarrow> bytes \<Rightarrow> payload result" where
  "decode_value k v =
     bindR (octet_chk k) (\<lambda>_. bindR (bounded v) (\<lambda>v.
       bindR (decode_body k v) (\<lambda>(p, rest). if rest \<noteq> [] then invalid else Inr p)))"

section \<open>Layouts of the parts\<close>

definition put_counted :: "('a \<Rightarrow> bytes) \<Rightarrow> 'a list \<Rightarrow> bytes" where
  "put_counted put xs = oct (int (length xs)) # concat (map put xs)"

definition put_limited :: "bytes \<Rightarrow> bytes" where
  "put_limited bs = oct (int (length bs)) # bs"

definition put_client :: "associated_client \<Rightarrow> bytes" where
  [put_defs]: "put_client c = ac_mac c @ u16 (association_seconds c)"

definition put_bss_clients :: "bss_clients \<Rightarrow> bytes" where
  [put_defs]: "put_bss_clients b = bc_bssid b @ u16 (int (length (bc_clients b))) @ concat (map put_client (bc_clients b))"

definition put_configured_bss :: "configured_bss \<Rightarrow> bytes" where
  [put_defs]: "put_configured_bss b = cb_bssid b @ oct (cb_flags b) # 0 # put_limited (cb_ssid b)"

definition put_configured_radio :: "configured_radio \<Rightarrow> bytes" where
  [put_defs]: "put_configured_radio r = cr_ruid r @ put_counted put_configured_bss (cr_bsses r)"

definition put_operational_bss :: "operational_bss \<Rightarrow> bytes" where
  [put_defs]: "put_operational_bss b = ap_mac b @ put_limited (op_ssid b)"

definition put_operational_radio :: "operational_radio \<Rightarrow> bytes" where
  [put_defs]: "put_operational_radio r = op_ruid r @ put_counted put_operational_bss (op_bsses r)"

definition put_inventory_radio :: "inventory_radio \<Rightarrow> bytes" where
  [put_defs]: "put_inventory_radio r = inv_ruid r @ put_limited (chipset_vendor r)"

definition put_ints :: "int list \<Rightarrow> bytes" where
  [put_defs]: "put_ints vs = oct (int (length vs)) # map oct vs"

definition put_operating_class :: "basic_operating_class \<Rightarrow> bytes" where
  [put_defs]: "put_operating_class c = oct (operating_class c) # oct (max_eirp_dbm c) # put_ints (non_operable_channels c)"

definition role_flags :: "wifi6_role \<Rightarrow> int" where
  "role_flags r = 64 * role_id r + 32 * of_bool (mhz160 (role_mcs r) \<noteq> None) + 16 * of_bool (mhz80plus80 (role_mcs r) \<noteq> None)
     + 4 * int (length (width_pairs (role_mcs r)))"

definition put_role :: "wifi6_role \<Rightarrow> bytes" where
  [put_defs]: "put_role r = oct (role_flags r) # concat (map put_pair (width_pairs (role_mcs r))) @
     [oct (beamforming_flags r), oct (mu_mimo_users r), oct (max_dl_ofdma_tx r), oct (max_ul_ofdma_rx r),
      oct (role_feature_flags r)]"

section \<open>Reading the parts\<close>

context exact_codec
begin

lemma counted_get_put:
  "length xs < 256 \<Longrightarrow> list_all ok xs \<Longrightarrow> counted get (put_counted put xs @ rest) = Inr (xs, rest)"
  by (simp add: counted_def put_counted_def thenP_def codec_simps times_get_put)

lemma counted_put_get:
  "counted get bs = Inr (xs, rest) \<Longrightarrow> length xs < 256 \<and> list_all ok xs \<and> bs = put_counted put xs @ rest"
  by (auto simp: counted_def put_counted_def read_iffs times_get_iff)

lemma counted_iff:
  "counted get bs = Inr (xs, rest) \<longleftrightarrow> length xs < 256 \<and> list_all ok xs \<and> bs = put_counted put xs @ rest"
  using counted_get_put counted_put_get by blast

end

lemma get_limited_put [codec_simps]:
  "int (length xs) \<le> limit \<Longrightarrow> limit < 256 \<Longrightarrow> get_limited limit (put_limited xs @ rest) = Inr (xs, rest)"
  by (simp add: get_limited_def put_limited_def thenP_def codec_simps)

lemma put_get_limited [result_simps]:
  "limit < 256 \<Longrightarrow> get_limited limit bs = Inr (xs, rest) \<longleftrightarrow> int (length xs) \<le> limit \<and> bs = put_limited xs @ rest"
  using get_limited_put [of xs limit rest]
  by (auto simp: get_limited_def put_limited_def read_iffs split: if_splits)

lemma get_ints_put [codec_simps]:
  assumes "length vs < 256" "list_all (\<lambda>v. 0 \<le> v \<and> v < 256) vs"
  shows "get_ints (put_ints vs @ rest) = Inr (vs, rest)"
proof -
  have "map val (map oct vs) = vs" using assms(2) by (induction vs) auto
  with assms(1) show ?thesis by (simp add: get_ints_def put_ints_def thenP_def codec_simps)
qed

lemma put_get_ints:
  "get_ints bs = Inr (vs, rest) \<Longrightarrow> length vs < 256 \<and> list_all (\<lambda>v. 0 \<le> v \<and> v < 256) vs \<and> bs = put_ints vs @ rest"
  by (auto simp: get_ints_def put_ints_def read_iffs list_all_iff comp_def)

definition client_ok :: "associated_client \<Rightarrow> bool" where
  "client_ok c \<longleftrightarrow> length (ac_mac c) = 6 \<and> 0 \<le> association_seconds c \<and> association_seconds c < 65536"

definition bss_clients_ok :: "bss_clients \<Rightarrow> bool" where
  "bss_clients_ok b \<longleftrightarrow> length (bc_bssid b) = 6 \<and> length (bc_clients b) < 65536 \<and> list_all client_ok (bc_clients b)"

definition operational_bss_ok :: "operational_bss \<Rightarrow> bool" where
  "operational_bss_ok b \<longleftrightarrow> length (ap_mac b) = 6 \<and> length (op_ssid b) \<le> 32"

definition operational_radio_ok :: "operational_radio \<Rightarrow> bool" where
  "operational_radio_ok r \<longleftrightarrow> length (op_ruid r) = 6 \<and> length (op_bsses r) < 256 \<and> list_all operational_bss_ok (op_bsses r)"

definition inventory_radio_ok :: "inventory_radio \<Rightarrow> bool" where
  "inventory_radio_ok r \<longleftrightarrow> length (inv_ruid r) = 6 \<and> length (chipset_vendor r) \<le> 64"

definition operating_class_ok :: "basic_operating_class \<Rightarrow> bool" where
  "operating_class_ok c \<longleftrightarrow> 0 \<le> operating_class c \<and> operating_class c < 256 \<and>
     -128 \<le> max_eirp_dbm c \<and> max_eirp_dbm c \<le> 127 \<and>
     length (non_operable_channels c) < 256 \<and> list_all (\<lambda>v. 0 \<le> v \<and> v < 256) (non_operable_channels c)"

definition octets_ok :: "int list \<Rightarrow> bool" where
  "octets_ok vs \<longleftrightarrow> (\<forall>v \<in> set vs. 0 \<le> v \<and> v < 256)"

definition role_ok :: "wifi6_role \<Rightarrow> bool" where
  "role_ok r \<longleftrightarrow> 0 \<le> role_id r \<and> role_id r < 4 \<and> list_all pair_ok (width_pairs (role_mcs r)) \<and>
     octets_ok [beamforming_flags r, mu_mimo_users r, max_dl_ofdma_tx r, max_ul_ofdma_rx r, role_feature_flags r]"

interpretation client: exact_codec put_client get_client client_ok
proof
  show "get_client (put_client x @ rest) = Inr (x, rest)" if "client_ok x" for x rest
    using that by (simp add: get_client_def put_client_def client_ok_def thenP_def codec_simps)
  show "client_ok x \<and> bs = put_client x @ rest" if "get_client bs = Inr (x, rest)" for bs x rest
    using that by (auto simp: get_client_def put_client_def client_ok_def read_iffs)
qed

interpretation bss_clients: exact_codec put_bss_clients get_bss_clients bss_clients_ok
proof
  show "get_bss_clients (put_bss_clients x @ rest) = Inr (x, rest)" if "bss_clients_ok x" for x rest
    using that by (simp add: get_bss_clients_def put_bss_clients_def bss_clients_ok_def thenP_def codec_simps client.times_get_put)
  show "bss_clients_ok x \<and> bs = put_bss_clients x @ rest" if "get_bss_clients bs = Inr (x, rest)" for bs x rest
    using that by (auto simp: get_bss_clients_def put_bss_clients_def bss_clients_ok_def read_iffs client.times_get_iff)
qed

interpretation operational_bss: exact_codec put_operational_bss get_operational_bss operational_bss_ok
proof
  show "get_operational_bss (put_operational_bss x @ rest) = Inr (x, rest)" if "operational_bss_ok x" for x rest
    using that by (simp add: get_operational_bss_def put_operational_bss_def operational_bss_ok_def thenP_def codec_simps get_ssid_def)
  show "operational_bss_ok x \<and> bs = put_operational_bss x @ rest" if "get_operational_bss bs = Inr (x, rest)" for bs x rest
    using that by (auto simp: get_operational_bss_def put_operational_bss_def operational_bss_ok_def read_iffs get_ssid_def put_get_limited)
qed

interpretation operational_radio: exact_codec put_operational_radio get_operational_radio operational_radio_ok
proof
  show "get_operational_radio (put_operational_radio x @ rest) = Inr (x, rest)" if "operational_radio_ok x" for x rest
    using that by (simp add: get_operational_radio_def put_operational_radio_def operational_radio_ok_def thenP_def codec_simps operational_bss.counted_get_put)
  show "operational_radio_ok x \<and> bs = put_operational_radio x @ rest" if "get_operational_radio bs = Inr (x, rest)" for bs x rest
    using that by (auto simp: get_operational_radio_def put_operational_radio_def operational_radio_ok_def read_iffs operational_bss.counted_iff)
qed

interpretation inventory_radio: exact_codec put_inventory_radio get_inventory_radio inventory_radio_ok
proof
  show "get_inventory_radio (put_inventory_radio x @ rest) = Inr (x, rest)" if "inventory_radio_ok x" for x rest
    using that by (simp add: get_inventory_radio_def put_inventory_radio_def inventory_radio_ok_def thenP_def codec_simps get_inventory_string_def)
  show "inventory_radio_ok x \<and> bs = put_inventory_radio x @ rest" if "get_inventory_radio bs = Inr (x, rest)" for bs x rest
    using that by (auto simp: get_inventory_radio_def put_inventory_radio_def inventory_radio_ok_def read_iffs get_inventory_string_def put_get_limited)
qed

lemma sint_oct: "-128 \<le> v \<Longrightarrow> v \<le> 127 \<Longrightarrow> sint (oct v) = v"
  using signed_take_bit_int_eq_self [of 7 v] by (simp add: sint_uint unsigned_of_int signed_take_bit_take_bit)

lemma oct_sint: "oct (sint (b :: octet)) = b"
  by simp

lemma sint_range: "-128 \<le> sint (b :: octet) \<and> sint b \<le> 127"
  using sint_greater_eq [of b] sint_less [of b] by simp

interpretation operating_class: exact_codec put_operating_class get_operating_class operating_class_ok
proof
  show "get_operating_class (put_operating_class x @ rest) = Inr (x, rest)" if "operating_class_ok x" for x rest
    using that by (simp add: get_operating_class_def put_operating_class_def operating_class_ok_def thenP_def codec_simps get_bytes_def sint_oct)
  show "operating_class_ok x \<and> bs = put_operating_class x @ rest" if "get_operating_class bs = Inr (x, rest)" for bs x rest
    using that by (auto simp: get_operating_class_def put_operating_class_def operating_class_ok_def read_iffs length_Suc_conv sint_range dest!: put_get_ints)
qed

lemma and_15: "(v :: int) AND 15 = v mod 16"
  using and_mask_mod [of v 4] by simp

lemma and_32: "(v :: int) AND 32 \<noteq> 0 \<longleftrightarrow> odd (v div 32)"
  using and_exp_eq_0_iff_not_bit [of v 5] by (simp add: bit_iff_odd)

lemma and_16: "(v :: int) AND 16 \<noteq> 0 \<longleftrightarrow> odd (v div 16)"
  using and_exp_eq_0_iff_not_bit [of v 4] by (simp add: bit_iff_odd)

lemma flags_algebra:
  "(f :: int) = 16 * a + m \<Longrightarrow> a = 2 * b + x \<Longrightarrow> b = 2 * c + y \<Longrightarrow> f = 64 * c + 32 * y + 16 * x + m"
  by simp

lemma flags_split:
  "(f :: int) = 64 * drop_bit 6 f + 32 * of_bool (f AND 32 \<noteq> 0) + 16 * of_bool (f AND 16 \<noteq> 0) + (f AND 15)"
proof -
  have odd: "of_bool (odd n) = n mod 2" for n :: int by (simp add: mod2_eq_if)
  have half: "f div k = 2 * (f div (k * 2)) + f div k mod 2" if "0 < k" for k
    using that by (simp add: zdiv_zmult2_eq)
  have "f = 16 * (f div 16) + f mod 16" by simp
  moreover have "f div 16 = 2 * (f div 32) + f div 16 mod 2" using half [of 16] by simp
  moreover have "f div 32 = 2 * (f div 64) + f div 32 mod 2" using half [of 32] by simp
  ultimately have "f = 64 * (f div 64) + 32 * (f div 32 mod 2) + 16 * (f div 16 mod 2) + f mod 16"
    by (rule flags_algebra)
  then show ?thesis unfolding and_32 and_16 and_15 odd drop_bit_eq_div by simp
qed

lemma role_flags_split:
  assumes "0 \<le> role_id r" "role_id r < 4"
  shows "drop_bit 6 (role_flags r) = role_id r \<and> (role_flags r AND 32 \<noteq> 0) = (mhz160 (role_mcs r) \<noteq> None) \<and>
    (role_flags r AND 16 \<noteq> 0) = (mhz80plus80 (role_mcs r) \<noteq> None) \<and>
    role_flags r AND 15 = 4 * int (length (width_pairs (role_mcs r))) \<and> 0 \<le> role_flags r \<and> role_flags r < 256"
proof -
  have "role_id r \<in> {0, 1, 2, 3}" using assms by auto
  then show ?thesis
    unfolding role_flags_def and_32 and_16 and_15 drop_bit_eq_div
    by (cases "mhz160 (role_mcs r)"; cases "mhz80plus80 (role_mcs r)") (auto simp: width_pairs_def)
qed

lemma length_width_pairs:
  "length (width_pairs v) = 1 + of_bool (mhz160 v \<noteq> None) + of_bool (mhz80plus80 v \<noteq> None)"
  by (simp add: width_pairs_def split: option.splits)

interpretation role: exact_codec put_role get_role role_ok
proof
  show "get_role (put_role r @ rest) = Inr (r, rest)" if "role_ok r" for r rest
  proof -
    have "encode_he_mcs (role_mcs r) = Inr (concat (map put_pair (width_pairs (role_mcs r))))"
      using that by (simp add: result_simps role_ok_def)
    note dec = decode_encode_he_mcs [OF this]
    show ?thesis
      using that dec role_flags_split [of r]
      by (simp add: get_role_def put_role_def role_ok_def octets_ok_def thenP_def codec_simps nat_mult_distrib)
  qed
  show "role_ok r \<and> bs = put_role r @ rest" if get: "get_role bs = Inr (r, rest)" for bs r rest
  proof -
    obtain f raw mid where f: "0 \<le> f" "f < 256" and bs: "bs = oct f # raw @ mid" and len: "length raw = nat (f AND 15)"
      and dec: "decode_he_mcs raw (f AND 32 \<noteq> 0) (f AND 16 \<noteq> 0) = Inr (role_mcs r)" and "role_id r = drop_bit 6 f"
      and "octets_ok [beamforming_flags r, mu_mimo_users r, max_dl_ofdma_tx r, max_ul_ofdma_rx r, role_feature_flags r]"
      and "mid = [oct (beamforming_flags r), oct (mu_mimo_users r), oct (max_dl_ofdma_tx r), oct (max_ul_ofdma_rx r),
        oct (role_feature_flags r)] @ rest"
      using get by (auto simp: get_role_def read_iffs octets_ok_def)
    moreover from encode_decode_he_mcs [OF dec] have
      "list_all pair_ok (width_pairs (role_mcs r))" "raw = concat (map put_pair (width_pairs (role_mcs r)))"
      "(f AND 32 \<noteq> 0) = (mhz160 (role_mcs r) \<noteq> None)" "(f AND 16 \<noteq> 0) = (mhz80plus80 (role_mcs r) \<noteq> None)"
      by (simp_all add: result_simps)
    moreover from this len have "f AND 15 = 4 * int (length (width_pairs (role_mcs r)))" by (simp add: and_15)
    moreover have "0 \<le> f div 64" "f div 64 < 4" using f by simp_all
    ultimately show ?thesis
      using flags_split [of f] by (simp add: role_ok_def put_role_def role_flags_def drop_bit_eq_div)
  qed
qed

section \<open>What the encoder writes\<close>

lemma octet_chk_eq_Inr [result_simps]: "octet_chk v = Inr b \<longleftrightarrow> 0 \<le> v \<and> v < 256 \<and> b = [oct v]"
  by (auto simp: octet_chk_def)

lemma octets_chk_eq_Inr [result_simps]: "octets_chk v n = Inr b \<longleftrightarrow> length v = n \<and> b = v"
  by (auto simp: octets_chk_def)

lemma u16_chk_eq_Inr [result_simps]: "u16_chk v = Inr b \<longleftrightarrow> 0 \<le> v \<and> v < 65536 \<and> b = u16 v"
  by (auto simp: u16_chk_def)

lemma count_chk_eq_Inr [result_simps]: "count_chk xs = Inr b \<longleftrightarrow> length xs < 256 \<and> b = [oct (int (length xs))]"
  by (auto simp: count_chk_def result_simps)

lemma inventory_string_eq_Inr [result_simps]: "inventory_string v = Inr b \<longleftrightarrow> length v \<le> 64 \<and> b = put_limited v"
  by (auto simp: inventory_string_def put_limited_def result_simps)

lemma bounded_eq_Inr [result_simps]: "bounded v = Inr b \<longleftrightarrow> length v \<le> MAX_VALUE_BYTES \<and> b = v"
  by (auto simp: bounded_def)

lemma catR_eq_Inr [result_simps]: "catR a b = Inr r \<longleftrightarrow> (\<exists>x y. a = Inr x \<and> b = Inr y \<and> r = x @ y)"
  by (auto simp: catR_def result_simps)

text \<open>A loop whose body appends the layout of its item appends the layouts of all items.\<close>

lemma foldR_layout:
  assumes "foldR g acc xs = Inr r"
    and "\<And>acc x r. x \<in> set xs \<Longrightarrow> g acc x = Inr r \<Longrightarrow> ok x \<and> r = acc @ put x"
  shows "list_all ok xs \<and> r = acc @ concat (map put xs)"
  using assms
proof (induction xs arbitrary: acc)
  case (Cons x xs)
  then obtain s where s: "g acc x = Inr s" "foldR g s xs = Inr r" by (auto simp: result_simps)
  have "ok x \<and> s = acc @ put x" using Cons.prems(2) s(1) by simp
  moreover have "list_all ok xs \<and> r = s @ concat (map put xs)"
    using s(2) Cons.prems(2) by (intro Cons.IH) simp_all
  ultimately show ?case by simp
qed simp

lemma extend_each_layout:
  assumes "extend_each f acc xs = Inr r" and "\<And>x b. x \<in> set xs \<Longrightarrow> f x = Inr b \<Longrightarrow> ok x \<and> b = put x"
  shows "list_all ok xs \<and> r = acc @ concat (map put xs)"
  using assms(1) unfolding extend_each_def by (rule foldR_layout) (use assms(2) in \<open>auto simp: result_simps\<close>)

lemma extend_groups_layout:
  assumes "extend_groups head item members acc gs = Inr r"
    and "\<And>g h. head g = Inr h \<Longrightarrow> hok g \<and> h = hput g" and "\<And>x b. item x = Inr b \<Longrightarrow> ok x \<and> b = put x"
  shows "list_all (\<lambda>g. hok g \<and> list_all ok (members g)) gs \<and>
    r = acc @ concat (map (\<lambda>g. hput g @ concat (map put (members g))) gs)"
  using assms(1) unfolding extend_groups_def
proof (rule foldR_layout)
  show "(hok g \<and> list_all ok (members g)) \<and> r = acc @ hput g @ concat (map put (members g))"
    if "bindR (head g) (\<lambda>h. extend_each item (acc @ h) (members g)) = Inr r" for acc g r
    using that assms(2) extend_each_layout [of item "acc @ hput g" "members g" r ok put, OF _ assms(3)]
    by (auto simp: result_simps)
qed

lemma joinR_layout:
  assumes "joinR f xs = Inr r" and "\<And>x b. x \<in> set xs \<Longrightarrow> f x = Inr b \<Longrightarrow> ok x \<and> b = put x"
  shows "list_all ok xs \<and> r = concat (map put xs)"
proof -
  obtain bs where bs: "list_all2 (\<lambda>x b. f x = Inr b) xs bs" "r = concat bs"
    using assms(1) by (auto simp: joinR_def result_simps)
  from bs(1) assms(2) have "list_all ok xs \<and> bs = map put xs"
    by (induction rule: list_all2_induct) auto
  with bs(2) show ?thesis by simp
qed

definition saturate_client :: "associated_client \<Rightarrow> associated_client" where
  "saturate_client c = c\<lparr>association_seconds := min (association_seconds c) 65535\<rparr>"

definition saturate_bss :: "bss_clients \<Rightarrow> bss_clients" where
  "saturate_bss b = b\<lparr>bc_clients := map saturate_client (bc_clients b)\<rparr>"

definition configured_bss_ok :: "configured_bss \<Rightarrow> bool" where
  "configured_bss_ok b \<longleftrightarrow> length (cb_bssid b) = 6 \<and> 0 \<le> cb_flags b \<and> cb_flags b < 256 \<and> cb_flags b AND 3 = 0 \<and>
     length (cb_ssid b) \<le> 32"

definition configured_radio_ok :: "configured_radio \<Rightarrow> bool" where
  "configured_radio_ok r \<longleftrightarrow> length (cr_ruid r) = 6 \<and> length (cr_bsses r) < 256 \<and> list_all configured_bss_ok (cr_bsses r)"

lemma encode_selectors_layout:
  assumes "encode_selectors xs = Inr b"
  shows "length xs < 256 \<and> list_all (\<lambda>s. length s = 4) xs \<and> b = put_counted (\<lambda>s. s) xs"
proof -
  obtain y where "joinR (\<lambda>s. octets_chk s 4) xs = Inr y" "length xs < 256" "b = oct (int (length xs)) # y"
    using assms by (auto simp: encode_selectors_def result_simps)
  with joinR_layout [of "\<lambda>s. octets_chk s 4" xs y "\<lambda>s. length s = 4" "\<lambda>s. s"] show ?thesis
    by (simp add: put_counted_def result_simps)
qed

lemma encode_client_layout: "encode_client c = Inr b \<Longrightarrow> client_ok (saturate_client c) \<and> b = put_client (saturate_client c)"
  by (auto simp: encode_client_def client_ok_def saturate_client_def put_client_def result_simps)

lemma encode_clients_layout:
  assumes "encode_clients bsses = Inr b"
  shows "length bsses < 256 \<and> list_all bss_clients_ok (map saturate_bss bsses) \<and>
    b = put_counted put_bss_clients (map saturate_bss bsses)"
proof -
  have n: "length bsses < 256" and groups: "extend_groups (\<lambda>bss. catR (octets_chk (bc_bssid bss) 6) (u16_chk (int (length (bc_clients bss)))))
         encode_client bc_clients [oct (int (length bsses))] bsses = Inr b"
    using assms by (auto simp: encode_clients_def result_simps)
  have "list_all (\<lambda>g. (length (bc_bssid g) = 6 \<and> length (bc_clients g) < 65536) \<and>
        list_all (\<lambda>c. client_ok (saturate_client c)) (bc_clients g)) bsses \<and>
      b = [oct (int (length bsses))] @ concat (map (\<lambda>g. (bc_bssid g @ u16 (int (length (bc_clients g)))) @
        concat (map (\<lambda>c. put_client (saturate_client c)) (bc_clients g))) bsses)"
    using groups by (rule extend_groups_layout) (auto simp: result_simps dest: encode_client_layout)
  with n show ?thesis
    by (simp add: put_counted_def list_all_iff comp_def bss_clients_ok_def saturate_bss_def put_bss_clients_def)
qed

lemma encode_configured_bss_layout:
  "encode_configured_bss x = Inr b \<Longrightarrow> configured_bss_ok x \<and> b = put_configured_bss x"
  by (auto simp: encode_configured_bss_def configured_bss_ok_def put_configured_bss_def put_limited_def result_simps)

lemma encode_report_layout:
  assumes "encode_report radios = Inr b"
  shows "length radios < 256 \<and> list_all configured_radio_ok radios \<and> b = put_counted put_configured_radio radios"
proof -
  have n: "length radios < 256" and groups: "extend_groups (\<lambda>radio. catR (octets_chk (cr_ruid radio) 6) (count_chk (cr_bsses radio)))
         encode_configured_bss cr_bsses [oct (int (length radios))] radios = Inr b"
    using assms by (auto simp: encode_report_def result_simps)
  have "list_all (\<lambda>g. (length (cr_ruid g) = 6 \<and> length (cr_bsses g) < 256) \<and> list_all configured_bss_ok (cr_bsses g)) radios \<and>
      b = [oct (int (length radios))] @ concat (map (\<lambda>g. (cr_ruid g @ [oct (int (length (cr_bsses g)))]) @
        concat (map put_configured_bss (cr_bsses g))) radios)"
    using groups by (rule extend_groups_layout) (auto simp: result_simps dest: encode_configured_bss_layout)
  with n show ?thesis
    by (simp add: put_counted_def list_all_iff configured_radio_ok_def put_configured_radio_def [abs_def])
qed

lemma encode_operational_bss_layout:
  "encode_operational_bss x = Inr b \<Longrightarrow> operational_bss_ok x \<and> b = put_operational_bss x"
  by (auto simp: encode_operational_bss_def operational_bss_ok_def put_operational_bss_def put_limited_def result_simps)

lemma encode_operational_layout:
  assumes "encode_body (APOperationalBss radios) = Inr b"
  shows "length radios < 256 \<and> list_all operational_radio_ok radios \<and> b = put_counted put_operational_radio radios"
proof -
  have n: "length radios < 256" and groups: "extend_groups (\<lambda>radio. catR (octets_chk (op_ruid radio) 6) (count_chk (op_bsses radio)))
         encode_operational_bss op_bsses [oct (int (length radios))] radios = Inr b"
    using assms by (auto simp: result_simps)
  have "list_all (\<lambda>g. (length (op_ruid g) = 6 \<and> length (op_bsses g) < 256) \<and> list_all operational_bss_ok (op_bsses g)) radios \<and>
      b = [oct (int (length radios))] @ concat (map (\<lambda>g. (op_ruid g @ [oct (int (length (op_bsses g)))]) @
        concat (map put_operational_bss (op_bsses g))) radios)"
    using groups by (rule extend_groups_layout) (auto simp: result_simps dest: encode_operational_bss_layout)
  with n show ?thesis
    by (simp add: put_counted_def list_all_iff operational_radio_ok_def put_operational_radio_def [abs_def])
qed

lemma encode_services_layout:
  assumes "encode_services allowed vs = Inr b"
  shows "length vs < 256 \<and> list_all (\<lambda>v. 0 \<le> v \<and> v < 256) vs \<and> b = put_ints vs"
proof -
  have n: "length vs < 256" and loop: "foldR (\<lambda>acc service. bindR (octet_chk service) (\<lambda>b.
         if service \<notin> set allowed then invalid else Inr (acc @ b))) [oct (int (length vs))] vs = Inr b"
    using assms by (auto simp: encode_services_def result_simps)
  have "list_all (\<lambda>v. 0 \<le> v \<and> v < 256) vs \<and> b = [oct (int (length vs))] @ concat (map (\<lambda>v. [oct v]) vs)"
    using loop by (rule foldR_layout) (auto simp: result_simps)
  with n show ?thesis by (simp add: put_ints_def)
qed

lemma encode_operating_class_layout:
  assumes "encode_operating_class c = Inr b"
  shows "operating_class_ok c \<and> b = put_operating_class c"
proof -
  obtain channels tail where *: "joinR (\<lambda>channel. bindR (octet_chk channel) (\<lambda>b.
       if channel \<notin> set channels then invalid else Inr b)) (non_operable_channels c) = Inr tail"
    and b: "b = oct (operating_class c) # oct (max_eirp_dbm c) # oct (int (length (non_operable_channels c))) # tail"
    and ok: "0 \<le> operating_class c" "operating_class c < 256" "-128 \<le> max_eirp_dbm c" "max_eirp_dbm c \<le> 127"
      "length (non_operable_channels c) < 256"
    using assms by (auto simp: encode_operating_class_def result_simps split: option.splits)
  have "list_all (\<lambda>v. 0 \<le> v \<and> v < 256) (non_operable_channels c) \<and> tail = concat (map (\<lambda>v. [oct v]) (non_operable_channels c))"
    using * by (rule joinR_layout) (auto simp: result_simps)
  with b ok show ?thesis by (simp add: operating_class_ok_def put_operating_class_def put_ints_def)
qed

lemma encode_inventory_radio_layout:
  "encode_inventory_radio r = Inr b \<Longrightarrow> inventory_radio_ok r \<and> b = put_inventory_radio r"
  by (auto simp: encode_inventory_radio_def inventory_radio_ok_def put_inventory_radio_def result_simps)

lemma role_flags_or:
  assumes "role_id r = 0 \<or> role_id r = 1"
  shows "push_bit 6 (role_id r) OR (if mhz160 (role_mcs r) \<noteq> None then 32 else 0)
    OR (if mhz80plus80 (role_mcs r) \<noteq> None then 16 else 0) OR 4 * int (length (width_pairs (role_mcs r))) = role_flags r"
  using assms by (auto simp: role_flags_def width_pairs_def split: option.splits)

lemma encode_role_layout:
  assumes "encode_role r = Inr b"
  shows "role_ok r \<and> b = put_role r"
proof -
  have id: "role_id r = 0 \<or> role_id r = 1" using assms by (auto simp: encode_role_def result_simps split: if_splits)
  then show ?thesis
    using assms role_flags_or [OF id]
    by (auto simp: encode_role_def joinR_def Let_def result_simps list_all2_Cons1 role_ok_def octets_ok_def put_role_def)
qed

section \<open>Whole values\<close>

lemma and_FC:
  assumes "(v :: int) AND 3 = 0" "0 \<le> v" "v < 256"
  shows "v AND 0xFC = v"
proof -
  obtain g where g: "v = 4 * g" using assms(1) by (auto simp: and_3_mod)
  then have "v = push_bit 2 g" by (simp add: push_bit_eq_mult)
  moreover have "(0xFC :: int) = push_bit 2 63" by (simp add: push_bit_eq_mult)
  ultimately have "v AND 0xFC = push_bit 2 (g AND 63)" by (simp only: push_bit_and)
  also have "g AND 63 = g" using and_mask_mod [of g 6] assms(2,3) g by simp
  finally show ?thesis using g by (simp add: push_bit_eq_mult)
qed

interpretation configured_bss: prefix_codec put_configured_bss get_configured_bss configured_bss_ok
proof
  show "get_configured_bss (put_configured_bss x @ rest) = Inr (x, rest)" if "configured_bss_ok x" for x rest
    using that by (simp add: get_configured_bss_def put_configured_bss_def configured_bss_ok_def get_ssid_def thenP_def codec_simps and_FC)
qed

context prefix_codec
begin

lemma counted_prefix:
  "length xs < 256 \<Longrightarrow> list_all ok xs \<Longrightarrow> counted get (put_counted put xs @ rest) = Inr (xs, rest)"
  by (simp add: counted_def put_counted_def thenP_def codec_simps times_get_put)

end

interpretation configured_radio: prefix_codec put_configured_radio get_configured_radio configured_radio_ok
proof
  show "get_configured_radio (put_configured_radio x @ rest) = Inr (x, rest)" if "configured_radio_ok x" for x rest
    using that by (simp add: get_configured_radio_def put_configured_radio_def configured_radio_ok_def thenP_def codec_simps
        configured_bss.counted_prefix)
qed

fun put_payload :: "payload \<Rightarrow> bytes" where
  "put_payload (AKMSuiteCapabilities b f) = put_counted (\<lambda>s. s) b @ put_counted (\<lambda>s. s) f"
| "put_payload (SupportedCipherSuites s) = put_counted (\<lambda>s. s) s"
| "put_payload (AssociatedClients bs) = put_counted put_bss_clients bs"
| "put_payload (BssConfigurationReport rs) = put_counted put_configured_radio rs"
| "put_payload (SupportedServices vs) = put_ints vs"
| "put_payload (SearchedServices vs) = put_ints vs"
| "put_payload (RadioIdentifier r) = r"
| "put_payload (APOperationalBss rs) = put_counted put_operational_radio rs"
| "put_payload (MultiAPProfile p) = [oct p]"
| "put_payload (APCapability f) = [oct f]"
| "put_payload (Profile2APCapability a b c d) = [oct a, oct b, oct c, oct d]"
| "put_payload (APRadioAdvancedCapabilities r f) = r @ [oct f]"
| "put_payload (APHTCapabilities r f) = r @ [oct f]"
| "put_payload (APVHTCapabilities r tx rx s f) = r @ u16 tx @ u16 rx @ [oct s, oct f]"
| "put_payload (APHECapabilities r mcs s f) = r @ put_limited mcs @ [oct s, oct f]"
| "put_payload (APWifi6Capabilities r roles) = r @ put_counted put_role roles"
| "put_payload (DeviceInventory s v e radios) = put_limited s @ put_limited v @ put_limited e @ put_counted put_inventory_radio radios"
| "put_payload (APRadioBasicCapabilities r m cs) = r @ oct m # put_counted put_operating_class cs"

fun payload_ok :: "payload \<Rightarrow> bool" where
  "payload_ok (AKMSuiteCapabilities b f) \<longleftrightarrow> length b < 256 \<and> list_all (\<lambda>s. length s = 4) b \<and>
     length f < 256 \<and> list_all (\<lambda>s. length s = 4) f"
| "payload_ok (SupportedCipherSuites s) \<longleftrightarrow> length s < 256 \<and> list_all (\<lambda>s. length s = 4) s"
| "payload_ok (AssociatedClients bs) \<longleftrightarrow> length bs < 256 \<and> list_all bss_clients_ok bs"
| "payload_ok (BssConfigurationReport rs) \<longleftrightarrow> length rs < 256 \<and> list_all configured_radio_ok rs"
| "payload_ok (SupportedServices vs) \<longleftrightarrow> length vs < 256 \<and> list_all (\<lambda>v. 0 \<le> v \<and> v < 256) vs"
| "payload_ok (SearchedServices vs) \<longleftrightarrow> length vs < 256 \<and> list_all (\<lambda>v. 0 \<le> v \<and> v < 256) vs"
| "payload_ok (RadioIdentifier r) \<longleftrightarrow> length r = 6"
| "payload_ok (APOperationalBss rs) \<longleftrightarrow> length rs < 256 \<and> list_all operational_radio_ok rs"
| "payload_ok (MultiAPProfile p) \<longleftrightarrow> octets_ok [p]"
| "payload_ok (APCapability f) \<longleftrightarrow> octets_ok [f]"
| "payload_ok (Profile2APCapability a b c d) \<longleftrightarrow> octets_ok [a, b, c, d]"
| "payload_ok (APRadioAdvancedCapabilities r f) \<longleftrightarrow> length r = 6 \<and> octets_ok [f]"
| "payload_ok (APHTCapabilities r f) \<longleftrightarrow> length r = 6 \<and> octets_ok [f]"
| "payload_ok (APVHTCapabilities r tx rx s f) \<longleftrightarrow> length r = 6 \<and> 0 \<le> tx \<and> tx < 65536 \<and> 0 \<le> rx \<and> rx < 65536 \<and> octets_ok [s, f]"
| "payload_ok (APHECapabilities r mcs s f) \<longleftrightarrow> length r = 6 \<and> length mcs \<in> {4, 8, 12} \<and> octets_ok [s, f]"
| "payload_ok (APWifi6Capabilities r roles) \<longleftrightarrow> length r = 6 \<and> length roles < 256 \<and> list_all role_ok roles"
| "payload_ok (DeviceInventory s v e radios) \<longleftrightarrow> length s \<le> 64 \<and> length v \<le> 64 \<and> length e \<le> 64 \<and>
     radios \<noteq> [] \<and> length radios < 256 \<and> list_all inventory_radio_ok radios"
| "payload_ok (APRadioBasicCapabilities r m cs) \<longleftrightarrow> length r = 6 \<and> 0 < m \<and> m < 256 \<and>
     length cs < 256 \<and> list_all operating_class_ok cs"

text \<open>The encoder saturates association times at 65535 seconds and writes everything else as it is.\<close>

fun canon_payload :: "payload \<Rightarrow> payload" where
  "canon_payload (AssociatedClients bs) = AssociatedClients (map saturate_bss bs)"
| "canon_payload p = p"

lemma payload_kind_canon [simp]: "payload_kind (canon_payload p) = payload_kind p"
  by (cases p) simp_all

lemma encode_body_layout:
  assumes "encode_body p = Inr b"
  shows "payload_ok (canon_payload p) \<and> b = put_payload (canon_payload p)"
proof (cases p)
  case (AKMSuiteCapabilities bk fr)
  obtain x y where "encode_selectors bk = Inr x" "encode_selectors fr = Inr y" "b = x @ y"
    using assms AKMSuiteCapabilities by (auto simp: joinR_def result_simps list_all2_Cons1)
  with AKMSuiteCapabilities encode_selectors_layout show ?thesis by fastforce
next
  case (SupportedCipherSuites ss)
  then show ?thesis using assms encode_selectors_layout by (fastforce simp: joinR_def result_simps list_all2_Cons1)
next
  case (AssociatedClients bs)
  then show ?thesis using assms encode_clients_layout by fastforce
next
  case (BssConfigurationReport rs)
  then show ?thesis using assms encode_report_layout by fastforce
next
  case (APOperationalBss rs)
  then show ?thesis using assms encode_operational_layout by fastforce
next
  case (SupportedServices vs)
  then show ?thesis using assms encode_services_layout by fastforce
next
  case (SearchedServices vs)
  then show ?thesis using assms encode_services_layout by fastforce
next
  case (APWifi6Capabilities r roles)
  then show ?thesis
    using assms extend_each_layout [of encode_role "r @ [oct (int (length roles))]" roles b role_ok put_role] encode_role_layout
    by (auto simp: result_simps put_counted_def)
next
  case (DeviceInventory s v e radios)
  then show ?thesis
    using assms extend_each_layout [of encode_inventory_radio
        "put_limited s @ put_limited v @ put_limited e @ [oct (int (length radios))]" radios b inventory_radio_ok put_inventory_radio]
      encode_inventory_radio_layout
    by (auto simp: result_simps put_counted_def)
next
  case (APRadioBasicCapabilities r m cs)
  then show ?thesis
    using assms extend_each_layout [of encode_operating_class
        "r @ [oct m, oct (int (length cs))]" cs b operating_class_ok put_operating_class]
      encode_operating_class_layout
    by (auto simp: result_simps put_counted_def)
qed (use assms in \<open>auto simp: result_simps octets_ok_def put_limited_def\<close>)

lemmas part_reads =
  raw.counted_get_put bss_clients.counted_get_put configured_radio.counted_prefix operational_radio.counted_get_put
  role.counted_get_put operating_class.counted_get_put

lemma decode_body_put:
  assumes "payload_ok p"
  shows "decode_body (payload_kind p) (put_payload p @ rest) = Inr (p, rest)"
proof (cases p)
  case (DeviceInventory s v e radios)
  with assms have n: "int (length radios) \<noteq> 0" by simp
  with DeviceInventory assms show ?thesis
    by (simp add: decode_body_def thenP_def codec_simps get_inventory_string_def put_counted_def
        inventory_radio.times_get_put)
next
  case (APHECapabilities r mcs s f)
  with assms show ?thesis
    by (auto simp: decode_body_def thenP_def codec_simps put_limited_def octets_ok_def)
qed (use assms in \<open>simp_all add: decode_body_def thenP_def codec_simps part_reads octets_ok_def\<close>)

lemma put_decode_body:
  assumes "decode_body k bs = Inr (p, rest)" "k \<noteq> 0xB7"
  shows "payload_kind p = k \<and> payload_ok p \<and> bs = put_payload p @ rest"
  using assms unfolding decode_body_def
  by (auto simp: read_iffs raw.counted_iff bss_clients.counted_iff operational_radio.counted_iff role.counted_iff
      operating_class.counted_iff inventory_radio.times_get_iff get_inventory_string_def put_get_limited octets_ok_def
      put_limited_def put_counted_def less_le dest!: put_get_ints split: if_splits)

lemma decode_encode_value:
  assumes "encode_value p = Inr bs"
  shows "decode_value (payload_kind p) bs = Inr (canon_payload p)"
proof -
  have "payload_ok (canon_payload p)" "bs = put_payload (canon_payload p)" "length bs \<le> MAX_VALUE_BYTES"
    using assms encode_body_layout by (auto simp: encode_value_def result_simps)
  moreover have "octet_chk (payload_kind p) = Inr [oct (payload_kind p)]" by (cases p) (simp_all add: octet_chk_def)
  ultimately show ?thesis
    using decode_body_put [of "canon_payload p" "[]"] by (simp add: decode_value_def bounded_def)
qed

text \<open>Per TLV type, the values of that type.\<close>

interpretation payload_value: value_codec "\<lambda>p. if payload_kind p = k then encode_value p else invalid" "decode_value k" canon_payload
  for k
  by unfold_locales (auto simp: decode_encode_value split: if_splits)

lemma decode_value_layout:
  assumes "decode_value k bs = Inr p" "k \<noteq> 0xB7"
  shows "payload_kind p = k \<and> payload_ok p \<and> bs = put_payload p"
proof -
  from assms(1) have "decode_body k bs = Inr (p, [])"
    by (auto simp: decode_value_def result_simps split: if_splits)
  from put_decode_body [OF this assms(2)] show ?thesis by simp
qed

lemma only_invalid_counted [only_invalid_intros]: "only_invalid p \<Longrightarrow> only_invalid (counted p)"
  unfolding counted_def by (intro only_invalid_intros)

lemma only_invalid_limited [only_invalid_intros]: "only_invalid (get_limited n)"
  unfolding get_limited_def by (intro only_invalid_intros)

lemma decode_he_mcs_error: "decode_he_mcs raw a b = Inl e \<Longrightarrow> e = EmosaError INVALID_INPUT"
  by (auto simp: decode_he_mcs_def Let_def split: if_splits)

lemma only_invalid_role [only_invalid_intros]: "only_invalid get_role"
proof -
  have mcs: "only_invalid (case decode_he_mcs raw a b of Inl e \<Rightarrow> failP e | Inr m \<Rightarrow> f m)" if "\<And>m. only_invalid (f m)" for raw a b f
    using that decode_he_mcs_error [of raw a b] by (cases "decode_he_mcs raw a b") (auto intro: only_invalid_intros)
  show ?thesis unfolding get_role_def by (intro only_invalid_intros mcs)
qed

definition known_kinds :: "int list" where
  "known_kinds = [0xCC, 0xED, 0x84, 0xB7, 0x80, 0x81, 0x82, 0x83, 0xB3, 0xA1, 0xB4, 0xBE, 0x86, 0x87, 0x88, 0xAA, 0xD4, 0x85]"

lemma only_invalid_decode_body: "k \<in> set known_kinds \<Longrightarrow> only_invalid (decode_body k)"
  unfolding known_kinds_def
  by (auto simp: decode_body_def get_bss_clients_def get_client_def get_configured_radio_def get_configured_bss_def get_ssid_def
      get_ints_def get_operational_radio_def get_operational_bss_def get_inventory_radio_def get_inventory_string_def
      get_operating_class_def intro!: only_invalid_intros)

lemma decode_body_unknown: "k \<notin> set known_kinds \<Longrightarrow> decode_body k bs = unsupported"
  by (simp add: known_kinds_def decode_body_def)

section \<open>Properties\<close>

text \<open>C24. EasyMesh values survive the wire: whenever \<open>encode_value\<close> accepts a payload, of any of the eighteen
  classes, \<open>decode_value\<close> under the payload's TLV type returns that payload, with association times
  saturated at 65535 seconds and nothing else changed.\<close>

theorem payload_roundtrip:
  assumes "encode_value p = Inr bs"
  shows "decode_value (payload_kind p) bs = Inr (canon_payload p)"
  using payload_value.decode_encode [where k = "payload_kind p" and x = p] assms by simp

definition example_clients :: payload where
  "example_clients = AssociatedClients [\<lparr>bc_bssid = [2, 0, 0, 0, 0, 1],
     bc_clients = [\<lparr>ac_mac = [2, 0, 0, 0, 0, 2], association_seconds = 70000\<rparr>]\<rparr>]"

theorem payload_roundtrip_witness:
  "decode_value 0x84 [1, 2, 0, 0, 0, 0, 1, 0, 1, 2, 0, 0, 0, 0, 2, 255, 255] =
     Inr (AssociatedClients [\<lparr>bc_bssid = [2, 0, 0, 0, 0, 1],
       bc_clients = [\<lparr>ac_mac = [2, 0, 0, 0, 0, 2], association_seconds = 65535\<rparr>]\<rparr>])"
proof -
  have "encode_value example_clients = Inr [1, 2, 0, 0, 0, 0, 1, 0, 1, 2, 0, 0, 0, 0, 2, 255, 255]"
    by (simp add: example_clients_def encode_value_def encode_clients_def count_chk_def octet_chk_def extend_groups_def
        catR_def octets_chk_def u16_chk_def u16_explicit extend_each_def encode_client_def bounded_def MAX_VALUE_BYTES_def)
  from payload_roundtrip [OF this] show ?thesis
    by (simp add: example_clients_def saturate_bss_def saturate_client_def)
qed

text \<open>C25. No malleability: apart from the configuration report, whose reserved bits are ignored on reception,
  a decoded payload determines the octets it was read from.\<close>

theorem payload_octets_unique:
  assumes "decode_value k bs = Inr p" "k \<noteq> 0xB7" "bs' \<noteq> bs"
  shows "decode_value k bs' \<noteq> Inr p"
  using decode_value_layout [OF assms(1,2)] decode_value_layout [of k bs' p] assms(2,3) by blast

theorem payload_octets_unique_witness:
  "decode_value 0xB3 [3] = Inr (MultiAPProfile 3) \<and> decode_value 0xB3 [3, 0] \<noteq> Inr (MultiAPProfile 3)"
proof -
  have "decode_value 0xB3 [3] = Inr (MultiAPProfile 3)"
    by (simp add: decode_value_def octet_chk_def bounded_def MAX_VALUE_BYTES_def decode_body_def thenP_def codec_simps)
  with payload_octets_unique [OF this, of "[3, 0]"] show ?thesis by simp
qed

text \<open>C26. The decoder is total on octets and refuses in two ways only: a value over the byte budget or of a
  type that is not implemented is unsupported, every other refusal is invalid input.\<close>

theorem decode_value_errors:
  "decode_value k bs = Inl e \<longleftrightarrow>
     (if 0 \<le> k \<and> k \<le> 255 then
        (if length bs \<le> 16384 \<and> k \<in> set known_kinds
         then e = EmosaError INVALID_INPUT \<and> (\<nexists>p. decode_body k bs = Inr (p, []))
         else e = EmosaError UNSUPPORTED_OPERATION)
      else e = EmosaError INVALID_INPUT)"
proof (cases "0 \<le> k \<and> k \<le> 255 \<and> length bs \<le> 16384 \<and> k \<in> set known_kinds")
  case True
  then have dec: "decode_value k bs = bindR (decode_body k bs) (\<lambda>(p, rest). if rest \<noteq> [] then invalid else Inr p)"
    by (simp add: decode_value_def octet_chk_def bounded_def MAX_VALUE_BYTES_def)
  show ?thesis
    using True only_invalid_decode_body [of k] unfolding dec only_invalid_def
    by (cases "decode_body k bs") (auto split: if_splits prod.splits)
next
  case False
  then show ?thesis
    by (auto simp: decode_value_def octet_chk_def bounded_def MAX_VALUE_BYTES_def decode_body_unknown)
qed

end
