(* ===== verification/Autoconfiguration.thy ===== *)
theory Autoconfiguration
  imports Reassembly Easymesh_Payloads
begin

unbundle bit_operations_syntax

text \<open>
  Discovery of \<open>emosa/wire/autoconfiguration.py\<close>: the checks on received messages, Search and Response,
  the peer binding, the lifetime budget of an exchange and the discovery exchange itself. The clock
  readings an operation makes are its arguments, and the message-ID sequence, which the exchanges share,
  is passed in and out. The lemmas show that the Search of an exchange is understood by the parser of
  Searches, and that an exchange never exceeds its budget and never changes an accepted advertisement.
\<close>

section \<open>Messages\<close>

definition SEARCH :: int where "SEARCH = 0x0007"
definition RESPONSE :: int where "RESPONSE = 0x0008"
definition WSC :: int where "WSC = 0x0009"
definition SECURITY_ENVELOPES :: "int list" where "SECURITY_ENVELOPES = [0xAB, 0xAC]"
definition CONFIGURATION_COMPANIONS :: "int list" where "CONFIGURATION_COMPANIONS = [0xB5, 0xB6, 0xE0, 0xE1, 0xEB, 0xEC]"

definition unicast :: "bytes \<Rightarrow> bytes result" where
  "unicast v = bindR (mac v) (\<lambda>_. if v = replicate 6 0 \<or> val (v ! 0) AND 1 \<noteq> 0 then invalid else Inr v)"

definition tlv_values :: "message \<Rightarrow> int \<Rightarrow> bytes list" where
  "tlv_values m k = map tlv_value (filter (\<lambda>t. kind t = k) (msg_tlvs m))"

definition one :: "message \<Rightarrow> int \<Rightarrow> bytes result" where
  "one m k = (let vs = tlv_values m k in if length vs \<noteq> 1 then invalid else Inr (vs ! 0))"

definition base :: "message \<Rightarrow> int \<Rightarrow> nat \<Rightarrow> bytes result" where
  "base m k n = (let v = concat (tlv_values m k) in if length v \<noteq> n then invalid else Inr v)"

definition em_tlv :: "payload \<Rightarrow> tlv result" where
  "em_tlv p = bindR (encode_value p) (\<lambda>v. Inr (Tlv (payload_kind p) v))"

definition has_kind :: "message \<Rightarrow> int list \<Rightarrow> bool" where
  "has_kind m ks \<longleftrightarrow> (\<exists>t \<in> set (msg_tlvs m). kind t \<in> set ks)"

definition header :: "message \<Rightarrow> int \<Rightarrow> bool \<Rightarrow> unit result" where
  "header m k multicast =
     (if msg_type m \<noteq> k \<or> msg_relay m \<noteq> multicast \<or> (multicast \<and> msg_destination m \<noteq> MULTICAST) then invalid
      else bindR (unicast (msg_source m)) (\<lambda>_.
        bindR (if multicast then Inr [] else unicast (msg_destination m)) (\<lambda>_.
          if has_kind m SECURITY_ENVELOPES then unsupported else Inr ())))"

text \<open>The attributes of a decoded payload that the parsers read; other payload classes have none.\<close>

definition known_services :: "payload \<Rightarrow> int list result" where
  "known_services p =
     (case p of
        SupportedServices s \<Rightarrow> Inr (supported_known_services s)
      | SearchedServices s \<Rightarrow> Inr (searched_known_services s)
      | _ \<Rightarrow> Inl AttributeError)"

definition profile_of :: "payload \<Rightarrow> int result" where
  "profile_of p = (case p of MultiAPProfile v \<Rightarrow> Inr v | _ \<Rightarrow> Inl AttributeError)"

record search =
  search_al_mac :: bytes
  search_band :: int
  search_profile :: int

definition parse_search :: "message \<Rightarrow> search result" where
  "parse_search m =
     bindR (header m SEARCH True) (\<lambda>_.
     bindR (bindR (base m 0x01 6) unicast) (\<lambda>al.
     bindR (base m 0x0D 1) (\<lambda>role.
     if role \<noteq> [0] then invalid else
     bindR (base m 0x0E 1) (\<lambda>b. let band = val (b ! 0) in
     if band \<notin> set [0, 1, 2, 3] then unsupported else
     bindR (bindR (bindR (one m 0x80) (decode_value 0x80)) known_services) (\<lambda>s.
     if 1 \<notin> set s then invalid else
     bindR (bindR (bindR (one m 0x81) (decode_value 0x81)) known_services) (\<lambda>s.
     if 0 \<notin> set s then invalid else
     bindR (bindR (bindR (one m 0xB3) (decode_value 0xB3)) profile_of) (\<lambda>profile.
     bindR (if profile = 1 then bindR (bindR (one m 0xB4) (decode_value 0xB4)) (\<lambda>_. Inr ()) else Inr ()) (\<lambda>_.
       Inr \<lparr>search_al_mac = al, search_band = band, search_profile = profile\<rparr>))))))))"

record controller_advertisement =
  adv_band :: int
  adv_profile :: int
  controller_flags :: "bytes option"
  security_capability_present :: bool
  security_capability :: "bytes option"

definition selected_response_issues :: "controller_advertisement \<Rightarrow> string list" where
  "selected_response_issues a =
     (case controller_flags a of
        None \<Rightarrow> [''controller_capability_absent'']
      | Some f \<Rightarrow>
          (if val (f ! 0) AND 0x80 = 0 then [''kib_mib_support_absent''] else []) @
          (if val (f ! 0) AND 0x40 = 0 then [''early_ap_capability_bit_absent_for_non_dpp_search''] else [])) @
     (if \<not> security_capability_present a then [''security_capability_absent'']
      else case security_capability a of
             None \<Rightarrow> [''security_capability_length_invalid'']
           | Some c \<Rightarrow>
               if length c \<noteq> 3 then [''security_capability_length_invalid'']
               else if c \<noteq> replicate 3 0 then [''security_capability_reserved_algorithm''] else [])"

definition pending_requirements :: "controller_advertisement \<Rightarrow> string list" where
  "pending_requirements a =
     [''profile_qualification'', ''security_capability_applicability''] @
     (if \<not> security_capability_present a then [''security_capability_absent''] else []) @
     (case controller_flags a of
        None \<Rightarrow> [''controller_capability_absent'']
      | Some f \<Rightarrow>
          (if val (f ! 0) AND 0x80 = 0 then [''kib_mib_support_absent''] else []) @
          [''early_ap_capability_procedure_and_table117_review''])"

definition EASYMESH_61 :: string where "EASYMESH_61 = ''easymesh-6.1''"
definition R1 :: string where "R1 = ''r1''"
definition MESSAGE_SETS :: "string list" where "MESSAGE_SETS = [EASYMESH_61, R1]"

definition check_message_set :: "string \<Rightarrow> string result" where
  "check_message_set v = (if v \<notin> set MESSAGE_SETS then invalid else Inr v)"

definition parse_response :: "message \<Rightarrow> string \<Rightarrow> controller_advertisement result" where
  "parse_response m message_set =
     bindR (header m RESPONSE False) (\<lambda>_.
     bindR (base m 0x0F 1) (\<lambda>role.
     if role \<noteq> [0] then invalid else
     bindR (base m 0x10 1) (\<lambda>b. let band = val (b ! 0) in
     if band \<notin> set [0, 1, 2, 3] then unsupported else
     bindR (bindR (bindR (one m 0x80) (decode_value 0x80)) known_services) (\<lambda>s.
     if 0 \<notin> set s then invalid else
     bindR (if message_set = R1 \<and> tlv_values m 0xB3 = [] then Inr 1
            else bindR (bindR (one m 0xB3) (decode_value 0xB3)) profile_of) (\<lambda>profile.
     let flags = tlv_values m 0xDD; security = tlv_values m 0xA9 in
     if length flags > 1 \<or> (flags \<noteq> [] \<and> flags ! 0 = []) \<or> length security > 1 then invalid
     else Inr \<lparr>adv_band = band, adv_profile = profile,
               controller_flags = (if flags \<noteq> [] then Some (flags ! 0) else None),
               security_capability_present = (security \<noteq> []),
               security_capability = (if security \<noteq> [] then Some (security ! 0) else None)\<rparr>)))))"

record peer_binding =
  pb_ingress :: string
  pb_generation :: int
  local_al :: bytes
  controller_al :: bytes
  source_macs :: "bytes list"

definition PeerBinding :: "string \<Rightarrow> int \<Rightarrow> bytes \<Rightarrow> bytes \<Rightarrow> bytes list \<Rightarrow> peer_binding result" where
  "PeerBinding ingress generation local controller sources =
     (if \<not> (1 \<le> length ingress \<and> length ingress \<le> 64) \<or> generation < 0 \<or> \<not> (1 \<le> length sources \<and> length sources \<le> 16)
      then invalid
      else bindR (unicast local) (\<lambda>_. bindR (unicast controller) (\<lambda>_. bindR (mapR unicast sources) (\<lambda>_.
        if local = controller \<or> local \<in> set sources then invalid
        else Inr \<lparr>pb_ingress = ingress, pb_generation = generation, local_al = local, controller_al = controller,
                  source_macs = sources\<rparr>))))"

definition binding_check :: "peer_binding \<Rightarrow> message \<Rightarrow> string \<Rightarrow> int \<Rightarrow> unit result" where
  "binding_check b m ingress generation =
     (if ingress \<noteq> pb_ingress b \<or> generation \<noteq> pb_generation b \<or> msg_destination m \<noteq> local_al b \<or>
         msg_source m \<notin> set (source_macs b) then invalid
      else Inr ())"

section \<open>Exchanges\<close>

datatype exchange_state = Waiting | Received | Closed

record lifetime =
  lt_deadline :: real
  max_transmissions :: int
  transmissions :: int
  lt_state :: exchange_state

definition Lifetime :: "real \<Rightarrow> real \<Rightarrow> int \<Rightarrow> lifetime result" where
  "Lifetime now t budget =
     (if \<not> (0 < t \<and> t \<le> 60) \<or> \<not> (1 \<le> budget \<and> budget \<le> 16) then invalid
      else Inr \<lparr>lt_deadline = now + t, max_transmissions = budget, transmissions = 0, lt_state = Waiting\<rparr>)"

definition lt_close :: "lifetime \<Rightarrow> lifetime" where
  "lt_close l = l\<lparr>lt_state := Closed\<rparr>"

definition live :: "lifetime \<Rightarrow> real \<Rightarrow> lifetime \<times> unit result" where
  "live l now =
     (let l = (if now \<ge> lt_deadline l then lt_close l else l)
      in (l, if lt_state l = Closed then not_ready else Inr ()))"

definition transmit :: "lifetime \<Rightarrow> real \<Rightarrow> lifetime \<times> unit result" where
  "transmit l now =
     (case live l now of
        (l, Inl e) \<Rightarrow> (l, Inl e)
      | (l, Inr _) \<Rightarrow>
          if lt_state l \<noteq> Waiting \<or> transmissions l \<ge> max_transmissions l then (l, not_ready)
          else (l\<lparr>transmissions := transmissions l + 1\<rparr>, Inr ()))"

record discovery =
  dx_life :: lifetime
  dx_binding :: peer_binding
  dx_band :: int
  dx_profile :: int
  dx_message_set :: string
  dx_tlvs :: "tlv list"
  sent_mids :: "int list"
  dx_response :: "controller_advertisement option"

definition DiscoveryExchange ::
  "peer_binding \<Rightarrow> int \<Rightarrow> int \<Rightarrow> payload \<Rightarrow> real \<Rightarrow> real \<Rightarrow> int \<Rightarrow> string \<Rightarrow> discovery result" where
  "DiscoveryExchange binding band profile profile2 now t budget message_set =
     bindR (Lifetime now t budget) (\<lambda>life.
     bindR (check_message_set message_set) (\<lambda>ms.
     if band \<notin> set [0, 1] \<or> profile \<noteq> 1 then unsupported
     else bindR (mapR em_tlv [SupportedServices [1], SearchedServices [0]]) (\<lambda>services.
       bindR (if ms = R1 then Inr [] else mapR em_tlv [MultiAPProfile profile, profile2]) (\<lambda>extra.
         Inr \<lparr>dx_life = life, dx_binding = binding, dx_band = band, dx_profile = profile, dx_message_set = ms,
              dx_tlvs = [Tlv 0x01 (local_al binding), Tlv 0x0D [0], Tlv 0x0E [oct band]] @ services @ extra,
              sent_mids = [], dx_response = None\<rparr>))))"

text \<open>\<open>request\<close>, and the message-ID sequence after it. The set of sent identifiers is a list without
  repetitions.\<close>

definition discovery_request :: "discovery \<Rightarrow> mid_sequence \<Rightarrow> real \<Rightarrow> discovery \<times> mid_sequence \<times> bytes list result" where
  "discovery_request d seq now =
     (case transmit (dx_life d) now of
        (l, Inl e) \<Rightarrow> (d\<lparr>dx_life := l\<rparr>, seq, Inl e)
      | (l, Inr _) \<Rightarrow>
          let (mid, seq) = next_mid seq
          in (d\<lparr>dx_life := l, sent_mids := List.insert mid (sent_mids d)\<rparr>, seq,
              fragment_message MULTICAST (local_al (dx_binding d)) SEARCH mid (dx_tlvs d) True 1500))"

definition discovery_checks :: "discovery \<Rightarrow> message \<Rightarrow> string \<Rightarrow> int \<Rightarrow> controller_advertisement result" where
  "discovery_checks d m ingress generation =
     bindR (binding_check (dx_binding d) m ingress generation) (\<lambda>_.
     bindR (parse_response m (dx_message_set d)) (\<lambda>adv.
     if msg_mid m \<notin> set (sent_mids d) \<or> adv_band adv \<noteq> dx_band d then invalid
     else bindR (effective_profile (adv_profile adv) (dx_profile d)) (\<lambda>effective.
       if dx_message_set d \<noteq> R1 \<and> effective \<noteq> dx_profile d then invalid
       else if dx_response d \<noteq> None \<and> Some adv \<noteq> dx_response d then invalid
       else Inr adv)))"

definition discovery_receive ::
  "discovery \<Rightarrow> message \<Rightarrow> string \<Rightarrow> int \<Rightarrow> real \<Rightarrow> discovery \<times> controller_advertisement result" where
  "discovery_receive d m ingress generation now =
     (case live (dx_life d) now of
        (l, Inl e) \<Rightarrow> (d\<lparr>dx_life := l\<rparr>, Inl e)
      | (l, Inr _) \<Rightarrow>
          (case discovery_checks d m ingress generation of
             Inl e \<Rightarrow> (d\<lparr>dx_life := l\<rparr>, Inl e)
           | Inr adv \<Rightarrow> (d\<lparr>dx_life := l\<lparr>lt_state := Received\<rparr>, dx_response := Some adv\<rparr>, Inr adv)))"

definition discovery_close :: "discovery \<Rightarrow> discovery" where
  "discovery_close d = d\<lparr>dx_life := lt_close (dx_life d)\<rparr>"

section \<open>The states of an exchange\<close>

text \<open>An exchange runs beside other users of the message-ID sequence, which it shares with them. The state is the exchange,
  the sequence, and how many identifiers have been drawn from it since the exchange was made.\<close>

type_synonym discovery_run = "discovery \<times> mid_sequence \<times> nat"

inductive discovery_step :: "discovery_run \<Rightarrow> discovery_run \<Rightarrow> bool" where
  dx_request: "discovery_request d seq now = (d', seq', r) \<Longrightarrow>
     discovery_step (d, seq, n) (d', seq', n + nat (transmissions (dx_life d') - transmissions (dx_life d)))"
| dx_receive: "discovery_step (d, seq, n) (fst (discovery_receive d m ingress generation now), seq, n)"
| dx_close: "discovery_step (d, seq, n) (discovery_close d, seq, n)"
| dx_other: "discovery_step (d, seq, n) (d, snd (next_mid seq), Suc n)"

definition discovery_init :: "discovery_run \<Rightarrow> bool" where
  "discovery_init = (\<lambda>(d, seq, n). (\<exists>b band profile p2 now t k ms. DiscoveryExchange b band profile p2 now t k ms = Inr d) \<and>
     (\<exists>p. MidSequence p = Inr seq) \<and> n = 0)"

definition discovery_ok :: "discovery \<Rightarrow> bool" where
  "discovery_ok d \<longleftrightarrow>
     0 \<le> transmissions (dx_life d) \<and> transmissions (dx_life d) \<le> max_transmissions (dx_life d) \<and> max_transmissions (dx_life d) \<le> 16 \<and>
     distinct (sent_mids d) \<and> int (length (sent_mids d)) \<le> transmissions (dx_life d) \<and>
     (lt_state (dx_life d) = Waiting \<longrightarrow> dx_response d = None) \<and>
     (lt_state (dx_life d) = Received \<longrightarrow> dx_response d \<noteq> None) \<and>
     (dx_response d \<noteq> None \<longrightarrow> sent_mids d \<noteq> [])"

text \<open>The identifiers of the exchange are among those that were drawn; until the sequence has gone once through its 65536
  values, every Search has its own.\<close>

definition drawn_ok :: "discovery \<Rightarrow> mid_sequence \<Rightarrow> nat \<Rightarrow> bool" where
  "drawn_ok d seq n \<longleftrightarrow> (\<forall>m \<in> set (sent_mids d). \<exists>j < int n. 0 \<le> j \<and> m = (previous seq - j) mod 65536) \<and>
     (n \<le> 65536 \<longrightarrow> int (length (sent_mids d)) = transmissions (dx_life d))"

definition run_ok :: "discovery_run \<Rightarrow> bool" where
  "run_ok = (\<lambda>(d, seq, n). discovery_ok d \<and> drawn_ok d seq n)"

lemma live_cases:
  "live l now = (l', r) \<Longrightarrow>
     (r = Inr () \<and> l' = l \<and> now < lt_deadline l \<and> lt_state l \<noteq> Closed) \<or> (r = not_ready \<and> l' = lt_close l)"
  by (cases l) (auto simp: live_def lt_close_def Let_def split: if_splits)

lemma transmit_cases:
  "transmit l now = (l', r) \<Longrightarrow>
     (r = Inr () \<and> l' = l\<lparr>transmissions := transmissions l + 1\<rparr> \<and> now < lt_deadline l \<and> lt_state l = Waiting \<and>
        transmissions l < max_transmissions l) \<or>
     (r = not_ready \<and> (l' = l \<or> l' = lt_close l))"
  using live_cases [of l now] by (auto simp: transmit_def split: if_splits prod.splits sum.splits)

lemma discovery_checks_mid: "discovery_checks d m i g = Inr adv \<Longrightarrow> msg_mid m \<in> set (sent_mids d) \<and>
    (dx_response d = None \<or> dx_response d = Some adv)"
  by (auto simp: discovery_checks_def result_simps split: if_splits)

lemma drawn_earlier:
  assumes "\<exists>j < int n. 0 \<le> j \<and> m = (previous seq - j) mod 65536"
  shows "\<exists>j < int (Suc n). 0 \<le> j \<and> m = (previous (snd (next_mid seq)) - j) mod 65536" "n < 65536 \<Longrightarrow> m \<noteq> fst (next_mid seq)"
proof -
  from assms obtain j where j: "0 \<le> j" "j < int n" "m = (previous seq - j) mod 65536" by blast
  have "m = (previous (snd (next_mid seq)) - (j + 1)) mod 65536" by (simp add: next_mid_eq j(3) mod_diff_left_eq)
  then show "\<exists>j < int (Suc n). 0 \<le> j \<and> m = (previous (snd (next_mid seq)) - j) mod 65536"
    using j(1,2) by (intro exI [of _ "j + 1"]) simp
  assume n: "n < 65536"
  show "m \<noteq> fst (next_mid seq)"
  proof
    assume "m = fst (next_mid seq)"
    then have "(previous seq + 1) mod 65536 = (previous seq - j) mod 65536" by (simp add: next_mid_eq j(3))
    then have "65536 dvd (previous seq + 1) - (previous seq - j)" by (simp add: mod_eq_dvd_iff)
    then have "65536 dvd (j + 1)" by (simp add: algebra_simps)
    then have "65536 \<le> j + 1" using j(1) by (intro zdvd_imp_le) simp_all
    then show False using n j(2) by simp
  qed
qed

lemma drawn_next: "drawn_ok d seq n \<Longrightarrow> drawn_ok d (snd (next_mid seq)) (Suc n)"
  unfolding drawn_ok_def using drawn_earlier(1) [of n _ seq] by (simp del: of_nat_Suc)

lemma drawn_sent:
  assumes "drawn_ok d seq n" "sent_mids d' = List.insert (fst (next_mid seq)) (sent_mids d)"
    "transmissions (dx_life d') = transmissions (dx_life d) + 1"
  shows "drawn_ok d' (snd (next_mid seq)) (Suc n)"
proof -
  have new: "\<exists>j < int (Suc n). 0 \<le> j \<and> fst (next_mid seq) = (previous (snd (next_mid seq)) - j) mod 65536"
    by (intro exI [of _ 0]) (simp add: next_mid_eq)
  have fresh_mid: "fst (next_mid seq) \<notin> set (sent_mids d)" if "n < 65536"
  proof
    assume "fst (next_mid seq) \<in> set (sent_mids d)"
    then have "\<exists>j < int n. 0 \<le> j \<and> fst (next_mid seq) = (previous seq - j) mod 65536" using assms(1) by (simp add: drawn_ok_def)
    from drawn_earlier(2) [OF this that] show False by simp
  qed
  have "int (length (sent_mids d')) = transmissions (dx_life d')" if "n < 65536"
    using fresh_mid [OF that] assms that by (simp add: drawn_ok_def List.insert_def)
  moreover have "\<exists>j < int (Suc n). 0 \<le> j \<and> m = (previous (snd (next_mid seq)) - j) mod 65536" if "m \<in> set (sent_mids d')" for m
  proof (cases "m = fst (next_mid seq)")
    case False
    then have "m \<in> set (sent_mids d)" using that assms(2) by simp
    then show ?thesis using drawn_earlier(1) [of n m seq] assms(1) unfolding drawn_ok_def by blast
  qed (use new in simp)
  ultimately show ?thesis unfolding drawn_ok_def by (simp del: of_nat_Suc)
qed

text \<open>A request either fails and sends nothing, or takes the next identifier.\<close>

lemma discovery_request_cases:
  assumes "discovery_request d seq now = (d', seq', r)"
  shows "(sent_mids d' = sent_mids d \<and> seq' = seq \<and> (dx_life d' = dx_life d \<or> dx_life d' = lt_close (dx_life d))) \<or>
    (sent_mids d' = List.insert (fst (next_mid seq)) (sent_mids d) \<and> seq' = snd (next_mid seq) \<and> lt_state (dx_life d) = Waiting \<and>
     dx_life d' = (dx_life d)\<lparr>transmissions := transmissions (dx_life d) + 1\<rparr> \<and> transmissions (dx_life d) < max_transmissions (dx_life d))"
    "dx_response d' = dx_response d"
proof -
  obtain l x where t: "transmit (dx_life d) now = (l, x)" by force
  from transmit_cases [OF t] assms
  show "(sent_mids d' = sent_mids d \<and> seq' = seq \<and> (dx_life d' = dx_life d \<or> dx_life d' = lt_close (dx_life d))) \<or>
    (sent_mids d' = List.insert (fst (next_mid seq)) (sent_mids d) \<and> seq' = snd (next_mid seq) \<and> lt_state (dx_life d) = Waiting \<and>
     dx_life d' = (dx_life d)\<lparr>transmissions := transmissions (dx_life d) + 1\<rparr> \<and> transmissions (dx_life d) < max_transmissions (dx_life d))"
    "dx_response d' = dx_response d"
    by (auto simp: discovery_request_def t case_prod_beta)
qed

lemma discovery_request_ok:
  assumes "discovery_request d seq now = (d', seq', r)" "discovery_ok d"
  shows "discovery_ok d' \<and> (lt_state (dx_life d) = Closed \<longrightarrow> lt_state (dx_life d') = Closed)"
  using discovery_request_cases [OF assms(1)] assms(2) by (auto simp: discovery_ok_def lt_close_def List.insert_def)

lemma drawn_same:
  "drawn_ok d seq n \<Longrightarrow> sent_mids d' = sent_mids d \<Longrightarrow> transmissions (dx_life d') = transmissions (dx_life d) \<Longrightarrow> drawn_ok d' seq n"
  by (simp add: drawn_ok_def)

lemma discovery_receive_ok:
  assumes "discovery_ok d"
  shows "let d' = fst (discovery_receive d m ingress generation now) in discovery_ok d' \<and> sent_mids d' = sent_mids d \<and>
    transmissions (dx_life d') = transmissions (dx_life d) \<and> (dx_response d \<noteq> None \<longrightarrow> dx_response d' = dx_response d) \<and>
    (lt_state (dx_life d) = Closed \<longrightarrow> lt_state (dx_life d') = Closed)"
proof -
  obtain l r where t: "live (dx_life d) now = (l, r)" by force
  with live_cases [OF t] assms discovery_checks_mid [of d m ingress generation] show ?thesis
    by (auto simp: discovery_receive_def discovery_ok_def lt_close_def Let_def split: sum.splits)
qed

text \<open>One step keeps the invariant, keeps an accepted advertisement, and never reopens an exchange.\<close>

lemma discovery_step_ok:
  assumes "discovery_step s s'" "run_ok s"
  shows "run_ok s' \<and> (dx_response (fst s) \<noteq> None \<longrightarrow> dx_response (fst s') = dx_response (fst s)) \<and>
    (lt_state (dx_life (fst s)) = Closed \<longrightarrow> lt_state (dx_life (fst s')) = Closed)"
  using assms
proof (induction rule: discovery_step.induct)
  case (dx_request d seq now d' seq' r n)
  then have ok: "discovery_ok d" "drawn_ok d seq n" by (simp_all add: run_ok_def)
  have "drawn_ok d' seq' (n + nat (transmissions (dx_life d') - transmissions (dx_life d)))"
    using discovery_request_cases(1) [OF dx_request(1)] drawn_same [OF ok(2), of d'] drawn_sent [OF ok(2), of d'] by (auto simp: lt_close_def)
  then show ?case using discovery_request_ok [OF dx_request(1) ok(1)] discovery_request_cases(2) [OF dx_request(1)] by (simp add: run_ok_def)
next
  case (dx_receive d seq n m ingress generation now)
  then show ?case using discovery_receive_ok [of d m ingress generation now] by (auto simp: run_ok_def Let_def elim: drawn_same)
next
  case (dx_close d seq n)
  then show ?case by (auto simp: run_ok_def discovery_close_def discovery_ok_def lt_close_def elim: drawn_same)
next
  case (dx_other d seq n)
  then show ?case by (simp add: run_ok_def drawn_next)
qed

interpretation discovery: state_invariant discovery_init discovery_step run_ok
proof
  show "run_ok s" if "discovery_init s" for s
    using that
    by (auto simp: discovery_init_def DiscoveryExchange_def Lifetime_def result_simps run_ok_def discovery_ok_def drawn_ok_def split: if_splits)
  show "run_ok s'" if "run_ok s" "discovery_step s s'" for s s'
    using discovery_step_ok that by blast
qed

section \<open>The Search of an exchange\<close>

lemma unicast_eq_Inr [result_simps]:
  "unicast v = Inr w \<longleftrightarrow> w = v \<and> length v = 6 \<and> v \<noteq> replicate 6 0 \<and> val (v ! 0) AND 1 = 0"
  by (auto simp: unicast_def result_simps)

lemma em_services: "em_tlv (SupportedServices [1]) = Inr (Tlv 0x80 [1, 1])" "em_tlv (SearchedServices [0]) = Inr (Tlv 0x81 [1, 0])"
  "em_tlv (MultiAPProfile 1) = Inr (Tlv 0xB3 [1])"
  by (simp_all add: em_tlv_def encode_value_def encode_services_def count_chk_def octet_chk_def bounded_def MAX_VALUE_BYTES_def)

lemma decode_services: "decode_value 0x80 [1, 1] = Inr (SupportedServices [1])" "decode_value 0x81 [1, 0] = Inr (SearchedServices [0])"
  "decode_value 0xB3 [1] = Inr (MultiAPProfile 1)"
  by (simp_all add: decode_value_def octet_chk_def bounded_def MAX_VALUE_BYTES_def decode_body_def get_ints_def thenP_def codec_simps
      get_bytes_def)

definition search_tlvs :: "bytes \<Rightarrow> int \<Rightarrow> bytes \<Rightarrow> tlv list" where
  "search_tlvs al band v = [Tlv 0x01 al, Tlv 0x0D [0], Tlv 0x0E [oct band], Tlv 0x80 [1, 1], Tlv 0x81 [1, 0], Tlv 0xB3 [1], Tlv 0xB4 v]"

lemma discovery_tlvs:
  assumes "DiscoveryExchange b band profile (Profile2APCapability w x y z) t0 t n EASYMESH_61 = Inr d"
  shows "\<exists>v. encode_value (Profile2APCapability w x y z) = Inr v \<and> dx_tlvs d = search_tlvs (local_al b) band v \<and>
    dx_band d = band \<and> dx_binding d = b \<and> dx_profile d = 1 \<and> band \<in> {0, 1}"
proof -
  have "EASYMESH_61 \<noteq> R1" by (simp add: EASYMESH_61_def R1_def)
  moreover obtain v where "encode_value (Profile2APCapability w x y z) = Inr v"
    using assms \<open>EASYMESH_61 \<noteq> R1\<close>
    by (cases "encode_value (Profile2APCapability w x y z)")
      (auto simp: DiscoveryExchange_def check_message_set_def MESSAGE_SETS_def bindR_eq_Inr em_tlv_def split: if_splits)
  ultimately show ?thesis
    using assms em_services
    by (auto simp: DiscoveryExchange_def check_message_set_def MESSAGE_SETS_def bindR_eq_Inr search_tlvs_def em_tlv_def [of "Profile2APCapability _ _ _ _"]
        split: if_splits)
qed

lemma parse_search_tlvs:
  assumes "unicast al = Inr al" "band \<in> {0, 1}" "encode_value (Profile2APCapability w x y z) = Inr v"
    and "msg_type m = SEARCH" "msg_relay m" "msg_destination m = MULTICAST" "msg_source m = al" "msg_tlvs m = search_tlvs al band v"
  shows "parse_search m = Inr \<lparr>search_al_mac = al, search_band = band, search_profile = 1\<rparr>"
proof -
  have "decode_value 0xB4 v = Inr (Profile2APCapability w x y z)"
    using decode_encode_value [OF assms(3)] by simp
  moreover have "length al = 6" using assms(1) by (simp add: result_simps)
  moreover have "header m SEARCH True = Inr ()"
    using assms by (simp add: header_def has_kind_def search_tlvs_def SECURITY_ENVELOPES_def)
  ultimately show ?thesis
    using assms by (auto simp: parse_search_def base_def one_def tlv_values_def search_tlvs_def decode_services known_services_def
        supported_known_services_def searched_known_services_def profile_of_def Let_def)
qed

lemma profile2_length: "encode_value (Profile2APCapability w x y z) = Inr v \<Longrightarrow> length v = 4"
  by (auto simp: encode_value_def result_simps)

lemma search_frames:
  assumes "discovery_request d seq now = (d', seq', Inr frames)"
  shows "fragment_message MULTICAST (local_al (dx_binding d)) SEARCH (fst (next_mid seq)) (dx_tlvs d) True 1500 = Inr frames"
  using assms by (auto simp: discovery_request_def case_prod_beta split: prod.splits sum.splits)

section \<open>Properties\<close>

text \<open>C35. A Search of the EasyMesh 6.1 message set reaches its reader: the frames of a discovery request of such an
  exchange, received in any order and with retransmissions by a reassembler with the default budgets, give a message
  that \<open>parse_search\<close> accepts with the local identity, the band and profile 1 of the exchange. (A Search of the R1 set
  has no Multi-AP Profile TLV, which \<open>parse_search\<close> asks for.)\<close>

theorem search_understood:
  assumes "PeerBinding link generation al controller sources = Inr b"
    and "DiscoveryExchange b band 1 (Profile2APCapability w x y z) t0 t n EASYMESH_61 = Inr d"
    and "discovery_request d seq now = (d', seq', Inr frames)" and "Reassembler 5 64 2097152 65536 64 = Inr r"
    and "map (\<lambda>c. snd (snd c)) calls = map (\<lambda>i. frames ! i) (pre @ [i])"
    and "set (pre @ [i]) = {..<length frames}" "i \<notin> set pre"
    and "\<forall>(now, opened, frame) \<in> set calls. start \<le> opened \<and> now < start + 5"
  shows "\<exists>m. snd (feeds r calls ingress) = replicate (length pre) (Inr None) @ [Inr (Some m)] \<and>
    parse_search m = Inr \<lparr>search_al_mac = al, search_band = band, search_profile = 1\<rparr> \<and> msg_mid m = fst (next_mid seq)"
proof -
  have al: "unicast al = Inr al" "local_al b = al"
    using assms(1) by (auto simp: PeerBinding_def bindR_eq_Inr result_simps split: if_splits)
  obtain v where v: "encode_value (Profile2APCapability w x y z) = Inr v" "dx_tlvs d = search_tlvs al band v"
    "dx_binding d = b" "band \<in> {0, 1}"
    using discovery_tlvs [OF assms(2)] al by auto
  have frames: "fragment_message MULTICAST al SEARCH (fst (next_mid seq)) (search_tlvs al band v) True 1500 = Inr frames"
    using search_frames [OF assms(3)] v(2,3) al(2) by simp
  have len: "length al = 6" "length v = 4" using al(1) profile2_length [OF v(1)] by (simp_all add: result_simps)
  then have size: "tlvs_size (search_tlvs al band v) \<le> 65536" by (simp add: tlvs_size_def search_tlvs_def)
  have r: "r = \<lparr>timeout = 5, max_contexts = 64, max_bytes = 2097152, max_message_bytes = 65536, max_fragments = 64,
      contexts = [], buffered = 0\<rparr>"
    using assms(4) by (simp add: Reassembler_def)
  have "reassembler_ok r" unfolding r by (simp add: reassembler_ok_def)
  note any_order = feeds_any_order [OF this frames]
  let ?m = "\<lparr>msg_destination = MULTICAST, msg_source = al, msg_type = SEARCH, msg_mid = fst (next_mid seq), msg_relay = True,
    msg_tlvs = search_tlvs al band v, msg_fragments = int (length frames)\<rparr>"
  have "length frames \<le> 64" using frames by (rule fragment_message_frames) simp
  then have "snd (feeds r calls ingress) = replicate (length pre) (Inr None) @ [Inr (Some ?m)]"
    using size by (intro any_order [OF _ _ _ _ _ assms(5,6,7)]) (use assms(8) in \<open>simp_all add: r\<close>)
  moreover have "parse_search ?m = Inr \<lparr>search_al_mac = al, search_band = band, search_profile = 1\<rparr>"
    using parse_search_tlvs [OF al(1) v(4,1), of ?m] by simp
  ultimately show ?thesis by (intro exI [of _ ?m]) simp
qed

definition example_binding :: peer_binding where
  "example_binding = \<lparr>pb_ingress = ''eth0'', pb_generation = 0, local_al = [2, 0, 0, 0, 0, 1], controller_al = [2, 0, 0, 0, 0, 9],
     source_macs = [[2, 0, 0, 0, 0, 9]]\<rparr>"

definition example_discovery :: discovery where
  "example_discovery = \<lparr>dx_life = \<lparr>lt_deadline = 5, max_transmissions = 3, transmissions = 0, lt_state = Waiting\<rparr>,
     dx_binding = example_binding, dx_band = 0, dx_profile = 1, dx_message_set = EASYMESH_61,
     dx_tlvs = search_tlvs [2, 0, 0, 0, 0, 1] 0 [0, 0, 0, 0], sent_mids = [], dx_response = None\<rparr>"

lemma zeros_6: "replicate 6 (0 :: octet) = [0, 0, 0, 0, 0, 0]"
  by (simp add: eval_nat_numeral)

lemma example_peer: "PeerBinding ''eth0'' 0 [2, 0, 0, 0, 0, 1] [2, 0, 0, 0, 0, 9] [[2, 0, 0, 0, 0, 9]] = Inr example_binding"
  by (simp add: PeerBinding_def unicast_def mac_def example_binding_def zeros_6)

lemma example_exchange: "DiscoveryExchange example_binding 0 1 (Profile2APCapability 0 0 0 0) 0 5 3 EASYMESH_61 = Inr example_discovery"
proof -
  have "em_tlv (Profile2APCapability 0 0 0 0) = Inr (Tlv 0xB4 [0, 0, 0, 0])"
    by (simp add: em_tlv_def encode_value_def octet_chk_def catR_def byte_counter_units_def bounded_def MAX_VALUE_BYTES_def)
  moreover have "EASYMESH_61 \<noteq> R1" by (simp add: EASYMESH_61_def R1_def)
  ultimately show ?thesis
    by (simp add: DiscoveryExchange_def Lifetime_def check_message_set_def MESSAGE_SETS_def em_services example_discovery_def
        search_tlvs_def example_binding_def)
qed

lemma example_request:
  "\<exists>d' seq' frame. discovery_request example_discovery \<lparr>previous = 6\<rparr> 1 = (d', seq', Inr [frame])"
  by (simp add: discovery_request_def example_discovery_def transmit_def live_def next_mid_def and_FFFF fragment_message_def frag_step_def
      tlv_encode_def uint_chk_def u16_explicit cmdu_consts search_tlvs_def example_binding_def fragment_encode_eq fragment_ok_def
      MULTICAST_def SEARCH_def END_TLV_def)

theorem search_understood_witness:
  "\<exists>r frame m. Reassembler 5 64 2097152 65536 64 = Inr r \<and> snd (feeds r [(20, 20, frame)] ''eth1'') = [Inr (Some m)] \<and>
     parse_search m = Inr \<lparr>search_al_mac = [2, 0, 0, 0, 0, 1], search_band = 0, search_profile = 1\<rparr> \<and> msg_mid m = 7"
proof -
  obtain d' seq' frame where q: "discovery_request example_discovery \<lparr>previous = 6\<rparr> 1 = (d', seq', Inr [frame])"
    using example_request by blast
  obtain r where r: "Reassembler 5 64 2097152 65536 64 = Inr r" by (simp add: Reassembler_def)
  have idx: "set ([] @ [0]) = {..<length [frame]}" by auto
  have mid: "fst (next_mid \<lparr>previous = 6\<rparr>) = 7" by (simp add: next_mid_def and_FFFF)
  have "\<exists>m. snd (feeds r [(20, 20, frame)] ''eth1'') = replicate (length ([] :: nat list)) (Inr None) @ [Inr (Some m)] \<and>
      parse_search m = Inr \<lparr>search_al_mac = [2, 0, 0, 0, 0, 1], search_band = 0, search_profile = 1\<rparr> \<and>
      msg_mid m = fst (next_mid \<lparr>previous = 6\<rparr>)"
    by (rule search_understood [OF example_peer example_exchange q r _ idx, where calls = "[(20, 20, frame)]" and start = 20]) simp_all
  with r show ?thesis unfolding mid by (metis append_Nil list.size(3) replicate_0)
qed

text \<open>C36. A discovery exchange keeps its budget and its answer: in every state it can reach, beside other users of the
  message-ID sequence it shares, it has sent at most its budget of Searches, at most sixteen; until the sequence has
  given out 65536 identifiers since the exchange began, the exchange knows exactly one identifier for each Search it
  sent, so that no two Searches have the same; and once it has accepted an advertisement no request, response or close
  changes that advertisement.\<close>

theorem discovery_stable:
  assumes "reachable discovery_init discovery_step (d, seq, n)"
  shows "0 \<le> transmissions (dx_life d) \<and> transmissions (dx_life d) \<le> max_transmissions (dx_life d) \<and> max_transmissions (dx_life d) \<le> 16 \<and>
    int (card (set (sent_mids d))) \<le> transmissions (dx_life d) \<and>
    (n \<le> 65536 \<longrightarrow> int (card (set (sent_mids d))) = transmissions (dx_life d)) \<and>
    (\<forall>adv d' seq' n'. dx_response d = Some adv \<longrightarrow> discovery_step\<^sup>*\<^sup>* (d, seq, n) (d', seq', n') \<longrightarrow> dx_response d' = Some adv)"
proof -
  have ok: "run_ok (d, seq, n)" using assms by (rule discovery.reachable_inv)
  have "dx_response (fst s') = Some adv \<and> run_ok s'" if "dx_response d = Some adv" "discovery_step\<^sup>*\<^sup>* (d, seq, n) s'" for adv s'
    using that(2)
  proof induction
    case base
    with ok that(1) show ?case by simp
  next
    case (step s' s'')
    with discovery_step_ok [OF step.hyps(2)] show ?case by auto
  qed
  then have keep: "\<forall>adv d' seq' n'. dx_response d = Some adv \<longrightarrow>
      discovery_step\<^sup>*\<^sup>* (d, seq, n) (d', seq', n') \<longrightarrow> dx_response d' = Some adv" by (metis fst_conv)
  have card: "card (set (sent_mids d)) = length (sent_mids d)" using ok by (simp add: run_ok_def discovery_ok_def distinct_card)
  show ?thesis using ok unfolding run_ok_def prod.case discovery_ok_def drawn_ok_def card by (intro conjI keep) simp_all
qed

definition searched :: "discovery \<times> mid_sequence \<times> bytes list result" where
  "searched = discovery_request example_discovery \<lparr>previous = 65535\<rparr> 1"

definition searched_again :: "discovery \<times> mid_sequence \<times> bytes list result" where
  "searched_again = discovery_request (fst searched) (fst (snd searched)) 2"

theorem discovery_stable_witness:
  "transmissions (dx_life (fst searched_again)) = 2 \<and> int (card (set (sent_mids (fst searched_again)))) = 2"
proof -
  obtain d seq r where one: "searched = (d, seq, r)" by (cases searched)
  obtain d' seq' r' where two: "searched_again = (d', seq', r')" by (cases searched_again)
  have t: "transmissions (dx_life example_discovery) = 0" "transmissions (dx_life d) = 1" "transmissions (dx_life d') = 2"
    using one two
    by (auto simp: searched_def searched_again_def discovery_request_def example_discovery_def transmit_def live_def case_prod_beta)
  have "discovery_init (example_discovery, \<lparr>previous = 65535\<rparr>, 0)"
    unfolding discovery_init_def prod.case
    by (intro conjI exI [of _ "65535"]) (intro exI, rule example_exchange, simp_all add: MidSequence_def uint_chk_def)
  then have "reachable discovery_init discovery_step (example_discovery, \<lparr>previous = 65535\<rparr>, 0)" by (rule reachable_init)
  moreover have "discovery_step (example_discovery, \<lparr>previous = 65535\<rparr>, 0) (d, seq, 1)"
    using dx_request [of example_discovery "\<lparr>previous = 65535\<rparr>" 1 d seq r 0] one t by (simp add: searched_def)
  moreover have "discovery_step (d, seq, 1) (d', seq', 2)"
    using dx_request [of d seq 2 d' seq' r' 1] two [unfolded searched_again_def one] t by (simp add: numeral_2_eq_2)
  ultimately have "reachable discovery_init discovery_step (d', seq', 2)" by (metis reachable_step)
  from discovery_stable [OF this] have "int (card (set (sent_mids d'))) = 2" using t(3) by simp
  then show ?thesis using t(3) by (simp add: two)
qed

lemma parse_response_fields:
  assumes "parse_response m ms = Inr adv"
  shows "msg_type m = RESPONSE \<and> \<not> msg_relay m \<and> concat (tlv_values m 0x0F) = [0] \<and>
    concat (tlv_values m 0x10) = [oct (adv_band adv)]"
proof -
  obtain role b where "header m RESPONSE False = Inr ()" "base m 0x0F 1 = Inr role" "role = [0]"
    and b: "base m 0x10 1 = Inr b" "adv_band adv = val (b ! 0)"
    using assms by (auto simp: parse_response_def bindR_eq_Inr Let_def simp del: insert_iff split: if_splits)
  moreover from b obtain c where "b = [c]" by (auto simp: base_def Let_def length_Suc_conv split: if_splits)
  ultimately show ?thesis by (auto simp: header_def base_def Let_def split: if_splits)
qed

text \<open>C37. What a discovery exchange accepts: a Response is accepted only before the deadline of an exchange that
  is not closed, on the bound link and generation, from one of the controller's addresses to the local
  identity, with the identifier of a Search of this exchange and the band asked for, advertising the
  Registrar role and the Controller service; otherwise the accepted advertisement is as before.\<close>

theorem discovery_receive_accepts:
  "case discovery_receive d m ingress generation now of
     (d', Inr adv) \<Rightarrow>
       now < lt_deadline (dx_life d) \<and> lt_state (dx_life d) \<noteq> Closed \<and>
       ingress = pb_ingress (dx_binding d) \<and> generation = pb_generation (dx_binding d) \<and>
       msg_source m \<in> set (source_macs (dx_binding d)) \<and> msg_destination m = local_al (dx_binding d) \<and>
       msg_type m = RESPONSE \<and> \<not> msg_relay m \<and> msg_mid m \<in> set (sent_mids d) \<and> adv_band adv = dx_band d \<and>
       concat (tlv_values m 0x0F) = [0] \<and> concat (tlv_values m 0x10) = [oct (dx_band d)] \<and>
       dx_response d' = Some adv \<and> lt_state (dx_life d') = Received
   | (d', Inl _) \<Rightarrow> dx_response d' = dx_response d"
proof -
  obtain l r where t: "live (dx_life d) now = (l, r)" by force
  show ?thesis
    using live_cases [OF t] t
    by (auto simp: discovery_receive_def discovery_checks_def binding_check_def bindR_eq_Inr
        split: sum.splits if_splits dest!: parse_response_fields)
qed

end
