(* ===== verification/Wsc_Exchange.thy ===== *)
theory Wsc_Exchange
  imports Wsc_Messages Autoconfiguration
begin

unbundle bit_operations_syntax

text \<open>
  The configuration of a radio: the meaning of an authenticated M2 set, \<open>emosa/wsc_radio.py\<close>, and the exchange of
  \<open>emosa/wire/autoconfiguration.py\<close> that sends the M1 and accepts one complete set.  An exchange is a record; the
  fresh key pair, nonce and identifier and the clock readings are arguments, the block cipher is a parameter as in
  the theory \<open>Wsc_Messages\<close>.  The histories of an exchange are \<open>wx_step\<close>; the lemmas give what is accepted exactly,
  that one exchange yields one configuration, and that a failed transcript is not used again.
\<close>

section \<open>Text encodings\<close>

text \<open>When \<open>bytes.decode("utf-8")\<close> and \<open>bytes.decode("ascii")\<close> succeed; a decoded string is represented by its octets.\<close>

definition continuation :: "octet \<Rightarrow> bool" where
  "continuation b \<longleftrightarrow> 0x80 \<le> val b \<and> val b \<le> 0xBF"

fun utf8_valid :: "bytes \<Rightarrow> bool" where
  "utf8_valid [] = True"
| "utf8_valid (a # r) =
     (if val a < 0x80 then utf8_valid r
      else if 0xC2 \<le> val a \<and> val a \<le> 0xDF then
        (case r of b # r' \<Rightarrow> continuation b \<and> utf8_valid r' | _ \<Rightarrow> False)
      else if 0xE0 \<le> val a \<and> val a \<le> 0xEF then
        (case r of b # c # r' \<Rightarrow> continuation b \<and> continuation c \<and> (val a = 0xE0 \<longrightarrow> 0xA0 \<le> val b) \<and>
           (val a = 0xED \<longrightarrow> val b \<le> 0x9F) \<and> utf8_valid r' | _ \<Rightarrow> False)
      else if 0xF0 \<le> val a \<and> val a \<le> 0xF4 then
        (case r of b # c # d # r' \<Rightarrow> continuation b \<and> continuation c \<and> continuation d \<and> (val a = 0xF0 \<longrightarrow> 0x90 \<le> val b) \<and>
           (val a = 0xF4 \<longrightarrow> val b \<le> 0x8F) \<and> utf8_valid r' | _ \<Rightarrow> False)
      else False)"

definition ascii_valid :: "bytes \<Rightarrow> bool" where
  "ascii_valid bs \<longleftrightarrow> list_all (\<lambda>b. val b < 0x80) bs"

definition removesuffix :: "bytes \<Rightarrow> bytes" where
  "removesuffix bs = (if bs \<noteq> [] \<and> last bs = 0 then butlast bs else bs)"

section \<open>The M2 set of a radio\<close>

definition MULTI_AP :: int where "MULTI_AP = 0x06"
definition BACKHAUL_STA :: int where "BACKHAUL_STA = 0x80"
definition BACKHAUL_BSS :: int where "BACKHAUL_BSS = 0x40"
definition FRONTHAUL_BSS :: int where "FRONTHAUL_BSS = 0x20"
definition TEARDOWN :: int where "TEARDOWN = 0x10"
definition PROFILE1_DISALLOWED :: int where "PROFILE1_DISALLOWED = 0x08"
definition PROFILE2_DISALLOWED :: int where "PROFILE2_DISALLOWED = 0x04"

record bss_payload =
  bp_index :: "int option"
  multi_ap_flags :: int
  bp_settings :: ap_settings

record bss_candidate =
  cand_ssid :: bytes
  cand_passphrase :: bytes
  cand_index :: "int option"

record radio_set =
  rs_action :: string
  rs_bsses :: "bss_payload list"
  advertised_authentication :: int
  advertised_encryption :: int

definition psk_candidate :: "radio_set \<Rightarrow> bss_payload \<Rightarrow> bss_candidate result" where
  "psk_candidate radio bss =
     (let settings = bp_settings bss;
          key = removesuffix (network_key settings);
          ssid = removesuffix (ap_ssid settings)
      in if authentication_type settings \<noteq> 0x20 \<or> encryption_type settings \<noteq> 0x08 \<or>
            advertised_authentication radio AND 0x20 = 0 \<or> advertised_encryption radio AND 0x08 = 0
         then unsupported
         else if \<exists>a \<in> set (ap_attributes settings). at_kind a = 0x102A \<or> at_kind a = 0x1012 then unsupported
         else if \<not> utf8_valid ssid \<or> \<not> ascii_valid key then unsupported
         else if \<not> (1 \<le> length ssid \<and> length ssid \<le> 32) then unsupported
         else if 0 \<in> set ssid then unsupported
         else if 0 \<in> set key then unsupported
         else if \<not> (8 \<le> length key \<and> length key \<le> 63) then unsupported
         else if \<exists>b \<in> set key. \<not> (0x20 \<le> val b \<and> val b \<le> 0x7E) then unsupported
         else Inr \<lparr>cand_ssid = ssid, cand_passphrase = key, cand_index = bp_index bss\<rparr>)"

definition existing_fronthaul_candidate :: "radio_set \<Rightarrow> bss_candidate result" where
  "existing_fronthaul_candidate radio =
     (if rs_action radio \<noteq> ''configure'' then unsupported
      else case rs_bsses radio of
        [bss] \<Rightarrow> if multi_ap_flags bss \<noteq> FRONTHAUL_BSS then unsupported else psk_candidate radio bss
      | _ \<Rightarrow> unsupported)"

text \<open>The role and the candidate of one BSS; an \<open>EmosaError\<close> of the candidate is raised again as unsupported.\<close>

definition role_candidate :: "radio_set \<Rightarrow> bss_payload \<Rightarrow> (string \<times> bss_candidate) result" where
  "role_candidate radio bss =
     (let flags = multi_ap_flags bss;
          candidate = (\<lambda>role. case psk_candidate radio bss of Inl (EmosaError _) \<Rightarrow> unsupported | Inl e \<Rightarrow> Inl e | Inr c \<Rightarrow> Inr (role, c))
      in if flags = FRONTHAUL_BSS then candidate ''fronthaul''
         else if flags AND NOT (PROFILE1_DISALLOWED OR PROFILE2_DISALLOWED OR BACKHAUL_STA) = BACKHAUL_BSS then candidate ''backhaul''
         else unsupported)"

definition radio_candidates :: "radio_set \<Rightarrow> (string \<times> bss_candidate) list result" where
  "radio_candidates radio =
     (if rs_action radio \<noteq> ''configure'' \<or> rs_bsses radio = [] then unsupported
      else bindR (mapR (role_candidate radio) (rs_bsses radio)) (\<lambda>pairs.
        if \<not> (\<exists>p \<in> set pairs. fst p = ''fronthaul'') then unsupported else Inr pairs))"

text \<open>The Multi-AP role of one authenticated M2, inside the encrypted settings only.\<close>

definition m2_role :: "m2_envelope \<Rightarrow> int result" where
  "m2_role envelope =
     bindR (vendor_subelements (m2_attributes envelope)) (\<lambda>outside.
     if \<exists>a \<in> set outside. at_kind a = MULTI_AP then invalid
     else bindR (vendor_subelements (config_data envelope)) (\<lambda>inside.
       case map at_value (filter (\<lambda>a. at_kind a = MULTI_AP) inside) of
         [[flags]] \<Rightarrow> Inr (val flags AND 0xFC)
       | _ \<Rightarrow> invalid))"

definition decode_radio_payloads ::
  "(bytes \<Rightarrow> bytes \<Rightarrow> bytes \<Rightarrow> bytes) \<Rightarrow> (bytes \<Rightarrow> bytes option) \<Rightarrow> m1_transcript \<Rightarrow> bytes list \<Rightarrow> int \<Rightarrow> bool \<Rightarrow> radio_set result" where
  "decode_radio_payloads cbc_decrypt unpad tr messages max_bss shared_session =
     bindR (authenticate_m2_envelopes cbc_decrypt unpad tr messages max_bss shared_session) (\<lambda>envelopes.
     bindR (decode_attributes (tr_message tr)) (\<lambda>attributes.
     let m1 = rev (map (\<lambda>a. (at_kind a, at_value a)) attributes) in
     bindR (wsc_field m1 0x1004) (\<lambda>auth. bindR (wsc_field m1 0x1010) (\<lambda>encr.
     bindR (mapR m2_role envelopes) (\<lambda>roles.
     if \<exists>flags \<in> set roles. flags AND TEARDOWN \<noteq> 0 then
       if length envelopes \<noteq> 1 then invalid
       else Inr \<lparr>rs_action = ''teardown'', rs_bsses = [], advertised_authentication = from_be auth, advertised_encryption = from_be encr\<rparr>
     else bindR (mapR (\<lambda>(envelope, flags). bindR (ap_configuration envelope) (\<lambda>m2.
              Inr \<lparr>bp_index = bss_index envelope, multi_ap_flags = flags, bp_settings = am_settings m2\<rparr>)) (zip envelopes roles)) (\<lambda>bsses.
       Inr \<lparr>rs_action = ''configure'', rs_bsses = bsses, advertised_authentication = from_be auth,
            advertised_encryption = from_be encr\<rparr>))))))"

section \<open>The exchange\<close>

record exchange_result =
  er_duplicate :: bool
  er_ruid :: bytes
  er_candidate :: "bss_candidate option"
  er_additional :: "(string \<times> bss_candidate) list"

record wsc_exchange =
  wx_life :: lifetime
  wx_binding :: peer_binding
  wx_ruid :: bytes
  wx_max_bss :: int
  wx_multi_bss :: bool
  wx_shared :: bool
  wx_capabilities :: "tlv list"
  wx_transcript :: "m1_transcript option"
  exchange_id :: string
  m1_sha256 :: bytes
  wx_digest :: "bytes option"
  wx_candidate :: "bss_candidate option"
  wx_additional :: "(string \<times> bss_candidate) list"
  wx_configuration :: "radio_set option"

text \<open>The capability payloads are given by their fields; the key pair, the nonce and the identifier are fresh.\<close>

definition WscExchange ::
  "peer_binding \<Rightarrow> m1_device \<Rightarrow> bytes \<times> int \<times> basic_operating_class list \<Rightarrow> payload \<Rightarrow> bytes \<times> int \<Rightarrow> real \<Rightarrow> real \<Rightarrow> int \<Rightarrow> string \<Rightarrow> bool \<Rightarrow>
   string \<Rightarrow> key_pair \<Rightarrow> bytes \<Rightarrow> string \<Rightarrow> wsc_exchange result" where
  "WscExchange binding device basic profile2 advanced now t budget message_set multi_bss m2_session pair nonce ident =
     (let (ruid, max_bss, classes) = basic in
      bindR (Lifetime now t budget) (\<lambda>life.
      if m1_al_mac device \<noteq> local_al binding \<or> ruid \<noteq> fst advanced then invalid
      else bindR (unicast ruid) (\<lambda>_.
      if rf_band device \<notin> set [1, 2] then unsupported
      else bindR (check_message_set message_set) (\<lambda>ms.
      if m2_session \<notin> set [''distinct'', ''shared''] then invalid
      else bindR (em_tlv (APRadioBasicCapabilities ruid max_bss classes)) (\<lambda>tlv.
      bindR (if ms = R1 then Inr [] else mapR em_tlv [profile2, APRadioAdvancedCapabilities (fst advanced) (snd advanced)]) (\<lambda>extra.
      bindR (create_m1 device pair nonce) (\<lambda>tr.
        Inr \<lparr>wx_life = life, wx_binding = binding, wx_ruid = ruid, wx_max_bss = max_bss, wx_multi_bss = multi_bss,
             wx_shared = (m2_session = ''shared''), wx_capabilities = tlv # extra, wx_transcript = Some tr, exchange_id = ident,
             m1_sha256 = sha256 (tr_message tr), wx_digest = None, wx_candidate = None, wx_additional = [],
             wx_configuration = None\<rparr>)))))))"

definition payload_budget :: "wsc_exchange \<Rightarrow> int" where
  "payload_budget x = (if wx_multi_bss x then MAX_M2_PAYLOADS else min (wx_max_bss x) MAX_M2_PAYLOADS)"

definition wx_close :: "wsc_exchange \<Rightarrow> wsc_exchange" where
  "wx_close x = x\<lparr>wx_life := lt_close (wx_life x), wx_transcript := None, wx_candidate := None, wx_digest := None,
     wx_configuration := None, wx_additional := []\<rparr>"

text \<open>\<open>_live\<close> and \<open>_transmit\<close> of the base class, which call the \<open>close\<close> of this one.\<close>

definition wx_live :: "wsc_exchange \<Rightarrow> real \<Rightarrow> wsc_exchange \<times> unit result" where
  "wx_live x now =
     (let x = (if now \<ge> lt_deadline (wx_life x) then wx_close x else x)
      in (x, if lt_state (wx_life x) = Closed then not_ready else Inr ()))"

definition wx_transmit :: "wsc_exchange \<Rightarrow> real \<Rightarrow> wsc_exchange \<times> unit result" where
  "wx_transmit x now =
     (case wx_live x now of
        (x, Inl e) \<Rightarrow> (x, Inl e)
      | (x, Inr _) \<Rightarrow>
          if lt_state (wx_life x) \<noteq> Waiting \<or> transmissions (wx_life x) \<ge> max_transmissions (wx_life x) then (x, not_ready)
          else (x\<lparr>wx_life := (wx_life x)\<lparr>transmissions := transmissions (wx_life x) + 1\<rparr>\<rparr>, Inr ()))"

definition wx_request :: "wsc_exchange \<Rightarrow> mid_sequence \<Rightarrow> real \<Rightarrow> wsc_exchange \<times> mid_sequence \<times> bytes list result" where
  "wx_request x seq now =
     (case wx_transmit x now of
        (x, Inl e) \<Rightarrow> (x, seq, Inl e)
      | (x, Inr _) \<Rightarrow>
          let (mid, seq) = next_mid seq in
          (case wx_transcript x of
             None \<Rightarrow> (x, seq, Inl AttributeError)
           | Some tr \<Rightarrow> (x, seq, fragment_message (controller_al (wx_binding x)) (local_al (wx_binding x)) WSC mid
               (hd (wx_capabilities x) # Tlv 0x11 (tr_message tr) # tl (wx_capabilities x)) False 1500)))"

definition wsc_payloads :: "message \<Rightarrow> bytes list" where
  "wsc_payloads m = tlv_values m 0x11"

definition wsc_digest :: "bytes list \<Rightarrow> bytes" where
  "wsc_digest messages = sha256 (concat (map (\<lambda>v. to_be 4 (int (length v)) @ v) messages))"

text \<open>The checks that leave the exchange as it is, and those that close it while it waits.\<close>

definition wx_addressed :: "wsc_exchange \<Rightarrow> message \<Rightarrow> string \<Rightarrow> int \<Rightarrow> unit result" where
  "wx_addressed x m ingress generation =
     bindR (binding_check (wx_binding x) m ingress generation) (\<lambda>_.
     bindR (header m WSC False) (\<lambda>_.
     if transmissions (wx_life x) = 0 then invalid
     else bindR (one m 0x82) (\<lambda>ruid. if ruid \<noteq> wx_ruid x then invalid else Inr ())))"

definition wx_admissible :: "wsc_exchange \<Rightarrow> message \<Rightarrow> unit result" where
  "wx_admissible x m =
     (if \<exists>t \<in> set (msg_tlvs m). kind t \<in> set CONFIGURATION_COMPANIONS \<and> \<not> (kind t = 0xE0 \<and> tlv_value t = [0]) then unsupported
      else if \<not> (1 \<le> length (wsc_payloads m) \<and> int (length (wsc_payloads m)) \<le> payload_budget x) then invalid
      else Inr ())"

text \<open>The decoded configuration of the set, its primary BSS and the others.\<close>

definition wx_decode ::
  "(bytes \<Rightarrow> bytes \<Rightarrow> bytes \<Rightarrow> bytes) \<Rightarrow> (bytes \<Rightarrow> bytes option) \<Rightarrow> wsc_exchange \<Rightarrow> bytes list \<Rightarrow>
   (radio_set \<times> bss_candidate \<times> (string \<times> bss_candidate) list) result" where
  "wx_decode cbc_decrypt unpad x messages =
     bindR (case wx_transcript x of None \<Rightarrow> Inl AttributeError | Some tr \<Rightarrow> Inr tr) (\<lambda>tr.
     bindR (decode_radio_payloads cbc_decrypt unpad tr messages (payload_budget x) (wx_shared x)) (\<lambda>radio.
     if wx_multi_bss x then
       bindR (radio_candidates radio) (\<lambda>pairs.
         let primary = length (takeWhile (\<lambda>p. fst p \<noteq> ''fronthaul'') pairs)
         in Inr (radio, snd (pairs ! primary), take primary pairs @ drop (primary + 1) pairs))
     else bindR (existing_fronthaul_candidate radio) (\<lambda>candidate. Inr (radio, candidate, []))))"

text \<open>\<open>except EmosaError\<close>: close while waiting, and raise again.\<close>

definition wx_fail :: "wsc_exchange \<Rightarrow> exn \<Rightarrow> wsc_exchange" where
  "wx_fail x e = (case e of EmosaError _ \<Rightarrow> if lt_state (wx_life x) = Waiting then wx_close x else x | _ \<Rightarrow> x)"

definition wx_receive ::
  "(bytes \<Rightarrow> bytes \<Rightarrow> bytes \<Rightarrow> bytes) \<Rightarrow> (bytes \<Rightarrow> bytes option) \<Rightarrow> wsc_exchange \<Rightarrow> message \<Rightarrow> string \<Rightarrow> int \<Rightarrow> real \<Rightarrow>
   wsc_exchange \<times> exchange_result result" where
  "wx_receive cbc_decrypt unpad x m ingress generation now =
     (case wx_live x now of
        (x, Inl e) \<Rightarrow> (x, Inl e)
      | (x, Inr _) \<Rightarrow>
          (case wx_addressed x m ingress generation of
             Inl e \<Rightarrow> (x, Inl e)
           | Inr _ \<Rightarrow>
               (case wx_admissible x m of
                  Inl e \<Rightarrow> (wx_fail x e, Inl e)
                | Inr _ \<Rightarrow>
                    let digest = wsc_digest (wsc_payloads m) in
                    if lt_state (wx_life x) = Received \<and> Some digest = wx_digest x
                    then (x, Inr \<lparr>er_duplicate = True, er_ruid = wx_ruid x, er_candidate = wx_candidate x, er_additional = []\<rparr>)
                    else
                      (case wx_decode cbc_decrypt unpad x (wsc_payloads m) of
                         Inl e \<Rightarrow> (wx_fail x e, Inl e)
                       | Inr (radio, candidate, additional) \<Rightarrow>
                           if lt_state (wx_life x) = Received then
                             if Some radio \<noteq> wx_configuration x then (x, invalid)
                             else (x\<lparr>wx_digest := Some digest\<rparr>,
                               Inr \<lparr>er_duplicate = True, er_ruid = wx_ruid x, er_candidate = wx_candidate x, er_additional = wx_additional x\<rparr>)
                           else (x\<lparr>wx_digest := Some digest, wx_candidate := Some candidate, wx_additional := additional,
                                   wx_configuration := Some radio, wx_life := (wx_life x)\<lparr>lt_state := Received\<rparr>\<rparr>,
                             Inr \<lparr>er_duplicate = False, er_ruid = wx_ruid x, er_candidate = Some candidate, er_additional = additional\<rparr>)))))"
section \<open>What a decoded set is\<close>

text \<open>The limits of the mapping: an SSID of 1 to 32 octets of UTF-8 without NUL, a passphrase of 8 to 63 printable characters.\<close>

definition candidate_ok :: "bss_candidate \<Rightarrow> bool" where
  "candidate_ok c \<longleftrightarrow> 1 \<le> length (cand_ssid c) \<and> length (cand_ssid c) \<le> 32 \<and> utf8_valid (cand_ssid c) \<and> 0 \<notin> set (cand_ssid c) \<and>
     8 \<le> length (cand_passphrase c) \<and> length (cand_passphrase c) \<le> 63 \<and> list_all (\<lambda>b. 0x20 \<le> val b \<and> val b \<le> 0x7E) (cand_passphrase c)"

lemma psk_candidate_ok: "psk_candidate radio bss = Inr c \<Longrightarrow> candidate_ok c"
  by (auto simp: psk_candidate_def candidate_ok_def Let_def list_all_iff split: if_splits)

lemma role_candidate_ok: "role_candidate radio bss = Inr (role, c) \<Longrightarrow> candidate_ok c"
  by (auto simp: role_candidate_def Let_def psk_candidate_ok split: if_splits sum.splits exn.splits)

lemma radio_candidates_ok:
  assumes "radio_candidates radio = Inr pairs"
  shows "rs_action radio = ''configure'' \<and> length pairs = length (rs_bsses radio) \<and> list_all candidate_ok (map snd pairs) \<and>
    (\<exists>p \<in> set pairs. fst p = ''fronthaul'')"
proof -
  have m: "mapR (role_candidate radio) (rs_bsses radio) = Inr pairs" and
    c: "rs_action radio = ''configure''" "\<exists>p \<in> set pairs. fst p = ''fronthaul''"
    using assms by (auto simp: radio_candidates_def bindR_eq_Inr split: if_splits)
  have "length pairs = length bs \<and> list_all candidate_ok (map snd pairs)" if "mapR (role_candidate radio) bs = Inr pairs" for bs pairs
    using that by (induction bs arbitrary: pairs) (auto simp: bindR_eq_Inr role_candidate_ok)
  from this [OF m] c show ?thesis by simp
qed

lemma wx_decode_ok:
  assumes "wx_decode D U x messages = Inr (radio, c, add)"
  shows "\<exists>tr. wx_transcript x = Some tr \<and> list_all (\<lambda>v. \<exists>env. authenticate_m2_envelope D U tr v = Inr env) messages \<and>
    list_all candidate_ok (c # map snd add) \<and> rs_action radio = ''configure'' \<and> length (rs_bsses radio) = Suc (length add)"
proof -
  from assms obtain tr where tr: "wx_transcript x = Some tr"
    and r: "decode_radio_payloads D U tr messages (payload_budget x) (wx_shared x) = Inr radio"
    by (auto simp: wx_decode_def bindR_eq_Inr Let_def split: option.splits if_splits)
  from r obtain envelopes where "mapR (authenticate_m2_envelope D U tr) messages = Inr envelopes"
    by (auto simp: decode_radio_payloads_def authenticate_m2_envelopes_def bindR_eq_Inr Let_def split: if_splits)
  then have auth: "list_all (\<lambda>v. \<exists>env. authenticate_m2_envelope D U tr v = Inr env) messages"
    by (induction messages arbitrary: envelopes) (auto simp: bindR_eq_Inr)
  have "list_all candidate_ok (c # map snd add) \<and> rs_action radio = ''configure'' \<and> length (rs_bsses radio) = Suc (length add)"
  proof (cases "wx_multi_bss x")
    case True
    with assms tr r obtain pairs where p: "radio_candidates radio = Inr pairs"
      "c = snd (pairs ! length (takeWhile (\<lambda>p. fst p \<noteq> ''fronthaul'') pairs))"
      "add = take (length (takeWhile (\<lambda>p. fst p \<noteq> ''fronthaul'') pairs)) pairs @ drop (length (takeWhile (\<lambda>p. fst p \<noteq> ''fronthaul'') pairs) + 1) pairs"
      by (auto simp: wx_decode_def bindR_eq_Inr Let_def)
    define k where "k = length (takeWhile (\<lambda>p. fst p \<noteq> ''fronthaul'') pairs)"
    note ok = radio_candidates_ok [OF p(1)]
    have "k < length pairs"
    proof (rule ccontr)
      assume "\<not> k < length pairs"
      then have "takeWhile (\<lambda>p. fst p \<noteq> ''fronthaul'') pairs = pairs" unfolding k_def by (metis linorder_not_less takeWhile_eq_take take_all)
      with ok show False by (auto simp: takeWhile_eq_all_conv)
    qed
    then show ?thesis using ok p(2,3) unfolding k_def [symmetric]
      by (auto simp: list_all_iff dest!: in_set_takeD in_set_dropD)
  next
    case False
    with assms tr r have e: "existing_fronthaul_candidate radio = Inr c" "add = []"
      by (auto simp: wx_decode_def bindR_eq_Inr)
    then show ?thesis by (auto simp: existing_fronthaul_candidate_def psk_candidate_ok split: if_splits list.splits)
  qed
  with tr auth show ?thesis by blast
qed

section \<open>Properties\<close>

lemma wx_live_cases:
  "wx_live x now = (x', r) \<Longrightarrow> (r = Inr () \<and> x' = x \<and> now < lt_deadline (wx_life x) \<and> lt_state (wx_life x) \<noteq> Closed) \<or>
     (r = not_ready \<and> (x' = wx_close x \<or> x' = x \<and> lt_state (wx_life x) = Closed))"
  by (auto simp: wx_live_def wx_close_def lt_close_def Let_def split: if_splits)

lemma wx_live_iff: "wx_live x now = (x', Inr ()) \<longleftrightarrow> x' = x \<and> now < lt_deadline (wx_life x) \<and> lt_state (wx_life x) \<noteq> Closed"
  by (auto simp: wx_live_def wx_close_def lt_close_def Let_def split: if_splits)

text \<open>C29. What an exchange accepts, exactly: a result is returned if and only if the exchange is open and in time, the
  message is a WSC message of the bound controller for this radio after an M1 was sent, with an admissible number
  of payloads and no companion configuration, and either it repeats the accepted set octet for octet (then the
  primary BSS is returned again, without the further ones), or its payloads decode, which means that every one of
  them authenticates against the M1 of this exchange, the action is to configure, and all candidates respect the
  limits of the mapping; a set after the accepted one must decode to the same configuration.\<close>

theorem wsc_accept_exact:
  "wx_receive D U x m ingress generation now = (x', Inr r) \<longleftrightarrow>
   now < lt_deadline (wx_life x) \<and> lt_state (wx_life x) \<noteq> Closed \<and> wx_addressed x m ingress generation = Inr () \<and> wx_admissible x m = Inr () \<and>
   (if lt_state (wx_life x) = Received \<and> wx_digest x = Some (wsc_digest (wsc_payloads m))
    then x' = x \<and> r = \<lparr>er_duplicate = True, er_ruid = wx_ruid x, er_candidate = wx_candidate x, er_additional = []\<rparr>
    else \<exists>tr radio c add. wx_transcript x = Some tr \<and> wx_decode D U x (wsc_payloads m) = Inr (radio, c, add) \<and>
      list_all (\<lambda>v. \<exists>env. authenticate_m2_envelope D U tr v = Inr env) (wsc_payloads m) \<and>
      list_all candidate_ok (c # map snd add) \<and> rs_action radio = ''configure'' \<and> length (rs_bsses radio) = Suc (length add) \<and>
      (if lt_state (wx_life x) = Received
       then wx_configuration x = Some radio \<and> x' = x\<lparr>wx_digest := Some (wsc_digest (wsc_payloads m))\<rparr> \<and>
         r = \<lparr>er_duplicate = True, er_ruid = wx_ruid x, er_candidate = wx_candidate x, er_additional = wx_additional x\<rparr>
       else x' = x\<lparr>wx_digest := Some (wsc_digest (wsc_payloads m)), wx_candidate := Some c, wx_additional := add,
                   wx_configuration := Some radio, wx_life := (wx_life x)\<lparr>lt_state := Received\<rparr>\<rparr> \<and>
         r = \<lparr>er_duplicate = False, er_ruid = wx_ruid x, er_candidate = Some c, er_additional = add\<rparr>))"
proof (cases "now < lt_deadline (wx_life x) \<and> lt_state (wx_life x) \<noteq> Closed")
  case True
  then have live: "wx_live x now = (x, Inr ())" by (simp add: wx_live_iff)
  show ?thesis
  proof (cases "wx_addressed x m ingress generation = Inr () \<and> wx_admissible x m = Inr ()")
    case ok: True
    show ?thesis
    proof (cases "wx_decode D U x (wsc_payloads m)")
      case (Inl e)
      then show ?thesis using live True ok by (auto simp: wx_receive_def Let_def)
    next
      case (Inr d)
      obtain radio c add where d: "d = (radio, c, add)" by (cases d) auto
      then show ?thesis using live True ok Inr wx_decode_ok [of D U x "wsc_payloads m" radio c add]
        by (auto simp: wx_receive_def Let_def)
    qed
  next
    case False
    then show ?thesis using live by (auto simp: wx_receive_def split: sum.splits)
  qed
next
  case False
  then have "snd (wx_live x now) \<noteq> Inr ()" by (metis prod.collapse wx_live_iff)
  then show ?thesis using False by (auto simp: wx_receive_def split: prod.splits sum.splits)
qed
section \<open>Histories of an exchange\<close>

inductive wx_step :: "wsc_exchange \<Rightarrow> wsc_exchange \<Rightarrow> bool" where
  wx_step_request: "wx_request x seq now = (x', seq', r) \<Longrightarrow> wx_step x x'"
| wx_step_receive: "wx_receive D U x m ingress generation now = (x', r) \<Longrightarrow> wx_step x x'"
| wx_step_close: "wx_step x (wx_close x)"

definition wx_init :: "wsc_exchange \<Rightarrow> bool" where
  "wx_init x \<longleftrightarrow> (\<exists>b d basic p2 adv now t n ms multi session pair nonce ident.
     WscExchange b d basic p2 adv now t n ms multi session pair nonce ident = Inr x)"

definition wx_ok :: "wsc_exchange \<Rightarrow> bool" where
  "wx_ok x \<longleftrightarrow>
     (case lt_state (wx_life x) of
        Waiting \<Rightarrow> wx_transcript x \<noteq> None \<and> wx_candidate x = None \<and> wx_additional x = [] \<and> wx_configuration x = None
      | Received \<Rightarrow> wx_transcript x \<noteq> None \<and> wx_candidate x \<noteq> None \<and> wx_configuration x \<noteq> None
      | Closed \<Rightarrow> wx_transcript x = None \<and> wx_candidate x = None \<and> wx_additional x = [] \<and> wx_configuration x = None)"

text \<open>How one operation changes an exchange: not at all but for counters, by closing it, or by accepting a set.\<close>

definition wx_kept :: "wsc_exchange \<Rightarrow> wsc_exchange \<Rightarrow> bool" where
  "wx_kept x x' \<longleftrightarrow> lt_state (wx_life x') = lt_state (wx_life x) \<and> wx_transcript x' = wx_transcript x \<and> wx_candidate x' = wx_candidate x \<and>
     wx_additional x' = wx_additional x \<and> wx_configuration x' = wx_configuration x \<and> wx_ruid x' = wx_ruid x"

definition wx_accepted :: "wsc_exchange \<Rightarrow> wsc_exchange \<Rightarrow> bool" where
  "wx_accepted x x' \<longleftrightarrow> lt_state (wx_life x) \<noteq> Received \<and> lt_state (wx_life x) \<noteq> Closed \<and> lt_state (wx_life x') = Received \<and> wx_transcript x \<noteq> None \<and>
     wx_transcript x' = wx_transcript x \<and> wx_candidate x' \<noteq> None \<and> wx_configuration x' \<noteq> None \<and> wx_ruid x' = wx_ruid x"

lemma wx_kept_refl [simp]: "wx_kept x x"
  by (simp add: wx_kept_def)

lemma wx_request_effect:
  assumes "wx_request x seq now = (x', seq', r)"
  shows "wx_kept x x' \<or> x' = wx_close x"
proof -
  obtain y s where l: "wx_live x now = (y, s)" by fastforce
  from wx_live_cases [OF l] l assms show ?thesis
    by (auto simp: wx_request_def wx_transmit_def wx_kept_def Let_def split: if_splits option.splits prod.splits)
qed

lemma wx_receive_effect:
  assumes "wx_receive D U x m ingress generation now = (x', r)"
  shows "wx_kept x x' \<or> x' = wx_close x \<or> wx_accepted x x'"
proof -
  obtain y s where l: "wx_live x now = (y, s)" by fastforce
  from wx_live_cases [OF l] show ?thesis
  proof (elim disjE conjE)
    assume "s = Inr ()" "y = x" and nc: "lt_state (wx_life x) \<noteq> Closed"
    then have l: "wx_live x now = (x, Inr ())" using l by simp
    show ?thesis
    proof (cases "wx_decode D U x (wsc_payloads m)")
      case (Inl e)
      then show ?thesis using l assms by (auto simp: wx_receive_def wx_fail_def Let_def split: if_splits sum.splits exn.splits)
    next
      case (Inr d)
      obtain radio c add where d: "d = (radio, c, add)" by (cases d) auto
      have "wx_transcript x \<noteq> None" using Inr by (auto simp: wx_decode_def split: option.splits)
      then show ?thesis using l nc assms Inr d
        by (auto simp: wx_receive_def wx_fail_def wx_kept_def wx_accepted_def Let_def split: if_splits sum.splits exn.splits)
    qed
  qed (use l assms in \<open>auto simp: wx_receive_def\<close>)
qed

lemma wx_step_effect: "wx_step x x' \<Longrightarrow> wx_kept x x' \<or> x' = wx_close x \<or> wx_accepted x x'"
  by (auto elim!: wx_step.cases dest: wx_request_effect wx_receive_effect)

lemma wx_ok_close [simp]: "wx_ok (wx_close x)"
  by (simp add: wx_ok_def wx_close_def lt_close_def)

lemma wx_ok_step:
  assumes "wx_ok x" "wx_step x x'"
  shows "wx_ok x'"
  using wx_step_effect [OF assms(2)]
proof (elim disjE)
  assume "x' = wx_close x"
  then show ?thesis by simp
qed (use assms(1) in \<open>auto simp: wx_ok_def wx_kept_def wx_accepted_def split: exchange_state.splits\<close>)

lemma wx_ok_init: "wx_init x \<Longrightarrow> wx_ok x"
  by (auto simp: wx_init_def WscExchange_def Lifetime_def wx_ok_def bindR_eq_Inr Let_def split: if_splits prod.splits)

interpretation wsc_history: state_invariant wx_init wx_step wx_ok
  by unfold_locales (fact wx_ok_init wx_ok_step)+

text \<open>After acceptance: the same candidate, or closed for good.\<close>

definition wx_holds :: "wsc_exchange \<Rightarrow> wsc_exchange \<Rightarrow> bool" where
  "wx_holds x y \<longleftrightarrow> lt_state (wx_life y) = Closed \<or> lt_state (wx_life y) = Received \<and> wx_candidate y = wx_candidate x \<and>
     wx_additional y = wx_additional x \<and> wx_configuration y = wx_configuration x \<and> wx_ruid y = wx_ruid x"

lemma wx_holds_steps:
  assumes "wx_step\<^sup>*\<^sup>* x y" "lt_state (wx_life x) = Received"
  shows "wx_holds x y"
  using assms(1)
proof (induction rule: rtranclp_induct)
  case (step y z)
  then show ?case using wx_step_effect [OF step(2)]
    by (auto simp: wx_holds_def wx_kept_def wx_accepted_def wx_close_def lt_close_def)
qed (use assms(2) in \<open>simp add: wx_holds_def\<close>)

lemma wx_closed_steps:
  assumes "wx_step\<^sup>*\<^sup>* x y" "lt_state (wx_life x) = Closed" "wx_transcript x = None"
  shows "lt_state (wx_life y) = Closed \<and> wx_transcript y = None"
  using assms(1)
proof (induction rule: rtranclp_induct)
  case (step y z)
  then show ?case using wx_step_effect [OF step(2)] by (auto simp: wx_kept_def wx_accepted_def wx_close_def lt_close_def)
qed (use assms in simp)

lemma wx_receive_result:
  assumes "wx_receive D U x m ingress generation now = (x', Inr r)"
  shows "lt_state (wx_life x) \<noteq> Closed \<and> lt_state (wx_life x') = Received \<and> er_candidate r = wx_candidate x' \<and> er_ruid r = wx_ruid x' \<and>
    (er_additional r = wx_additional x' \<or> er_additional r = []) \<and> (er_duplicate r \<longleftrightarrow> lt_state (wx_life x) = Received)"
proof -
  obtain y s where l: "wx_live x now = (y, s)" by fastforce
  with assms have "s = Inr ()" by (cases s) (auto simp: wx_receive_def)
  then have "y = x" "lt_state (wx_life x) \<noteq> Closed" using l by (simp_all add: wx_live_iff)
  with \<open>s = Inr ()\<close> l assms show ?thesis
    by (auto simp: wx_receive_def Let_def split: if_splits sum.splits prod.splits)
qed

text \<open>C30. One exchange gives one configuration: once a result was returned, every later result of the same exchange,
  after whatever was requested, received or refused in between, is marked as a repetition and names the same
  radio and the same primary BSS, and the same further BSSs or none.\<close>

theorem wsc_exchange_stable:
  assumes "wx_receive D U x m ingress generation now = (x1, Inr r)"
    and "wx_step\<^sup>*\<^sup>* x1 x2"
    and "wx_receive D U x2 m2 ingress2 generation2 now2 = (x3, Inr s)"
  shows "er_duplicate s \<and> er_ruid s = er_ruid r \<and> er_candidate s = er_candidate r \<and> er_additional s \<in> {[], wx_additional x1}"
proof -
  note r = wx_receive_result [OF assms(1)] and s = wx_receive_result [OF assms(3)]
  have h: "wx_holds x1 x2" using wx_holds_steps [OF assms(2)] r by simp
  then have "lt_state (wx_life x2) = Received" using s by (simp add: wx_holds_def)
  moreover have "wx_holds x2 x3"
    using wx_holds_steps [OF r_into_rtranclp [of wx_step, OF wx_step_receive [OF assms(3)]]] calculation by simp
  ultimately show ?thesis using h r s by (auto simp: wx_holds_def)
qed

text \<open>C31. A failed transcript is never used again: when a set that is addressed to a waiting exchange is refused with a
  typed error, the exchange is closed and its transcript dropped; whatever is tried afterwards, every request and
  every reception is refused.\<close>

theorem wsc_failure_final:
  assumes "lt_state (wx_life x) = Waiting" "wx_addressed x m ingress generation = Inr ()"
    and "wx_receive D U x m ingress generation now = (x1, Inl (EmosaError e))"
    and "wx_step\<^sup>*\<^sup>* x1 x2"
  shows "lt_state (wx_life x2) = Closed \<and> wx_transcript x2 = None \<and> snd (snd (wx_request x2 seq t)) = not_ready \<and>
    snd (wx_receive D' U' x2 m' ingress' generation' t) = not_ready"
proof -
  obtain y s where l: "wx_live x now = (y, s)" by fastforce
  have x1: "x1 = wx_close x" using wx_live_cases [OF l] l assms(1-3)
    by (auto simp: wx_receive_def wx_fail_def Let_def split: if_splits sum.splits prod.splits)
  have closed: "lt_state (wx_life x2) = Closed \<and> wx_transcript x2 = None"
    using wx_closed_steps [OF assms(4)] unfolding x1 by (simp add: wx_close_def lt_close_def)
  moreover obtain z u where z: "wx_live x2 t = (z, u)" by fastforce
  moreover have "u = not_ready" using wx_live_cases [OF z] closed by auto
  ultimately show ?thesis by (simp add: wx_request_def wx_transmit_def wx_receive_def)
qed
definition waiting_exchange :: wsc_exchange where
  "waiting_exchange = \<lparr>wx_life = \<lparr>lt_deadline = 5, max_transmissions = 3, transmissions = 1, lt_state = Waiting\<rparr>, wx_binding = example_binding,
     wx_ruid = [2, 0, 0, 0, 0, 7], wx_max_bss = 1, wx_multi_bss = False, wx_shared = False, wx_capabilities = [Tlv 0x85 []],
     wx_transcript = Some \<lparr>tr_message = [], tr_key_pair = example_pair\<rparr>, exchange_id = ''x'', m1_sha256 = [], wx_digest = None,
     wx_candidate = None, wx_additional = [], wx_configuration = None\<rparr>"

definition example_candidate :: bss_candidate where
  "example_candidate = \<lparr>cand_ssid = [110, 101, 116], cand_passphrase = replicate 8 97, cand_index = None\<rparr>"

definition received_exchange :: wsc_exchange where
  "received_exchange = waiting_exchange\<lparr>wx_life := \<lparr>lt_deadline = 5, max_transmissions = 3, transmissions = 1, lt_state = Received\<rparr>,
     wx_digest := Some (wsc_digest [[1, 2, 3]]), wx_candidate := Some example_candidate,
     wx_configuration := Some \<lparr>rs_action = ''configure'', rs_bsses = [], advertised_authentication = 0x20, advertised_encryption = 8\<rparr>\<rparr>"

definition m2_message :: "bytes list \<Rightarrow> message" where
  "m2_message payloads = \<lparr>msg_destination = [2, 0, 0, 0, 0, 1], msg_source = [2, 0, 0, 0, 0, 9], msg_type = 9, msg_mid = 3, msg_relay = False,
     msg_tlvs = Tlv 0x82 [2, 0, 0, 0, 0, 7] # map (Tlv 0x11) payloads, msg_fragments = 1\<rparr>"

lemma example_addressed:
  assumes "x = waiting_exchange \<or> x = received_exchange"
  shows "wx_addressed x (m2_message ps) ''eth0'' 0 = Inr ()"
proof -
  have "tlv_values (m2_message ps) 0x82 = [[2, 0, 0, 0, 0, 7]]" "\<not> has_kind (m2_message ps) SECURITY_ENVELOPES"
    by (auto simp: tlv_values_def m2_message_def has_kind_def SECURITY_ENVELOPES_def filter_empty_conv)
  with assms show ?thesis
    by (auto simp: wx_addressed_def binding_check_def header_def one_def unicast_def mac_def WSC_def zeros_6 m2_message_def
        waiting_exchange_def received_exchange_def example_binding_def)
qed

lemma example_payloads: "wsc_payloads (m2_message ps) = ps"
  by (simp add: wsc_payloads_def tlv_values_def m2_message_def o_def filter_map)

lemma example_admissible: "wx_admissible received_exchange (m2_message [[1, 2, 3]]) = Inr ()" "wx_admissible waiting_exchange (m2_message []) = invalid"
  by (simp_all add: wx_admissible_def example_payloads payload_budget_def received_exchange_def waiting_exchange_def MAX_M2_PAYLOADS_def)
    (simp_all add: m2_message_def CONFIGURATION_COMPANIONS_def)

lemma example_repetition:
  "wx_receive D U received_exchange (m2_message [[1, 2, 3]]) ''eth0'' 0 1 = (received_exchange,
     Inr \<lparr>er_duplicate = True, er_ruid = [2, 0, 0, 0, 0, 7], er_candidate = Some example_candidate, er_additional = []\<rparr>)"
proof -
  have "wx_live received_exchange 1 = (received_exchange, Inr ())" by (simp add: wx_live_iff received_exchange_def waiting_exchange_def)
  then show ?thesis by (simp add: wx_receive_def example_addressed example_admissible example_payloads)
    (simp add: received_exchange_def waiting_exchange_def)
qed

theorem wsc_exchange_stable_witness:
  "\<exists>r s. wx_receive (\<lambda>_ _ c. c) Some received_exchange (m2_message [[1, 2, 3]]) ''eth0'' 0 1 = (received_exchange, Inr r) \<and>
     wx_receive (\<lambda>_ _ c. c) Some received_exchange (m2_message [[1, 2, 3]]) ''eth0'' 0 1 = (received_exchange, Inr s) \<and>
     er_duplicate s \<and> er_candidate s = er_candidate r"
proof -
  note rep = example_repetition [of "\<lambda>_ _ c. c" Some]
  from wsc_exchange_stable [OF rep rtranclp.rtrancl_refl rep] rep show ?thesis by blast
qed

lemma example_failure:
  "wx_receive D U waiting_exchange (m2_message []) ''eth0'' 0 1 = (wx_close waiting_exchange, Inl (EmosaError INVALID_INPUT))"
proof -
  have "wx_live waiting_exchange 1 = (waiting_exchange, Inr ())" by (simp add: wx_live_iff waiting_exchange_def)
  then show ?thesis by (simp add: wx_receive_def example_addressed example_admissible wx_fail_def) (simp add: waiting_exchange_def)
qed

theorem wsc_failure_final_witness:
  "wx_receive (\<lambda>_ _ c. c) Some waiting_exchange (m2_message []) ''eth0'' 0 1 = (wx_close waiting_exchange, Inl (EmosaError INVALID_INPUT)) \<and>
   snd (snd (wx_request (wx_close waiting_exchange) \<lparr>previous = 1\<rparr> 2)) = not_ready \<and>
   snd (wx_receive (\<lambda>_ _ c. c) Some (wx_close waiting_exchange) (m2_message [[1]]) ''eth0'' 0 2) = not_ready"
proof -
  have "lt_state (wx_life waiting_exchange) = Waiting" by (simp add: waiting_exchange_def)
  from wsc_failure_final [where D = "\<lambda>_ _ c. c" and U = Some and D' = "\<lambda>_ _ c. c" and U' = Some and seq = "\<lparr>previous = 1\<rparr>" and t = 2
      and m' = "m2_message [[1]]" and ingress' = "''eth0''" and generation' = 0, OF this example_addressed example_failure rtranclp.rtrancl_refl]
  show ?thesis using example_failure by simp
qed

end
