(* ===== verification/Topology_Values.thy ===== *)
theory Topology_Values
  imports Cmdu Easymesh_Payloads
begin

unbundle bit_operations_syntax

text \<open>
  The IEEE 1905 topology values of \<open>emosa/wire/topology_values.py\<close>: device information, bridging
  capability, and the two neighbor lists. The lemmas show that every value the encoder accepts fits
  a TLV and is decoded to itself.
\<close>

section \<open>Model\<close>

record local_interface =
  li_mac :: bytes
  media_type :: int
  media_specific :: bytes

record neighbor =
  nb_al_mac :: bytes
  bridges_present :: bool

datatype topology =
    DeviceInformation bytes "local_interface list"
  | BridgingCapability "bytes list list"
  | Non1905Neighbors bytes "bytes list"
  | Neighbors1905 bytes "neighbor list"

fun topology_kind :: "topology \<Rightarrow> int" where
  "topology_kind (DeviceInformation _ _) = 3"
| "topology_kind (BridgingCapability _) = 4"
| "topology_kind (Non1905Neighbors _ _) = 6"
| "topology_kind (Neighbors1905 _ _) = 7"

definition media_length :: "int \<Rightarrow> nat option" where
  "media_length k =
     (if k \<in> set [0x100..0x107] then Some 10
      else map_of [(0, 0), (1, 0), (0x108, 0), (0x109, 0), (0x200, 7), (0x201, 7), (0x300, 0), (0xFFFF, 0)] k)"

definition media :: "local_interface \<Rightarrow> bool \<Rightarrow> unit result" where
  "media intf sending =
     (let k = media_type intf; v = media_specific intf in
      bindR (uint_chk k 16) (\<lambda>_.
        case media_length k of
          None \<Rightarrow> unsupported
        | Some n \<Rightarrow>
            if length v \<noteq> n then invalid
            else if 0x100 \<le> k \<and> k \<le> 0x107 then
              (if drop_bit 4 (val (v ! 6)) \<notin> set [0, 4, 8, 9, 10] then unsupported
               else if sending \<and> val (v ! 6) AND 15 \<noteq> 0 then invalid
               else Inr ())
            else Inr ()))"

definition topology_count :: "'a list \<Rightarrow> bytes result" where
  "topology_count items = bindR (uint_chk (int (length items)) 8) (\<lambda>n. Inr [oct n])"

definition encode_interface :: "local_interface \<Rightarrow> bytes result" where
  "encode_interface intf =
     bindR (media intf True) (\<lambda>_. bindR (mac (li_mac intf)) (\<lambda>m.
       Inr (m @ u16 (media_type intf) @ [oct (int (length (media_specific intf)))] @ media_specific intf)))"

definition encode_neighbor :: "neighbor \<Rightarrow> bytes result" where
  "encode_neighbor n = bindR (mac (nb_al_mac n)) (\<lambda>m. Inr (m @ [if bridges_present n then 0x80 else 0]))"

fun encode_topology_data :: "topology \<Rightarrow> bytes result" where
  "encode_topology_data (DeviceInformation al intfs) =
     bindR (catR (mac al) (topology_count intfs)) (\<lambda>head. catR (Inr head) (joinR encode_interface intfs))"
| "encode_topology_data (BridgingCapability groups) =
     catR (topology_count groups) (joinR (\<lambda>group. catR (topology_count group) (joinR mac group)) groups)"
| "encode_topology_data (Non1905Neighbors local ns) =
     bindR (mac local) (\<lambda>head.
       if length ns > (MAX_VALUE - 6) div 6 then invalid else catR (Inr head) (joinR mac ns))"
| "encode_topology_data (Neighbors1905 local ns) =
     bindR (mac local) (\<lambda>head.
       if length ns > (MAX_VALUE - 6) div 7 then invalid else catR (Inr head) (joinR encode_neighbor ns))"

definition encode_topology :: "topology \<Rightarrow> bytes result" where
  "encode_topology v =
     bindR (encode_topology_data v) (\<lambda>data. if length data > MAX_VALUE then invalid else Inr data)"

definition get_interface :: "local_interface parser" where
  "get_interface = thenP (get_bytes 6) (\<lambda>m. thenP get_u16 (\<lambda>k. thenP get_octet (\<lambda>n. thenP (get_bytes (nat n)) (\<lambda>v.
     let intf = \<lparr>li_mac = m, media_type = k, media_specific = v\<rparr> in
     case media intf False of Inl e \<Rightarrow> failP e | Inr _ \<Rightarrow> returnP intf))))"

definition get_neighbor :: "neighbor parser" where
  "get_neighbor = thenP (get_bytes 6) (\<lambda>m. thenP get_octet (\<lambda>f. returnP \<lparr>nb_al_mac = m, bridges_present = (f AND 0x80 \<noteq> 0)\<rparr>))"

text \<open>The records that fill the rest of the value.\<close>

definition get_records :: "nat \<Rightarrow> 'a parser \<Rightarrow> 'a list parser" where
  "get_records width p bs = (if length bs mod width \<noteq> 0 then invalid else timesP (length bs div width) p bs)"

definition decode_topology_data :: "int \<Rightarrow> topology parser" where
  "decode_topology_data k =
     (if k = 3 then
        thenP (get_bytes 6) (\<lambda>al. thenP (counted get_interface) (\<lambda>intfs. returnP (DeviceInformation al intfs)))
      else if k = 4 then
        thenP (counted (counted (get_bytes 6))) (\<lambda>groups. returnP (BridgingCapability groups))
      else if k = 6 then
        thenP (get_bytes 6) (\<lambda>local. thenP (get_records 6 (get_bytes 6)) (\<lambda>ns. returnP (Non1905Neighbors local ns)))
      else if k = 7 then
        thenP (get_bytes 6) (\<lambda>local. thenP (get_records 7 get_neighbor) (\<lambda>ns. returnP (Neighbors1905 local ns)))
      else failP (EmosaError UNSUPPORTED_OPERATION))"

definition decode_topology :: "int \<Rightarrow> bytes \<Rightarrow> topology result" where
  "decode_topology k data =
     (if length data > MAX_VALUE then invalid
      else bindR (decode_topology_data k data) (\<lambda>(v, rest). if rest \<noteq> [] then invalid else Inr v))"

section \<open>Round trip\<close>

lemma topology_count_eq_Inr [result_simps]: "topology_count xs = Inr b \<longleftrightarrow> length xs < 256 \<and> b = [oct (int (length xs))]"
  by (auto simp: topology_count_def result_simps)

definition interface_ok :: "local_interface \<Rightarrow> bool" where
  "interface_ok i \<longleftrightarrow> length (li_mac i) = 6 \<and> media i True = Inr ()"

definition put_interface :: "local_interface \<Rightarrow> bytes" where
  "put_interface i = li_mac i @ u16 (media_type i) @ put_limited (media_specific i)"

definition put_neighbor :: "neighbor \<Rightarrow> bytes" where
  "put_neighbor n = nb_al_mac n @ [if bridges_present n then 0x80 else 0]"

lemma media_length_le: "media_length k = Some n \<Longrightarrow> n \<le> 10"
  by (auto simp: media_length_def split: if_splits)

lemma media_sending: "media i True = Inr () \<Longrightarrow> media i False = Inr () \<and> length (media_specific i) \<le> 10 \<and>
    0 \<le> media_type i \<and> media_type i < 65536"
  using media_length_le [of "media_type i"]
  by (auto simp: media_def Let_def result_simps split: option.splits if_splits)

interpretation interface: prefix_codec put_interface get_interface interface_ok
proof
  show "get_interface (put_interface i @ rest) = Inr (i, rest)" if "interface_ok i" for i rest
    using that media_sending [of i]
    by (cases i) (simp add: get_interface_def put_interface_def interface_ok_def put_limited_def thenP_def codec_simps Let_def)
qed

interpretation neighbor: prefix_codec put_neighbor get_neighbor "\<lambda>n. length (nb_al_mac n) = 6"
proof
  show "get_neighbor (put_neighbor n @ rest) = Inr (n, rest)" if "length (nb_al_mac n) = 6" for n rest
    using that by (simp add: get_neighbor_def put_neighbor_def thenP_def codec_simps)
qed

interpretation mac_group: prefix_codec "put_counted (\<lambda>m. m)" "counted (get_bytes 6)" "\<lambda>g. length g < 256 \<and> list_all (\<lambda>m. length m = 6) g"
  by unfold_locales (simp add: raw.counted_get_put)

lemma get_records_put:
  assumes "prefix_codec put get ok" "list_all ok xs" "\<And>x. ok x \<Longrightarrow> length (put x) = width" "0 < width"
  shows "get_records width get (concat (map put xs)) = Inr (xs, [])"
proof -
  have "length (concat (map put xs)) = width * length xs"
    using assms(2,3) by (induction xs) auto
  with assms(4) prefix_codec.times_get_put [OF assms(1,2), of "length xs" "[]"] show ?thesis
    by (simp add: get_records_def)
qed

lemma decode_encode_topology:
  assumes "encode_topology v = Inr bs"
  shows "decode_topology (topology_kind v) bs = Inr v"
proof -
  from assms have data: "encode_topology_data v = Inr bs" and len: "length bs \<le> MAX_VALUE"
    by (auto simp: encode_topology_def result_simps)
  have "decode_topology_data (topology_kind v) bs = Inr (v, [])"
  proof (cases v)
    case (DeviceInformation al intfs)
    then obtain r where r: "joinR encode_interface intfs = Inr r" "length al = 6" "length intfs < 256"
      "bs = al @ oct (int (length intfs)) # r"
      using data by (auto simp: result_simps)
    have "list_all interface_ok intfs \<and> r = concat (map put_interface intfs)"
      using r(1) by (rule joinR_layout)
        (auto simp: encode_interface_def interface_ok_def put_interface_def put_limited_def result_simps)
    with r DeviceInformation interface.counted_prefix [of intfs "[]"] show ?thesis
      by (simp add: decode_topology_data_def thenP_def codec_simps put_counted_def)
  next
    case (BridgingCapability groups)
    then obtain r where r: "joinR (\<lambda>group. catR (topology_count group) (joinR mac group)) groups = Inr r"
      "length groups < 256" "bs = oct (int (length groups)) # r"
      using data by (auto simp: result_simps)
    have macs: "list_all (\<lambda>m. length m = 6) g \<and> b = concat (map (\<lambda>m. m) g)" if "joinR mac g = Inr b" for g b
      using that by (rule joinR_layout) (simp_all add: result_simps)
    have "list_all (\<lambda>g. length g < 256 \<and> list_all (\<lambda>m. length m = 6) g) groups \<and> r = concat (map (put_counted (\<lambda>m. m)) groups)"
      using r(1) by (rule joinR_layout) (auto simp: result_simps put_counted_def dest: macs)
    with r BridgingCapability mac_group.counted_prefix [of groups "[]"] show ?thesis
      by (simp add: decode_topology_data_def thenP_def codec_simps put_counted_def [of "put_counted (\<lambda>m. m)"])
  next
    case (Non1905Neighbors local ns)
    then obtain r where r: "joinR mac ns = Inr r" "length local = 6" "bs = local @ r"
      using data by (auto simp: result_simps)
    have "list_all (\<lambda>m. length m = 6) ns \<and> r = concat (map (\<lambda>m. m) ns)"
      using r(1) by (rule joinR_layout) (simp_all add: result_simps)
    with r Non1905Neighbors get_records_put [OF raw.prefix_codec_axioms, of 6 ns 6] show ?thesis
      by (simp add: decode_topology_data_def thenP_def codec_simps)
  next
    case (Neighbors1905 local ns)
    then obtain r where r: "joinR encode_neighbor ns = Inr r" "length local = 6" "bs = local @ r"
      using data by (auto simp: result_simps)
    have "list_all (\<lambda>n. length (nb_al_mac n) = 6) ns \<and> r = concat (map put_neighbor ns)"
      using r(1) by (rule joinR_layout) (auto simp: encode_neighbor_def put_neighbor_def result_simps)
    with r Neighbors1905 get_records_put [OF neighbor.prefix_codec_axioms, of ns 7] show ?thesis
      by (simp add: decode_topology_data_def thenP_def codec_simps put_neighbor_def)
  qed
  with len show ?thesis by (simp add: decode_topology_def)
qed

interpretation topology_value: value_codec "\<lambda>v. if topology_kind v = k then encode_topology v else invalid"
  "decode_topology k" "\<lambda>v. v" for k
  by unfold_locales (auto simp: decode_encode_topology split: if_splits)

section \<open>Properties\<close>

text \<open>C27. A topology value that the encoder accepts can be sent as a TLV of its type, and decoding the value
  octets under that type gives the value back.\<close>

theorem topology_roundtrip:
  assumes "encode_topology v = Inr bs"
  shows "decode_topology (topology_kind v) bs = Inr v \<and>
    (\<exists>tlv. tlv_encode (Tlv (topology_kind v) bs) = Inr tlv \<and> parse_tlvs (tlv @ END_TLV) True = Inr [Tlv (topology_kind v) bs])"
proof -
  have "tlv_ok (Tlv (topology_kind v) bs)"
    using assms by (cases v) (auto simp: tlv_ok_def encode_topology_def result_simps)
  then have "tlv_encode (Tlv (topology_kind v) bs) = Inr (put_tlv (Tlv (topology_kind v) bs)) \<and>
      parse_tlvs (put_tlv (Tlv (topology_kind v) bs) @ END_TLV) True = Inr [Tlv (topology_kind v) bs]"
    using parse_tlvs_final [of "[Tlv (topology_kind v) bs]" "[]"] by (simp add: tlv_encode_eq MAX_TLVS_def put_tlvs_def)
  moreover have "decode_topology (topology_kind v) bs = Inr v"
    using topology_value.decode_encode [where k = "topology_kind v" and x = v] assms by simp
  ultimately show ?thesis by blast
qed

theorem topology_roundtrip_witness:
  "decode_topology 7 [2, 0, 0, 0, 0, 1, 2, 0, 0, 0, 0, 9, 128] =
    Inr (Neighbors1905 [2, 0, 0, 0, 0, 1] [\<lparr>nb_al_mac = [2, 0, 0, 0, 0, 9], bridges_present = True\<rparr>])"
proof -
  have "encode_topology (Neighbors1905 [2, 0, 0, 0, 0, 1] [\<lparr>nb_al_mac = [2, 0, 0, 0, 0, 9], bridges_present = True\<rparr>]) =
      Inr [2, 0, 0, 0, 0, 1, 2, 0, 0, 0, 0, 9, 128]"
    by (simp add: encode_topology_def mac_def catR_def joinR_def encode_neighbor_def MAX_VALUE_def)
  from topology_roundtrip [OF this] show ?thesis by simp
qed

end
