(* ===== verification/Reports.thy ===== *)
theory Reports
  imports Autoconfiguration Topology_Values
begin

unbundle bit_operations_syntax

text \<open>
  Report construction and guarded delivery of \<open>emosa/wire/reports.py\<close>: stamps, the synchronous writer of
  a prepared report, the Early AP Capability Report, and the Topology Response. What the writer reads
  from its environment (the current stamp and the clock before and after each frame, the outcome of
  each write) is an argument; the frames handed to the socket are part of its result. The lemmas show
  that no frame leaves unless the report is fresh, what the checks on the inventories guarantee, and
  that the TLVs of an accepted report decode to the facts.
\<close>

section \<open>Stamps and delivery\<close>

definition EARLY_AP_REPORT :: int where "EARLY_AP_REPORT = 0x8043"
definition PSK :: bytes where "PSK = [0x00, 0x0f, 0xac, 0x02]"
definition CCMP128 :: bytes where "CCMP128 = [0x00, 0x0f, 0xac, 0x04]"

definition require :: "bool \<Rightarrow> unit result" where
  "require b = ensure b (EmosaError NOT_READY)"

definition identity :: "bytes \<Rightarrow> unit result" where
  "identity v = (if length v \<noteq> 6 \<or> v = replicate 6 0 \<or> val (v ! 0) AND 1 \<noteq> 0 then invalid else Inr ())"

definition unique :: "bytes list \<Rightarrow> unit result" where
  "unique vs = bindR (mapR identity vs) (\<lambda>_. require (card (set vs) = length vs))"

record report_stamp =
  token :: string
  observed_at :: real
  valid_until :: real

definition ReportStamp :: "string \<Rightarrow> real \<Rightarrow> real \<Rightarrow> report_stamp result" where
  "ReportStamp t observed valid =
     (if \<not> (1 \<le> length t \<and> length t \<le> 256) then invalid
      else if \<not> (0 < valid - observed \<and> valid - observed \<le> 2) then invalid
      else Inr \<lparr>token = t, observed_at = observed, valid_until = valid\<rparr>)"

definition stamp_check :: "report_stamp \<Rightarrow> report_stamp option \<Rightarrow> real \<Rightarrow> unit result" where
  "stamp_check s current now =
     (case current of
        None \<Rightarrow> require False
      | Some c \<Rightarrow>
          require (token c = token s \<and> (observed_at s \<le> now \<and> now < valid_until s) \<and>
                   (observed_at c \<le> now \<and> now < valid_until c)))"

record prepared_report =
  pr_message_type :: int
  pr_mid :: int
  pr_stamp :: report_stamp
  pr_deadline :: real
  pr_frames :: "bytes list"

text \<open>The environment of one delivery: what the \<open>j\<close>-th call of \<open>current_stamp\<close> returns or raises and the clock
  read after it, and what the \<open>i\<close>-th call of \<open>send_frame\<close> does.\<close>

record send_env =
  env_stamp :: "nat \<Rightarrow> report_stamp option result"
  env_time :: "nat \<Rightarrow> real"
  env_write :: "nat \<Rightarrow> unit result"

definition guard :: "prepared_report \<Rightarrow> send_env \<Rightarrow> nat \<Rightarrow> unit result" where
  "guard p env j =
     bindR (env_stamp env j) (\<lambda>current.
       bindR (stamp_check (pr_stamp p) current (env_time env j)) (\<lambda>_.
         require (env_time env j < pr_deadline p)))"

fun send_loop :: "prepared_report \<Rightarrow> send_env \<Rightarrow> nat \<Rightarrow> bytes list \<Rightarrow> bytes list \<times> unit result" where
  "send_loop p env i [] = ([], Inr ())"
| "send_loop p env i (frame # frames) =
     (case guard p env (2 * i) of
        Inl e \<Rightarrow> ([], Inl e)
      | Inr _ \<Rightarrow>
          (case env_write env i of
             Inl e \<Rightarrow> ([frame], Inl e)
           | Inr _ \<Rightarrow>
               (case guard p env (2 * i + 1) of
                  Inl e \<Rightarrow> ([frame], Inl e)
                | Inr _ \<Rightarrow> let (sent, r) = send_loop p env (Suc i) frames in (frame # sent, r))))"

text \<open>\<open>PreparedReport.send\<close>: the frames handed to \<open>send_frame\<close>, and the number of frames or what is raised.\<close>

definition send_report :: "prepared_report \<Rightarrow> send_env \<Rightarrow> bytes list \<times> nat result" where
  "send_report p env =
     (let (sent, r) = send_loop p env 0 (pr_frames p)
      in (sent, bindR r (\<lambda>_. Inr (length (pr_frames p)))))"

section \<open>Capabilities\<close>

record basic_capabilities =
  basic_ruid :: bytes
  basic_max_bss :: int
  basic_classes :: "basic_operating_class list"

definition basic_payload :: "basic_capabilities \<Rightarrow> payload" where
  "basic_payload b = APRadioBasicCapabilities (basic_ruid b) (basic_max_bss b) (basic_classes b)"

text \<open>\<open>APHTCapabilities | bool\<close>.\<close>

datatype ht_capabilities = HtFlag bool | HtCapabilities bytes int

record early_radio =
  er_basic :: basic_capabilities
  er_ht :: ht_capabilities
  er_advanced :: "bytes \<times> int"
  er_vht :: bool
  er_he :: bool
  er_eht :: bool

record profile2_capability =
  max_prioritization_rules :: int
  reserved_octet :: int
  p2_flags :: int
  max_vids :: int

definition profile2_payload :: "profile2_capability \<Rightarrow> payload" where
  "profile2_payload p = Profile2APCapability (max_prioritization_rules p) (reserved_octet p) (p2_flags p) (max_vids p)"

record early_capabilities =
  ec_radios :: "early_radio list"
  ec_ap :: int
  ec_profile2 :: profile2_capability
  ec_akm :: "bytes list \<times> bytes list"
  ec_ciphers :: "bytes list"
  ec_complete :: bool

definition capabilities_identity :: "early_capabilities \<Rightarrow> early_capabilities" where
  "capabilities_identity facts =
     facts\<lparr>ec_radios := map (\<lambda>radio. radio\<lparr>er_basic := (er_basic radio)\<lparr>basic_classes :=
       map (\<lambda>c. c\<lparr>non_operable_channels := []\<rparr>) (basic_classes (er_basic radio))\<rparr>\<rparr>) (ec_radios facts)\<rparr>"

text \<open>What a difference message names; the wording of the message is not represented.\<close>

datatype difference =
    DiffRadios nat nat
  | DiffRuid bytes bytes
  | DiffMaxBss bytes int int
  | DiffClasses bytes "int list" "int list"
  | DiffEirp bytes int int int
  | DiffPart bytes string
  | DiffTlv int

definition first_some :: "'a option list \<Rightarrow> 'a option" where
  "first_some xs = (case filter (\<lambda>x. x \<noteq> None) xs of [] \<Rightarrow> None | x # _ \<Rightarrow> x)"

definition radio_difference :: "early_radio \<Rightarrow> early_radio \<Rightarrow> difference option" where
  "radio_difference a b =
     (let ruid = basic_ruid (er_basic a);
          classes = map operating_class (basic_classes (er_basic a));
          others = map operating_class (basic_classes (er_basic b))
      in if ruid \<noteq> basic_ruid (er_basic b) then Some (DiffRuid ruid (basic_ruid (er_basic b)))
         else if basic_max_bss (er_basic a) \<noteq> basic_max_bss (er_basic b)
         then Some (DiffMaxBss ruid (basic_max_bss (er_basic a)) (basic_max_bss (er_basic b)))
         else if classes \<noteq> others then Some (DiffClasses ruid classes others)
         else first_some
           (map2 (\<lambda>c d. if max_eirp_dbm c \<noteq> max_eirp_dbm d
                        then Some (DiffEirp ruid (operating_class c) (max_eirp_dbm c) (max_eirp_dbm d)) else None)
              (basic_classes (er_basic a)) (basic_classes (er_basic b)) @
            [if er_ht a \<noteq> er_ht b then Some (DiffPart ruid ''HT'') else None,
             if er_vht a \<noteq> er_vht b then Some (DiffPart ruid ''VHT'') else None,
             if er_he a \<noteq> er_he b then Some (DiffPart ruid ''HE'') else None,
             if er_eht a \<noteq> er_eht b then Some (DiffPart ruid ''EHT'') else None,
             if er_advanced a \<noteq> er_advanced b then Some (DiffPart ruid ''advanced'') else None]))"

definition identity_difference :: "early_capabilities \<Rightarrow> early_capabilities \<Rightarrow> difference option" where
  "identity_difference before after =
     (let old = capabilities_identity before; new = capabilities_identity after
      in if length (ec_radios old) \<noteq> length (ec_radios new)
         then Some (DiffRadios (length (ec_radios old)) (length (ec_radios new)))
         else first_some
           (map2 radio_difference (ec_radios old) (ec_radios new) @
            [if ec_ap old \<noteq> ec_ap new then Some (DiffTlv 0xA1) else None,
             if ec_profile2 old \<noteq> ec_profile2 new then Some (DiffTlv 0xB4) else None,
             if ec_akm old \<noteq> ec_akm new then Some (DiffTlv 0xCC) else None,
             if ec_ciphers old \<noteq> ec_ciphers new then Some (DiffTlv 0xED) else None]))"

text \<open>\<open>zip(..., strict=True)\<close> raises on different lengths.\<close>

definition operable_channels_moved :: "early_capabilities \<Rightarrow> early_capabilities \<Rightarrow> bytes list result" where
  "operable_channels_moved before after =
     (if length (ec_radios before) \<noteq> length (ec_radios after) then Inl ValueError
      else Inr (map (\<lambda>(b, a). basic_ruid (er_basic a))
        (filter (\<lambda>(b, a). basic_classes (er_basic b) \<noteq> basic_classes (er_basic a)) (zip (ec_radios before) (ec_radios after)))))"

definition radio_tlvs :: "early_radio \<Rightarrow> tlv list result" where
  "radio_tlvs radio =
     bindR (require (\<not> er_vht radio \<and> \<not> er_he radio \<and> \<not> er_eht radio)) (\<lambda>_.
     bindR (require (basic_classes (er_basic radio) \<noteq> [] \<and>
       (\<forall>op \<in> set (basic_classes (er_basic radio)). operating_class op \<in> set [81, 82, 83, 84, 115, 124, 125]))) (\<lambda>_.
     bindR (require (fst (er_advanced radio) = basic_ruid (er_basic radio) \<and> snd (er_advanced radio) = 0)) (\<lambda>_.
     bindR (em_tlv (basic_payload (er_basic radio))) (\<lambda>basic.
     bindR (case er_ht radio of
              HtFlag False \<Rightarrow> Inr []
            | HtFlag True \<Rightarrow> bindR (require False) (\<lambda>_. Inr [])
            | HtCapabilities ruid flags \<Rightarrow>
                bindR (require (ruid = basic_ruid (er_basic radio))) (\<lambda>_.
                  bindR (em_tlv (APHTCapabilities ruid flags)) (\<lambda>t. Inr [t]))) (\<lambda>ht.
     bindR (em_tlv (APRadioAdvancedCapabilities (fst (er_advanced radio)) (snd (er_advanced radio)))) (\<lambda>advanced.
       Inr ([basic] @ ht @ [advanced])))))))"

definition capability_tlvs :: "early_capabilities \<Rightarrow> tlv list result" where
  "capability_tlvs facts =
     bindR (require (ec_complete facts)) (\<lambda>_.
     bindR (require (1 \<le> length (ec_radios facts) \<and> length (ec_radios facts) \<le> 32)) (\<lambda>_.
     bindR (require (ec_ap facts = 0 \<and> max_prioritization_rules (ec_profile2 facts) = 0 \<and> max_vids (ec_profile2 facts) = 0 \<and>
       p2_flags (ec_profile2 facts) \<in> set [0, 0x40, 0x80] \<and> ec_akm facts = ([], [PSK]) \<and> ec_ciphers facts = [CCMP128])) (\<lambda>_.
     bindR (unique (map (\<lambda>r. basic_ruid (er_basic r)) (ec_radios facts))) (\<lambda>_.
     bindR (em_tlv (APCapability (ec_ap facts))) (\<lambda>ap.
     bindR (mapR radio_tlvs (ec_radios facts)) (\<lambda>radios.
     bindR (mapR em_tlv [AKMSuiteCapabilities (fst (ec_akm facts)) (snd (ec_akm facts)), profile2_payload (ec_profile2 facts),
         SupportedCipherSuites (ec_ciphers facts)]) (\<lambda>device.
       Inr ([ap] @ concat radios @ device))))))))"

definition early_report ::
  "peer_binding \<Rightarrow> early_capabilities \<Rightarrow> report_stamp \<Rightarrow> mid_sequence \<Rightarrow> real \<Rightarrow> mid_sequence \<times> prepared_report result" where
  "early_report binding facts stamp seq now =
     (case bindR (stamp_check stamp (Some stamp) now) (\<lambda>_. capability_tlvs facts) of
        Inl e \<Rightarrow> (seq, Inl e)
      | Inr tlvs \<Rightarrow>
          let (mid, seq) = next_mid seq
          in (seq, bindR (fragment_message (controller_al binding) (local_al binding) EARLY_AP_REPORT mid tlvs False 1500) (\<lambda>frames.
               Inr \<lparr>pr_message_type = EARLY_AP_REPORT, pr_mid = mid, pr_stamp = stamp, pr_deadline = valid_until stamp,
                    pr_frames = frames\<rparr>)))"

section \<open>Topology\<close>

text \<open>A dictionary built from pairs: a later pair replaces the value of an earlier one with the same key. Two
  dictionaries are equal when they have the same items.\<close>

definition dict_of :: "('k \<times> 'v) list \<Rightarrow> ('k \<times> 'v) list" where
  "dict_of xs = fold (\<lambda>(k, v). AList.update k v) xs []"

text \<open>\<open>int(x)\<close> of a float: truncation towards zero.\<close>

definition py_int :: "real \<Rightarrow> int" where
  "py_int x = (if x < 0 then - \<lfloor>- x\<rfloor> else \<lfloor>x\<rfloor>)"

record topology_facts =
  tf_al_mac :: bytes
  tf_interfaces :: "local_interface list"
  tf_bridges :: "bytes list list"
  tf_non1905 :: "(bytes \<times> bytes list) list"
  tf_neighbors1905 :: "(bytes \<times> neighbor list) list"
  tf_operational :: "operational_radio list"
  tf_configuration :: "configured_radio list"
  tf_clients :: "bss_clients list"
  tf_complete :: bool
  powered_off_interfaces_absent :: bool
  l2_neighbor_records_absent :: bool
  mld_backhaul_vbss_tid_policy_absent :: bool
  backhaul_stations :: "(bytes \<times> bytes) list"
  backhaul_radios :: "(bytes \<times> bytes option) list"
  associated_at :: "(bytes \<times> real) list"

definition aged_clients :: "topology_facts \<Rightarrow> real \<Rightarrow> bss_clients list" where
  "aged_clients facts now =
     (let since = dict_of (associated_at facts)
      in map (\<lambda>bss. \<lparr>bc_bssid = bc_bssid bss,
           bc_clients = map (\<lambda>c. case map_of since (ac_mac c) of
             Some t \<Rightarrow> \<lparr>ac_mac = ac_mac c, association_seconds = min 65535 (max 0 (py_int (now - t)))\<rparr>
           | None \<Rightarrow> c) (bc_clients bss)\<rparr>) (tf_clients facts))"

definition check_neighbors :: "bytes list \<Rightarrow> (bytes \<times> bytes list) list \<Rightarrow> unit result" where
  "check_neighbors interfaces rows =
     bindR (unique (map fst rows)) (\<lambda>_. bindR (mapR (\<lambda>(local, addresses).
       bindR (require (local \<in> set interfaces)) (\<lambda>_. bindR (unique addresses) (\<lambda>_. require (length addresses \<le> 256)))) rows) (\<lambda>_.
         Inr ()))"

definition operational_items :: "operational_radio list \<Rightarrow> ((bytes \<times> bytes) \<times> bytes) list" where
  "operational_items radios = concat (map (\<lambda>r. map (\<lambda>b. ((op_ruid r, ap_mac b), op_ssid b)) (op_bsses r)) radios)"

definition configured_items :: "configured_radio list \<Rightarrow> ((bytes \<times> bytes) \<times> bytes) list" where
  "configured_items radios = concat (map (\<lambda>r. map (\<lambda>b. ((cr_ruid r, cb_bssid b), cb_ssid b)) (cr_bsses r)) radios)"

definition active_bsses :: "operational_radio list \<Rightarrow> bytes list" where
  "active_bsses radios = concat (map (\<lambda>r. map ap_mac (op_bsses r)) radios)"

definition ap_interface :: "local_interface list \<Rightarrow> bytes \<Rightarrow> bool" where
  "ap_interface interfaces bssid =
     (case filter (\<lambda>i. li_mac i = bssid) interfaces of
        [i] \<Rightarrow> 0x100 \<le> media_type i \<and> media_type i \<le> 0x107 \<and> length (media_specific i) = 10 \<and>
               take 6 (media_specific i) = bssid \<and> media_specific i ! 6 = 0
      | _ \<Rightarrow> False)"

definition check_radios :: "topology_facts \<Rightarrow> unit result" where
  "check_radios facts =
     (let operational = tf_operational facts; configuration = tf_configuration facts; bsses = active_bsses operational in
      bindR (require (1 \<le> length operational \<and> length operational \<le> 32 \<and> length configuration = length operational)) (\<lambda>_.
      bindR (unique (map op_ruid operational)) (\<lambda>_.
      bindR (unique (map cr_ruid configuration)) (\<lambda>_.
      bindR (unique bsses) (\<lambda>_.
      bindR (unique (concat (map (\<lambda>r. map cb_bssid (cr_bsses r)) configuration))) (\<lambda>_.
      bindR (require (set (dict_of (operational_items operational)) = set (dict_of (configured_items configuration)) \<and>
        set (map op_ruid operational) = set (map cr_ruid configuration))) (\<lambda>_.
      bindR (require (\<forall>r \<in> set configuration. \<forall>b \<in> set (cr_bsses r). cb_flags b \<in> set [0x40, 0x80])) (\<lambda>_.
      bindR (mapR (\<lambda>bssid. require (ap_interface (tf_interfaces facts) bssid)) bsses) (\<lambda>_. Inr ())))))))))"

definition check_clients :: "topology_facts \<Rightarrow> unit result" where
  "check_clients facts =
     (let clients = concat (map (\<lambda>b. map ac_mac (bc_clients b)) (tf_clients facts)) in
      bindR (unique (map bc_bssid (tf_clients facts))) (\<lambda>_.
      bindR (require (set (map bc_bssid (tf_clients facts)) = set (active_bsses (tf_operational facts)))) (\<lambda>_.
      bindR (unique clients) (\<lambda>_. require (length clients \<le> 256)))))"

definition check_topology :: "topology_facts \<Rightarrow> peer_binding \<Rightarrow> unit result" where
  "check_topology facts binding =
     (let interfaces = map li_mac (tf_interfaces facts); bridge_macs = concat (tf_bridges facts) in
      bindR (require (tf_complete facts \<and> powered_off_interfaces_absent facts \<and> l2_neighbor_records_absent facts \<and>
        mld_backhaul_vbss_tid_policy_absent facts)) (\<lambda>_.
      bindR (require (tf_al_mac facts = local_al binding)) (\<lambda>_.
      bindR (require (1 \<le> length interfaces \<and> length interfaces \<le> 64)) (\<lambda>_.
      bindR (unique interfaces) (\<lambda>_.
      bindR (unique bridge_macs) (\<lambda>_.
      bindR (require (set bridge_macs \<subseteq> set interfaces)) (\<lambda>_.
      bindR (check_neighbors interfaces (tf_non1905 facts)) (\<lambda>_.
      bindR (check_neighbors interfaces (map (\<lambda>(l, ns). (l, map nb_al_mac ns)) (tf_neighbors1905 facts))) (\<lambda>_.
      bindR (check_radios facts) (\<lambda>_. check_clients facts))))))))))"

definition topology_values :: "topology_facts \<Rightarrow> topology list" where
  "topology_values facts =
     [DeviceInformation (tf_al_mac facts) (tf_interfaces facts)] @
     (if length (tf_interfaces facts) > 1 \<or> tf_bridges facts \<noteq> [] then [BridgingCapability (tf_bridges facts)] else []) @
     map (\<lambda>(l, ns). Non1905Neighbors l ns) (tf_non1905 facts) @
     map (\<lambda>(l, ns). Neighbors1905 l ns) (tf_neighbors1905 facts)"

definition topology_payloads :: "topology_facts \<Rightarrow> string \<Rightarrow> payload list" where
  "topology_payloads facts message_set =
     [SupportedServices [1], APOperationalBss (tf_operational facts)] @
     (if message_set \<noteq> R1 then [BssConfigurationReport (tf_configuration facts)] else []) @
     [AssociatedClients (tf_clients facts)]"

definition backhaul_tlvs :: "topology_facts \<Rightarrow> tlv list" where
  "backhaul_tlvs facts =
     (case backhaul_radios facts of
        [] \<Rightarrow> []
      | (ruid, station) # _ \<Rightarrow>
          [Tlv 0xCB (ruid @ (case station of None \<Rightarrow> [0] | Some m \<Rightarrow> if m = [] then [0] else 0x80 # m))])"

definition topology_tlv :: "topology \<Rightarrow> tlv result" where
  "topology_tlv v = bindR (encode_topology v) (\<lambda>bs. Inr (Tlv (topology_kind v) bs))"

definition topology_tlvs :: "topology_facts \<Rightarrow> peer_binding \<Rightarrow> string \<Rightarrow> real option \<Rightarrow> tlv list result" where
  "topology_tlvs facts binding message_set now =
     (let facts = (case now of
        Some t \<Rightarrow> if associated_at facts \<noteq> [] then facts\<lparr>tf_clients := aged_clients facts t\<rparr> else facts
      | None \<Rightarrow> facts) in
      bindR (check_topology facts binding) (\<lambda>_.
      bindR (mapR topology_tlv (topology_values facts)) (\<lambda>values.
      bindR (mapR em_tlv (topology_payloads facts message_set)) (\<lambda>payloads.
      bindR (if message_set \<noteq> R1 then mapR em_tlv [MultiAPProfile 1] else Inr []) (\<lambda>profile.
        Inr (values @ payloads @ backhaul_tlvs facts @ profile))))))"

definition topology_response ::
  "message \<Rightarrow> peer_binding \<Rightarrow> topology_facts \<Rightarrow> report_stamp \<Rightarrow> string \<Rightarrow> int \<Rightarrow> real \<Rightarrow> real \<Rightarrow> string \<Rightarrow> prepared_report result" where
  "topology_response query binding facts stamp ingress generation received_at now message_set =
     bindR (stamp_check stamp (Some stamp) now) (\<lambda>_.
     bindR (require (received_at \<le> now \<and> now < received_at + 1)) (\<lambda>_.
     bindR (binding_check binding query ingress generation) (\<lambda>_.
     bindR (require (msg_type query = 2 \<and> \<not> msg_relay query)) (\<lambda>_.
     bindR (check_message_set message_set) (\<lambda>_.
     let profiles = tlv_values query 0xB3 in
     bindR (require (length profiles = 1 \<or> (message_set = R1 \<and> profiles = []))) (\<lambda>_.
     bindR (if profiles \<noteq> [] then bindR (bindR (decode_value 0xB3 (profiles ! 0)) profile_of) (\<lambda>p. effective_profile p 1)
            else Inr 1) (\<lambda>_.
     bindR (require (\<not> has_kind query SECURITY_ENVELOPES)) (\<lambda>_.
     bindR (topology_tlvs facts binding message_set (Some now)) (\<lambda>tlvs.
     bindR (fragment_message (controller_al binding) (local_al binding) 3 (msg_mid query) tlvs False 1500) (\<lambda>frames.
       Inr \<lparr>pr_message_type = 3, pr_mid = msg_mid query, pr_stamp = stamp, pr_deadline = received_at + 1,
            pr_frames = frames\<rparr>))))))))))"

section \<open>Freshness of what is sent\<close>

lemma require_eq_Inr [result_simps]: "require b = Inr u \<longleftrightarrow> b"
  by (simp add: require_def result_simps)

text \<open>At a guard the source still vouches for the report and its deadline is ahead.\<close>

definition fresh :: "prepared_report \<Rightarrow> send_env \<Rightarrow> nat \<Rightarrow> bool" where
  "fresh p env j \<longleftrightarrow> (\<exists>c. env_stamp env j = Inr (Some c) \<and> token c = token (pr_stamp p) \<and>
     observed_at (pr_stamp p) \<le> env_time env j \<and> env_time env j < valid_until (pr_stamp p) \<and>
     observed_at c \<le> env_time env j \<and> env_time env j < valid_until c \<and> env_time env j < pr_deadline p)"

lemma guard_eq_Inr: "guard p env j = Inr () \<longleftrightarrow> fresh p env j"
  by (auto simp: guard_def stamp_check_def fresh_def result_simps split: option.splits)

lemma send_loop_sent:
  assumes "send_loop p env i frames = (sent, r)"
  shows "\<exists>rest. frames = sent @ rest \<and> (\<forall>n < length sent. \<forall>j. 2 * i \<le> j \<longrightarrow> j \<le> 2 * (i + n) \<longrightarrow> fresh p env j) \<and>
    (r = Inr () \<longleftrightarrow> rest = [] \<and> (\<forall>j. 2 * i \<le> j \<longrightarrow> j < 2 * (i + length frames) \<longrightarrow> fresh p env j) \<and>
       (\<forall>n. i \<le> n \<longrightarrow> n < i + length frames \<longrightarrow> env_write env n = Inr ()))"
  using assms
proof (induction p env i frames arbitrary: sent r rule: send_loop.induct)
  case (2 p env i frame frames)
  show ?case
  proof (cases "guard p env (2 * i) = Inr ()")
    case g1: True
    then have f1: "fresh p env (2 * i)" by (simp add: guard_eq_Inr)
    have upto: "\<forall>j. 2 * i \<le> j \<longrightarrow> j \<le> 2 * i \<longrightarrow> fresh p env j" using f1 le_antisym by blast
    show ?thesis
    proof (cases "env_write env i = Inr () \<and> guard p env (2 * i + 1) = Inr ()")
      case True
      then have f2: "fresh p env (2 * i + 1)" by (simp add: guard_eq_Inr)
      obtain sent' where *: "send_loop p env (Suc i) frames = (sent', r)" "sent = frame # sent'"
        using 2(2) g1 True by (auto split: prod.splits)
      from 2(1) [OF g1 _ _ *(1)] True obtain rest where rest: "frames = sent' @ rest"
        "\<forall>n < length sent'. \<forall>j. 2 * Suc i \<le> j \<longrightarrow> j \<le> 2 * (Suc i + n) \<longrightarrow> fresh p env j"
        "r = Inr () \<longleftrightarrow> rest = [] \<and> (\<forall>j. 2 * Suc i \<le> j \<longrightarrow> j < 2 * (Suc i + length frames) \<longrightarrow> fresh p env j) \<and>
           (\<forall>n. Suc i \<le> n \<longrightarrow> n < Suc i + length frames \<longrightarrow> env_write env n = Inr ())"
        by blast
      have two: "2 * i \<le> j \<longleftrightarrow> j = 2 * i \<or> j = 2 * i + 1 \<or> 2 * Suc i \<le> j" for j by auto
      have one: "i \<le> n \<longleftrightarrow> n = i \<or> Suc i \<le> n" for n by auto
      have "\<forall>n < length sent. \<forall>j. 2 * i \<le> j \<longrightarrow> j \<le> 2 * (i + n) \<longrightarrow> fresh p env j"
      proof (intro allI impI)
        fix n j assume n: "n < length sent" and j: "2 * i \<le> j" "j \<le> 2 * (i + n)"
        show "fresh p env j"
        proof (cases n)
          case (Suc m)
          with rest(2) n j f1 f2 two *(2) show ?thesis by auto
        qed (use j f1 le_antisym in auto)
      qed
      moreover have "r = Inr () \<longleftrightarrow> rest = [] \<and> (\<forall>j. 2 * i \<le> j \<longrightarrow> j < 2 * (i + length (frame # frames)) \<longrightarrow> fresh p env j) \<and>
         (\<forall>n. i \<le> n \<longrightarrow> n < i + length (frame # frames) \<longrightarrow> env_write env n = Inr ())"
        unfolding rest(3) two one using f1 f2 True by auto
      ultimately show ?thesis using rest(1) *(2) by auto
    next
      case False
      then have "sent = [frame]" "r \<noteq> Inr ()"
        using 2(2) g1 by (auto split: sum.splits)
      moreover have "\<not> ((\<forall>j. 2 * i \<le> j \<longrightarrow> j < 2 * (i + length (frame # frames)) \<longrightarrow> fresh p env j) \<and>
         (\<forall>n. i \<le> n \<longrightarrow> n < i + length (frame # frames) \<longrightarrow> env_write env n = Inr ()))"
        using False by (auto simp: guard_eq_Inr)
      ultimately show ?thesis using upto by auto
    qed
  next
    case False
    then have "\<not> fresh p env (2 * i)" by (simp add: guard_eq_Inr)
    moreover from False have "sent = []" "r \<noteq> Inr ()"
      using 2(2) by (auto split: sum.splits)
    ultimately show ?thesis by auto
  qed
qed simp

section \<open>Identities\<close>

lemma identity_eq_Inr [result_simps]: "identity v = Inr () \<longleftrightarrow> unicast v = Inr v"
  by (auto simp: identity_def result_simps)

lemma unique_eq_Inr [result_simps]: "unique vs = Inr () \<longleftrightarrow> (\<forall>v \<in> set vs. unicast v = Inr v) \<and> distinct vs"
proof -
  have "(\<exists>us. mapR identity vs = Inr us) \<longleftrightarrow> (\<forall>v \<in> set vs. unicast v = Inr v)"
    by (induction vs) (auto simp: bindR_eq_Inr result_simps)
  then show ?thesis
    unfolding unique_def bindR_eq_Inr require_eq_Inr by (metis card_distinct distinct_card)
qed

lemma first_some_None: "first_some xs = None \<longleftrightarrow> (\<forall>x \<in> set xs. x = None)"
  by (induction xs) (auto simp: first_some_def)

definition blank :: "early_radio \<Rightarrow> early_radio" where
  "blank radio = radio\<lparr>er_basic := (er_basic radio)\<lparr>basic_classes :=
     map (\<lambda>c. c\<lparr>non_operable_channels := []\<rparr>) (basic_classes (er_basic radio))\<rparr>\<rparr>"

lemma identity_blank: "capabilities_identity facts = facts\<lparr>ec_radios := map blank (ec_radios facts)\<rparr>"
  by (simp add: capabilities_identity_def blank_def [abs_def])

lemma blank_classes:
  "map operating_class xs = map operating_class ys \<Longrightarrow>
   (\<forall>(c, d) \<in> set (zip xs ys). max_eirp_dbm c = max_eirp_dbm d) \<longleftrightarrow>
   map (\<lambda>c. c\<lparr>non_operable_channels := []\<rparr>) xs = map (\<lambda>c. c\<lparr>non_operable_channels := []\<rparr>) (ys :: basic_operating_class list)"
proof (induction xs ys rule: list_induct2')
  case (4 x xs y ys)
  then show ?case by (cases x; cases y) auto
qed auto

lemma radio_difference_None: "radio_difference (blank a) (blank b) = None \<longleftrightarrow> blank a = blank b"
proof -
  let ?f = "\<lambda>c :: basic_operating_class. c\<lparr>non_operable_channels := []\<rparr>"
  have oc: "operating_class \<circ> ?f = operating_class" by (simp add: fun_eq_iff)
  have same: "map operating_class xs = map operating_class ys" if "map ?f xs = map ?f ys" for xs ys :: "basic_operating_class list"
    using arg_cong [OF that, of "map operating_class"] oc by simp
  have eirp: "(\<forall>x \<in> set (map2 (\<lambda>c d. if max_eirp_dbm c \<noteq> max_eirp_dbm d then Some (D c d) else None) (map ?f xs) (map ?f ys)). x = None)
      \<longleftrightarrow> (\<forall>(c, d) \<in> set (zip xs ys). max_eirp_dbm c = max_eirp_dbm d)" for D :: "basic_operating_class \<Rightarrow> basic_operating_class \<Rightarrow> difference" and xs ys
    by (auto simp: zip_map1 zip_map2 split: if_splits)
  show ?thesis
    using blank_classes [of "basic_classes (er_basic a)" "basic_classes (er_basic b)"]
      same [of "basic_classes (er_basic a)" "basic_classes (er_basic b)"] oc
    by (cases a; cases b; cases "er_basic a"; cases "er_basic b")
      (auto simp: radio_difference_def blank_def Let_def first_some_None eirp simp del: set_map split: if_splits)
qed

lemma map2_radio_difference:
  "length xs = length ys \<Longrightarrow>
   (\<forall>x \<in> set (map2 radio_difference (map blank xs) (map blank ys)). x = None) \<longleftrightarrow> map blank xs = map blank ys"
  by (induction xs ys rule: list_induct2) (auto simp: radio_difference_None)

lemma identity_difference_None:
  "identity_difference before after = None \<longleftrightarrow>
   capabilities_identity (before\<lparr>ec_complete := True\<rparr>) = capabilities_identity (after\<lparr>ec_complete := True\<rparr>)"
proof (cases "length (ec_radios before) = length (ec_radios after)")
  case True
  have "identity_difference before after = None \<longleftrightarrow> map blank (ec_radios before) = map blank (ec_radios after) \<and>
      ec_ap before = ec_ap after \<and> ec_profile2 before = ec_profile2 after \<and> ec_akm before = ec_akm after \<and>
      ec_ciphers before = ec_ciphers after"
    using True map2_radio_difference [OF True]
    by (auto simp: identity_difference_def identity_blank Let_def first_some_None simp del: set_map set_zip split: if_splits)
  then show ?thesis by (cases before; cases after) (simp add: identity_blank)
next
  case False
  then have "map blank (ec_radios before) \<noteq> map blank (ec_radios after)" by (metis length_map)
  with False show ?thesis by (cases before; cases after) (simp add: identity_difference_def identity_blank Let_def)
qed

section \<open>What a report carries\<close>

text \<open>Reading a TLV of a report back.\<close>

definition tlv_payload :: "tlv \<Rightarrow> payload result" where
  "tlv_payload t = decode_value (kind t) (tlv_value t)"

lemma em_tlv_payload: "em_tlv p = Inr t \<Longrightarrow> tlv_payload t = Inr (canon_payload p) \<and> kind t = payload_kind p"
  by (auto simp: em_tlv_def tlv_payload_def result_simps decode_encode_value)

lemma em_tlvs_payload: "mapR em_tlv ps = Inr ts \<Longrightarrow> map tlv_payload ts = map (\<lambda>p. Inr (canon_payload p)) ps"
  by (induction ps arbitrary: ts) (auto simp: bindR_eq_Inr dest!: em_tlv_payload)

definition radio_payloads :: "early_radio \<Rightarrow> payload list" where
  "radio_payloads radio =
     [basic_payload (er_basic radio)] @
     (case er_ht radio of HtFlag _ \<Rightarrow> [] | HtCapabilities ruid flags \<Rightarrow> [APHTCapabilities ruid flags]) @
     [APRadioAdvancedCapabilities (fst (er_advanced radio)) (snd (er_advanced radio))]"

lemma radio_tlvs_payload:
  assumes "radio_tlvs radio = Inr ts"
  shows "map tlv_payload ts = map Inr (radio_payloads radio)"
  using assms
  by (auto simp: radio_tlvs_def radio_payloads_def bindR_eq_Inr basic_payload_def dest!: em_tlv_payload
      split: ht_capabilities.splits bool.splits if_splits)

definition capability_payloads :: "early_capabilities \<Rightarrow> payload list" where
  "capability_payloads facts =
     [APCapability (ec_ap facts)] @ concat (map radio_payloads (ec_radios facts)) @
     [AKMSuiteCapabilities (fst (ec_akm facts)) (snd (ec_akm facts)), profile2_payload (ec_profile2 facts),
      SupportedCipherSuites (ec_ciphers facts)]"

lemma capability_tlvs_payload:
  assumes "capability_tlvs facts = Inr ts"
  shows "map tlv_payload ts = map Inr (capability_payloads facts) \<and>
    distinct (map (\<lambda>r. basic_ruid (er_basic r)) (ec_radios facts)) \<and> ec_complete facts"
proof -
  obtain ap radios device where *: "em_tlv (APCapability (ec_ap facts)) = Inr ap" "mapR radio_tlvs (ec_radios facts) = Inr radios"
    "mapR em_tlv [AKMSuiteCapabilities (fst (ec_akm facts)) (snd (ec_akm facts)), profile2_payload (ec_profile2 facts),
         SupportedCipherSuites (ec_ciphers facts)] = Inr device" "ts = [ap] @ concat radios @ device"
    and u: "unique (map (\<lambda>r. basic_ruid (er_basic r)) (ec_radios facts)) = Inr ()" "ec_complete facts"
    using assms unfolding capability_tlvs_def bindR_eq_Inr require_eq_Inr by (auto simp del: mapR.simps)
  have "map (map tlv_payload) radios = map (\<lambda>r. map Inr (radio_payloads r)) (ec_radios facts)"
    using *(2) unfolding mapR_eq_Inr by (induction rule: list_all2_induct) (auto simp: radio_tlvs_payload)
  then have "map tlv_payload (concat radios) = map Inr (concat (map radio_payloads (ec_radios facts)))"
    by (simp add: map_concat comp_def)
  with * u em_tlv_payload [OF *(1)] em_tlvs_payload [OF *(3)] show ?thesis
    by (simp add: capability_payloads_def profile2_payload_def unique_eq_Inr)
qed

lemma dict_of_distinct: "distinct (map fst xs) \<Longrightarrow> dict_of xs = xs"
proof (induction xs rule: rev_induct)
  case (snoc x xs)
  then have "map_of xs (fst x) = None" by (simp add: map_of_eq_None_iff)
  with snoc show ?case by (cases x) (simp add: dict_of_def update_new)
qed (simp add: dict_of_def)

lemma operational_keys: "map (\<lambda>i. snd (fst i)) (operational_items radios) = active_bsses radios"
  by (induction radios) (auto simp: operational_items_def active_bsses_def)

lemma configured_keys: "map (\<lambda>i. snd (fst i)) (configured_items radios) = concat (map (\<lambda>r. map cb_bssid (cr_bsses r)) radios)"
  by (induction radios) (auto simp: configured_items_def)

lemma distinct_by_key: "distinct (map (\<lambda>i. snd (fst i)) xs) \<Longrightarrow> distinct (map fst xs)"
  using distinct_map [of snd "map fst xs"] by (simp add: comp_def)

text \<open>What the checks on the inventories establish.\<close>

definition consistent :: "topology_facts \<Rightarrow> bool" where
  "consistent facts \<longleftrightarrow>
     (let bssids = concat (map (\<lambda>r. map ap_mac (op_bsses r)) (tf_operational facts)) in
      distinct (map li_mac (tf_interfaces facts)) \<and> set (concat (tf_bridges facts)) \<subseteq> set (map li_mac (tf_interfaces facts)) \<and>
      {(op_ruid r, ap_mac b, op_ssid b) | r b. r \<in> set (tf_operational facts) \<and> b \<in> set (op_bsses r)} =
        {(cr_ruid r, cb_bssid b, cb_ssid b) | r b. r \<in> set (tf_configuration facts) \<and> b \<in> set (cr_bsses r)} \<and>
      distinct bssids \<and> set (map bc_bssid (tf_clients facts)) = set bssids \<and> distinct (map bc_bssid (tf_clients facts)) \<and>
      distinct (concat (map (\<lambda>b. map ac_mac (bc_clients b)) (tf_clients facts))) \<and>
      (\<forall>bssid \<in> set bssids. \<exists>i \<in> set (tf_interfaces facts). li_mac i = bssid \<and> 0x100 \<le> media_type i \<and> media_type i \<le> 0x107 \<and>
         length (media_specific i) = 10 \<and> take 6 (media_specific i) = bssid \<and> media_specific i ! 6 = 0))"

lemma item_sets:
  "(\<lambda>((r, b), s). (r, b, s)) ` set (operational_items op) = {(op_ruid r, ap_mac b, op_ssid b) | r b. r \<in> set op \<and> b \<in> set (op_bsses r)}"
  "(\<lambda>((r, b), s). (r, b, s)) ` set (configured_items conf) = {(cr_ruid r, cb_bssid b, cb_ssid b) | r b. r \<in> set conf \<and> b \<in> set (cr_bsses r)}"
  by (force simp: operational_items_def configured_items_def)+

lemma ap_interface_found:
  "ap_interface interfaces bssid \<Longrightarrow> \<exists>i \<in> set interfaces. li_mac i = bssid \<and> 0x100 \<le> media_type i \<and> media_type i \<le> 0x107 \<and>
     length (media_specific i) = 10 \<and> take 6 (media_specific i) = bssid \<and> media_specific i ! 6 = 0"
  unfolding ap_interface_def by (auto split: list.splits simp: filter_eq_Cons_iff)

lemma mapR_require: "(\<exists>us. mapR (\<lambda>x. require (P x)) xs = Inr us) \<longleftrightarrow> (\<forall>x \<in> set xs. P x)"
  by (induction xs) (auto simp: bindR_eq_Inr require_eq_Inr)

lemma check_radios_consistent:
  assumes "check_radios facts = Inr ()"
  shows "set (operational_items (tf_operational facts)) = set (configured_items (tf_configuration facts)) \<and>
    distinct (active_bsses (tf_operational facts)) \<and>
    (\<forall>bssid \<in> set (active_bsses (tf_operational facts)). ap_interface (tf_interfaces facts) bssid)"
proof -
  let ?op = "tf_operational facts" and ?conf = "tf_configuration facts"
  obtain us where c: "unique (active_bsses ?op) = Inr ()" "unique (concat (map (\<lambda>r. map cb_bssid (cr_bsses r)) ?conf)) = Inr ()"
    "set (dict_of (operational_items ?op)) = set (dict_of (configured_items ?conf))"
    "mapR (\<lambda>bssid. require (ap_interface (tf_interfaces facts) bssid)) (active_bsses ?op) = Inr us"
    using assms unfolding check_radios_def Let_def bindR_unit require_eq_Inr
    unfolding bindR_eq_Inr by blast
  have d: "distinct (active_bsses ?op)" "distinct (concat (map (\<lambda>r. map cb_bssid (cr_bsses r)) ?conf))"
    using c(1,2) by (simp_all add: unique_eq_Inr)
  have "dict_of (operational_items ?op) = operational_items ?op" "dict_of (configured_items ?conf) = configured_items ?conf"
    using d dict_of_distinct [OF distinct_by_key] operational_keys configured_keys by metis+
  moreover have "\<forall>bssid \<in> set (active_bsses ?op). ap_interface (tf_interfaces facts) bssid"
    using c(4) mapR_require [of "ap_interface (tf_interfaces facts)" "active_bsses ?op"] by blast
  ultimately show ?thesis using c(3) d(1) by simp
qed

lemma check_topology_consistent:
  assumes "check_topology facts binding = Inr ()"
  shows "consistent facts"
proof -
  have *: "unique (map li_mac (tf_interfaces facts)) = Inr ()" "set (concat (tf_bridges facts)) \<subseteq> set (map li_mac (tf_interfaces facts))"
    "check_radios facts = Inr ()" "check_clients facts = Inr ()"
    using assms unfolding check_topology_def Let_def bindR_unit require_eq_Inr by blast+
  note r = check_radios_consistent [OF *(3)]
  have "\<forall>bssid \<in> set (active_bsses (tf_operational facts)). \<exists>i \<in> set (tf_interfaces facts). li_mac i = bssid \<and> 0x100 \<le> media_type i \<and>
      media_type i \<le> 0x107 \<and> length (media_specific i) = 10 \<and> take 6 (media_specific i) = bssid \<and> media_specific i ! 6 = 0"
    using r ap_interface_found by blast
  moreover have "{(op_ruid r, ap_mac b, op_ssid b) | r b. r \<in> set (tf_operational facts) \<and> b \<in> set (op_bsses r)} =
      {(cr_ruid r, cb_bssid b, cb_ssid b) | r b. r \<in> set (tf_configuration facts) \<and> b \<in> set (cr_bsses r)}"
    using r item_sets by metis
  ultimately show ?thesis
    using *(1,2,4) r
    unfolding consistent_def check_clients_def Let_def bindR_unit require_eq_Inr unique_eq_Inr active_bsses_def by blast
qed

definition reported_facts :: "topology_facts \<Rightarrow> real \<Rightarrow> topology_facts" where
  "reported_facts facts now = (if associated_at facts \<noteq> [] then facts\<lparr>tf_clients := aged_clients facts now\<rparr> else facts)"

text \<open>What the TLVs of one type say, as topology values and as Multi-AP payloads.\<close>

definition topology_told :: "tlv list \<Rightarrow> int \<Rightarrow> topology result list" where
  "topology_told ts k = map (\<lambda>t. decode_topology k (tlv_value t)) (filter (\<lambda>t. kind t = k) ts)"

definition payload_told :: "tlv list \<Rightarrow> int \<Rightarrow> payload result list" where
  "payload_told ts k = map (\<lambda>t. decode_value k (tlv_value t)) (filter (\<lambda>t. kind t = k) ts)"

text \<open>The age of a client: whole seconds since its association, which the last entry for it gives, within 0 and 65535.\<close>

definition client_age :: "topology_facts \<Rightarrow> real \<Rightarrow> associated_client \<Rightarrow> int" where
  "client_age facts now c = (case map_of (rev (associated_at facts)) (ac_mac c) of
     Some t \<Rightarrow> min 65535 (max 0 \<lfloor>now - t\<rfloor>) | None \<Rightarrow> min 65535 (association_seconds c))"

definition clients_told :: "topology_facts \<Rightarrow> real \<Rightarrow> bss_clients list" where
  "clients_told facts now = map (\<lambda>b. \<lparr>bc_bssid = bc_bssid b,
     bc_clients = map (\<lambda>c. \<lparr>ac_mac = ac_mac c, association_seconds = client_age facts now c\<rparr>) (bc_clients b)\<rparr>) (tf_clients facts)"

text \<open>The whole content of a Topology Response: of each type exactly these TLVs, and no other type.\<close>

definition carries_topology :: "tlv list \<Rightarrow> topology_facts \<Rightarrow> real \<Rightarrow> bool \<Rightarrow> bool" where
  "carries_topology ts facts now r1 \<longleftrightarrow>
     topology_told ts 0x03 = [Inr (DeviceInformation (tf_al_mac facts) (tf_interfaces facts))] \<and>
     topology_told ts 0x04 = (if length (tf_interfaces facts) \<le> 1 \<and> tf_bridges facts = [] then [] else [Inr (BridgingCapability (tf_bridges facts))]) \<and>
     topology_told ts 0x06 = map (\<lambda>(l, ns). Inr (Non1905Neighbors l ns)) (tf_non1905 facts) \<and>
     topology_told ts 0x07 = map (\<lambda>(l, ns). Inr (Neighbors1905 l ns)) (tf_neighbors1905 facts) \<and>
     payload_told ts 0x80 = [Inr (SupportedServices [1])] \<and>
     payload_told ts 0x83 = [Inr (APOperationalBss (tf_operational facts))] \<and>
     payload_told ts 0xB7 = (if r1 then [] else [Inr (BssConfigurationReport (tf_configuration facts))]) \<and>
     payload_told ts 0x84 = [Inr (AssociatedClients (clients_told facts now))] \<and>
     payload_told ts 0xB3 = (if r1 then [] else [Inr (MultiAPProfile 1)]) \<and>
     map tlv_value (filter (\<lambda>t. kind t = 0xCB) ts) = (case backhaul_radios facts of [] \<Rightarrow> []
       | (ruid, station) # _ \<Rightarrow> (if station = None \<or> station = Some [] then [ruid @ [0]] else [ruid @ [0x80] @ the station])) \<and>
     set (map kind ts) \<subseteq> {0x03, 0x04, 0x06, 0x07, 0x80, 0x83, 0xB7, 0x84, 0xCB, 0xB3}"

lemma told_append [simp]:
  "topology_told (ts @ us) k = topology_told ts k @ topology_told us k" "payload_told (ts @ us) k = payload_told ts k @ payload_told us k"
  "topology_told [] k = []" "payload_told [] k = []"
  by (simp_all add: topology_told_def payload_told_def)

lemma told_none: "k \<notin> set (map kind ts) \<Longrightarrow> topology_told ts k = [] \<and> payload_told ts k = [] \<and> filter (\<lambda>t. kind t = k) ts = []"
  unfolding topology_told_def payload_told_def by (auto simp: filter_empty_conv)

lemma topology_tlvs_told:
  "mapR topology_tlv vs = Inr ts \<Longrightarrow> map kind ts = map topology_kind vs \<and> topology_told ts k = map Inr (filter (\<lambda>v. topology_kind v = k) vs)"
  by (induction vs arbitrary: ts) (auto simp: bindR_eq_Inr topology_tlv_def topology_told_def decode_encode_topology)

lemma em_tlvs_told:
  "mapR em_tlv ps = Inr ts \<Longrightarrow> map kind ts = map payload_kind ps \<and>
   payload_told ts k = map (\<lambda>p. Inr (canon_payload p)) (filter (\<lambda>p. payload_kind p = k) ps)"
  by (induction ps arbitrary: ts) (auto simp: bindR_eq_Inr em_tlv_def payload_told_def decode_encode_value)

lemma map_of_dict_of: "map_of (dict_of xs) k = map_of (rev xs) k"
  by (induction xs rule: rev_induct) (auto simp: dict_of_def AList.update_conv')

lemma saturate_aged: "saturate_bss b = \<lparr>bc_bssid = bc_bssid b,
    bc_clients = map (\<lambda>c. \<lparr>ac_mac = ac_mac c, association_seconds = min 65535 (association_seconds c)\<rparr>) (bc_clients b)\<rparr>"
  by (cases b) (auto simp: saturate_bss_def saturate_client_def min.commute)

lemma whole_seconds: "max 0 (py_int x) = max 0 \<lfloor>x\<rfloor>"
  unfolding py_int_def by auto

lemma reported_clients: "map saturate_bss (tf_clients (reported_facts facts now)) = clients_told facts now"
proof (cases "associated_at facts = []")
  case True
  then show ?thesis by (simp add: reported_facts_def clients_told_def client_age_def saturate_aged)
next
  case False
  have "min 65535 (association_seconds (case map_of (dict_of (associated_at facts)) (ac_mac c) of
      Some t \<Rightarrow> \<lparr>ac_mac = ac_mac c, association_seconds = min 65535 (max 0 (py_int (now - t)))\<rparr> | None \<Rightarrow> c)) = client_age facts now c" for c
    by (simp add: client_age_def map_of_dict_of whole_seconds split: option.split)
  moreover have "ac_mac (case map_of (dict_of (associated_at facts)) (ac_mac c) of
      Some t \<Rightarrow> \<lparr>ac_mac = ac_mac c, association_seconds = min 65535 (max 0 (py_int (now - t)))\<rparr> | None \<Rightarrow> c) = ac_mac c" for c
    by (simp split: option.split)
  ultimately show ?thesis using False
    by (simp add: reported_facts_def aged_clients_def clients_told_def saturate_aged Let_def comp_def)
qed

lemma reported_fields [simp]:
  "tf_al_mac (reported_facts facts now) = tf_al_mac facts" "tf_interfaces (reported_facts facts now) = tf_interfaces facts"
  "tf_bridges (reported_facts facts now) = tf_bridges facts" "tf_non1905 (reported_facts facts now) = tf_non1905 facts"
  "tf_neighbors1905 (reported_facts facts now) = tf_neighbors1905 facts" "tf_operational (reported_facts facts now) = tf_operational facts"
  "tf_configuration (reported_facts facts now) = tf_configuration facts" "backhaul_radios (reported_facts facts now) = backhaul_radios facts"
  by (simp_all add: reported_facts_def)

lemma consistent_reported: "consistent (reported_facts facts now) = consistent facts"
proof -
  have "map bc_bssid (tf_clients (reported_facts facts now)) = map bc_bssid (tf_clients facts)"
    by (simp add: reported_facts_def aged_clients_def comp_def)
  moreover have "concat (map (\<lambda>b. map ac_mac (bc_clients b)) (tf_clients (reported_facts facts now))) =
      concat (map (\<lambda>b. map ac_mac (bc_clients b)) (tf_clients facts))"
    by (simp add: reported_facts_def aged_clients_def comp_def Let_def)
      (intro impI arg_cong [of _ _ concat] map_cong refl; simp split: option.split)
  ultimately show ?thesis unfolding consistent_def by (simp del: map_map)
qed

lemma topology_values_told:
  assumes "mapR topology_tlv (topology_values facts) = Inr ts"
  shows "topology_told ts 0x03 = [Inr (DeviceInformation (tf_al_mac facts) (tf_interfaces facts))]"
    "topology_told ts 0x04 = (if length (tf_interfaces facts) \<le> 1 \<and> tf_bridges facts = [] then [] else [Inr (BridgingCapability (tf_bridges facts))])"
    "topology_told ts 0x06 = map (\<lambda>(l, ns). Inr (Non1905Neighbors l ns)) (tf_non1905 facts)"
    "topology_told ts 0x07 = map (\<lambda>(l, ns). Inr (Neighbors1905 l ns)) (tf_neighbors1905 facts)"
    "set (map kind ts) \<subseteq> {0x03, 0x04, 0x06, 0x07}"
proof -
  note told = topology_tlvs_told [OF assms, THEN conjunct2] topology_tlvs_told [OF assms, THEN conjunct1]
  have c: "(\<lambda>v. topology_kind v = k) \<circ> (\<lambda>(l, ns). Non1905Neighbors l ns) = (\<lambda>_. k = 6)"
    "(\<lambda>v. topology_kind v = k) \<circ> (\<lambda>(l, ns). Neighbors1905 l ns) = (\<lambda>_. k = 7)" for k by (auto simp: fun_eq_iff)
  show "topology_told ts 0x03 = [Inr (DeviceInformation (tf_al_mac facts) (tf_interfaces facts))]"
    "topology_told ts 0x04 = (if length (tf_interfaces facts) \<le> 1 \<and> tf_bridges facts = [] then [] else [Inr (BridgingCapability (tf_bridges facts))])"
    "topology_told ts 0x06 = map (\<lambda>(l, ns). Inr (Non1905Neighbors l ns)) (tf_non1905 facts)"
    "topology_told ts 0x07 = map (\<lambda>(l, ns). Inr (Neighbors1905 l ns)) (tf_neighbors1905 facts)"
    unfolding told(1) topology_values_def by (auto simp: filter_map c case_prod_beta)
  show "set (map kind ts) \<subseteq> {0x03, 0x04, 0x06, 0x07}" unfolding told(2) topology_values_def by auto
qed

lemma backhaul_told: "map tlv_value (backhaul_tlvs facts) = (case backhaul_radios facts of [] \<Rightarrow> []
     | (ruid, station) # _ \<Rightarrow> (if station = None \<or> station = Some [] then [ruid @ [0]] else [ruid @ [0x80] @ the station]))"
  "set (map kind (backhaul_tlvs facts)) \<subseteq> {0xCB}"
  by (auto simp: backhaul_tlvs_def split: list.split option.split)

lemma topology_tlvs_report:
  assumes "topology_tlvs facts binding ms (Some now) = Inr ts"
  shows "consistent facts \<and> carries_topology ts facts now (ms = R1)"
proof -
  let ?f = "reported_facts facts now"
  obtain topo payloads profile where *: "check_topology ?f binding = Inr ()" "mapR topology_tlv (topology_values ?f) = Inr topo"
    "mapR em_tlv (topology_payloads ?f ms) = Inr payloads" "(if ms \<noteq> R1 then mapR em_tlv [MultiAPProfile 1] else Inr []) = Inr profile"
    "ts = topo @ payloads @ backhaul_tlvs ?f @ profile"
    using assms unfolding topology_tlvs_def Let_def bindR_unit bindR_eq_Inr option.case reported_facts_def [symmetric] by blast
  have last: "mapR em_tlv (if ms = R1 then [] else [MultiAPProfile 1]) = Inr profile" using *(4) by (simp split: if_splits)
  have k: "set (map kind payloads) \<subseteq> {0x80, 0x83, 0xB7, 0x84}" "set (map kind profile) \<subseteq> {0xB3}"
    using em_tlvs_told [OF *(3), THEN conjunct1] em_tlvs_told [OF last, THEN conjunct1] by (auto simp: topology_payloads_def)
  note topo = topology_values_told [OF *(2)]
  have none: "topology_told us k = [] \<and> payload_told us k = [] \<and> filter (\<lambda>t. kind t = k) us = []" if "set (map kind us) \<subseteq> K" "k \<notin> K" for us k K
    using told_none [of k us] that by blast
  have all: "filter (\<lambda>t. kind t = 0xCB) (backhaul_tlvs ?f) = backhaul_tlvs ?f" using backhaul_told(2) [of ?f] by (auto simp: filter_id_conv)
  have "carries_topology ts facts now (ms = R1)"
    unfolding carries_topology_def *(5) told_append
    using topo k backhaul_told [of ?f] all em_tlvs_told [OF *(3), THEN conjunct2] em_tlvs_told [OF last, THEN conjunct2] reported_clients [of facts now]
      none [OF topo(5)] none [OF k(1)] none [OF k(2)] none [OF backhaul_told(2), of _ ?f]
    by (intro conjI) (auto simp: topology_payloads_def)
  with check_topology_consistent [OF *(1)] consistent_reported show ?thesis by blast
qed

section \<open>Delivery to the controller\<close>

text \<open>A controller whose reassembler has room for a message and no fragments of it yet.\<close>

definition ready_for :: "reassembler \<Rightarrow> string \<Rightarrow> bytes \<Rightarrow> bytes \<Rightarrow> int \<Rightarrow> int \<Rightarrow> tlv list \<Rightarrow> nat \<Rightarrow> bool" where
  "ready_for r ingress s d ty m ts n \<longleftrightarrow>
     reassembler_ok r \<and> map_of (contexts r) (ingress, s, d, ty, m) = None \<and> length (contexts r) < max_contexts r \<and>
     int n \<le> max_fragments r \<and> tlvs_size ts \<le> max_message_bytes r \<and> buffered r + tlvs_size ts \<le> max_bytes r"

text \<open>The calls that hand over the frames in order, one per reading of the clock.\<close>

definition in_order :: "real list \<Rightarrow> bytes list \<Rightarrow> (real \<times> real \<times> bytes) list" where
  "in_order clock frames = map2 (\<lambda>t f. (t, t, f)) clock frames"

lemma fragments_nonempty: "fragment_message d s ty m ts relay mtu = Inr frames \<Longrightarrow> frames \<noteq> []"
  by (auto simp: fragment_message_def Let_def bindR_eq_Inr mapR_eq_Inr enumerate_append_eq split: if_splits prod.splits)

lemma frames_delivered:
  assumes "ready_for r ingress s d ty m ts (length frames)" "fragment_message d s ty m ts relay mtu = Inr frames"
    and "length clock = length frames" "\<forall>t \<in> set clock. t0 \<le> t \<and> t < t0 + timeout r"
  shows "last (snd (feeds r (in_order clock frames) ingress)) =
    Inr (Some \<lparr>msg_destination = d, msg_source = s, msg_type = ty, msg_mid = m, msg_relay = relay,
               msg_tlvs = ts, msg_fragments = int (length frames)\<rparr>)"
proof -
  let ?pre = "[0..<length frames - 1]" and ?i = "length frames - 1"
  have n: "frames \<noteq> []" using assms(2) by (rule fragments_nonempty)
  then have idx: "?pre @ [?i] = [0..<length frames]"
    by (metis Suc_diff_1 length_greater_0_conv upt_Suc_append zero_le)
  have calls: "map (\<lambda>c. snd (snd c)) (in_order clock frames) = map (\<lambda>i. frames ! i) (?pre @ [?i])"
    unfolding idx in_order_def using assms(3) by (intro nth_equalityI) auto
  have t: "\<forall>(now, opened, frame) \<in> set (in_order clock frames). t0 \<le> opened \<and> now < t0 + timeout r"
    using assms(4) by (auto simp: in_order_def dest!: set_zip_leftD)
  have "set (?pre @ [?i]) = {..<length frames}" "?i \<notin> set ?pre" unfolding idx by auto
  from feeds_any_order [OF _ assms(2) _ _ _ _ _ calls this t] assms(1) show ?thesis
    by (simp add: ready_for_def)
qed
section \<open>Properties\<close>

text \<open>C38. Guarded delivery: the frames handed to the socket are the first frames of the report, in order; before
  the n-th of them leaves, each of the 2n + 1 guards so far found the report fresh (the source still
  vouches for the same token, both stamps are valid at the clock reading, the deadline is ahead); and
  success is reported exactly when every frame was sent, every guard was fresh and every write
  succeeded.\<close>

theorem send_guarded:
  "\<exists>rest. pr_frames p = fst (send_report p env) @ rest \<and>
     (\<forall>n < length (fst (send_report p env)). \<forall>j \<le> 2 * n. fresh p env j) \<and>
     (snd (send_report p env) = Inr k \<longleftrightarrow> rest = [] \<and> k = length (pr_frames p) \<and>
        (\<forall>j < 2 * length (pr_frames p). fresh p env j) \<and> (\<forall>i < length (pr_frames p). env_write env i = Inr ()))"
proof -
  obtain sent r where *: "send_loop p env 0 (pr_frames p) = (sent, r)" by fastforce
  then have "send_report p env = (sent, bindR r (\<lambda>_. Inr (length (pr_frames p))))" by (simp add: send_report_def)
  then show ?thesis using send_loop_sent [OF *] by (auto simp: bindR_unit)
qed

definition example_stamp :: report_stamp where
  "example_stamp = \<lparr>token = ''a'', observed_at = 0, valid_until = 2\<rparr>"

theorem send_guarded_witness:
  "snd (send_report \<lparr>pr_message_type = 3, pr_mid = 5, pr_stamp = example_stamp, pr_deadline = 1, pr_frames = [[1], [2]]\<rparr>
     \<lparr>env_stamp = \<lambda>_. Inr (Some example_stamp), env_time = \<lambda>j. real j / 8, env_write = \<lambda>_. Inr ()\<rparr>) = Inr 2 \<and>
   fst (send_report \<lparr>pr_message_type = 3, pr_mid = 5, pr_stamp = example_stamp, pr_deadline = 1 / 3, pr_frames = [[1], [2]]\<rparr>
     \<lparr>env_stamp = \<lambda>_. Inr (Some example_stamp), env_time = \<lambda>j. real j / 8, env_write = \<lambda>_. Inr ()\<rparr>) \<noteq> []"
proof -
  let ?env = "\<lparr>env_stamp = \<lambda>_. Inr (Some example_stamp), env_time = \<lambda>j. real j / 8, env_write = \<lambda>_. Inr ()\<rparr>"
  let ?p = "\<lambda>d. \<lparr>pr_message_type = 3, pr_mid = 5, pr_stamp = example_stamp, pr_deadline = d, pr_frames = [[1], [2]]\<rparr>"
  have fresh: "fresh (?p d) ?env j \<longleftrightarrow> real j / 8 < 2 \<and> real j / 8 < d" for d j
    by (simp add: fresh_def example_stamp_def)
  have "\<forall>j < 4. fresh (?p 1) ?env j" unfolding fresh by auto
  have all: "fst (send_report (?p 1) ?env) = [[1], [2]]"
    by (simp add: send_report_def guard_def example_stamp_def stamp_check_def require_def ensure_def)
  have "snd (send_report (?p 1) ?env) = Inr 2"
    using send_guarded [of "?p 1" ?env 2] \<open>\<forall>j < 4. fresh (?p 1) ?env j\<close> unfolding all by simp
  moreover have "fst (send_report (?p (1/3)) ?env) \<noteq> []"
    by (simp add: send_report_def guard_def example_stamp_def stamp_check_def require_def ensure_def Let_def split: prod.splits sum.splits)
  ultimately show ?thesis by blast
qed

text \<open>The explanation of a capability change is exact: the message is empty if and only if the two
  inventories have the same identity, that is they agree in everything except the operable channels
  of the operating classes (and the completeness flag, which the comparison does not read).\<close>

theorem identity_difference_exact:
  "identity_difference before after = None \<longleftrightarrow>
   capabilities_identity (before\<lparr>ec_complete := True\<rparr>) = capabilities_identity (after\<lparr>ec_complete := True\<rparr>)"
  by (rule identity_difference_None)

definition example_capabilities :: early_capabilities where
  "example_capabilities =
     \<lparr>ec_radios = [\<lparr>er_basic = \<lparr>basic_ruid = [2, 0, 0, 0, 0, 7], basic_max_bss = 2,
          basic_classes = [\<lparr>operating_class = 81, max_eirp_dbm = 20, non_operable_channels = [13]\<rparr>]\<rparr>,
        er_ht = HtFlag False, er_advanced = ([2, 0, 0, 0, 0, 7], 0), er_vht = False, er_he = False, er_eht = False\<rparr>],
      ec_ap = 0, ec_profile2 = \<lparr>max_prioritization_rules = 0, reserved_octet = 0, p2_flags = 64, max_vids = 0\<rparr>,
      ec_akm = ([], [PSK]), ec_ciphers = [CCMP128], ec_complete = True\<rparr>"

lemma example_capability_tlvs:
  "capability_tlvs example_capabilities = Inr
     [Tlv 0xA1 [0], Tlv 0x85 [2, 0, 0, 0, 0, 7, 2, 1, 81, 20, 1, 13], Tlv 0xBE [2, 0, 0, 0, 0, 7, 0],
      Tlv 0xCC [0, 1, 0, 15, 172, 2], Tlv 0xB4 [0, 0, 64, 0], Tlv 0xED [1, 0, 15, 172, 4]]"
  by (simp add: capability_tlvs_def example_capabilities_def require_def ensure_def unique_def identity_def radio_tlvs_def
      em_tlv_def basic_payload_def profile2_payload_def PSK_def CCMP128_def encode_value_def catR_def joinR_def octets_chk_def
      octet_chk_def count_chk_def extend_each_def encode_operating_class_def GLOBAL_OPERATING_CLASSES_def encode_selectors_def
      byte_counter_units_def bounded_def MAX_VALUE_BYTES_def zeros_6)

definition example_controller :: reassembler where
  "example_controller = \<lparr>timeout = 5, max_contexts = 2, max_bytes = 1000, max_message_bytes = 500, max_fragments = 4,
     contexts = [], buffered = 0\<rparr>"

lemma example_controller_ready: "tlvs_size ts \<le> 500 \<Longrightarrow> n \<le> 4 \<Longrightarrow> ready_for example_controller ingress s d ty m ts n"
  by (simp add: ready_for_def example_controller_def reassembler_ok_def)

lemmas example_frame_simps =
  fragment_message_def frag_step_def tlv_encode_def uint_chk_def u16_explicit cmdu_consts fragment_encode_eq
  fragment_ok_def put_frame_def END_TLV_def

definition example_report :: prepared_report where
  "example_report = \<lparr>pr_message_type = 0x8043, pr_mid = 8, pr_stamp = example_stamp, pr_deadline = 2,
     pr_frames = [[2, 0, 0, 0, 0, 9, 2, 0, 0, 0, 0, 1, 0x89, 0x3A, 0, 0, 0x80, 0x43, 0, 8, 0, 0x80,
       0xA1, 0, 1, 0, 0x85, 0, 12, 2, 0, 0, 0, 0, 7, 2, 1, 81, 20, 1, 13, 0xBE, 0, 7, 2, 0, 0, 0, 0, 7, 0,
       0xCC, 0, 6, 0, 1, 0, 15, 172, 2, 0xB4, 0, 4, 0, 0, 64, 0, 0xED, 0, 5, 1, 0, 15, 172, 4, 0, 0, 0]]\<rparr>"

lemma example_early_report:
  "early_report example_binding example_capabilities example_stamp \<lparr>previous = 7\<rparr> 1 = (\<lparr>previous = 8\<rparr>, Inr example_report)"
  by (simp add: early_report_def example_capability_tlvs example_binding_def stamp_check_def require_def ensure_def next_mid_def
      example_frame_simps EARLY_AP_REPORT_def example_report_def example_stamp_def)

text \<open>C39. An Early AP Capability Report says what the inventory says: when the report is built, its inventory is
  complete with distinct radio identifiers, and a controller with room for it that receives the frames
  in order reassembles one message whose TLVs decode to the capabilities of the device and of every
  radio, in order.\<close>

theorem early_report_delivered:
  assumes "early_report binding facts stamp seq now = (seq', Inr p)"
  shows "ec_complete facts \<and> distinct (map (\<lambda>r. basic_ruid (er_basic r)) (ec_radios facts)) \<and>
    observed_at stamp \<le> now \<and> now < valid_until stamp \<and>
    (\<exists>ts. capability_tlvs facts = Inr ts \<and> map tlv_payload ts = map Inr (capability_payloads facts) \<and>
      (\<forall>r ingress clock t0. ready_for r ingress (local_al binding) (controller_al binding) 0x8043 (pr_mid p) ts (length (pr_frames p)) \<longrightarrow>
        length clock = length (pr_frames p) \<longrightarrow> (\<forall>t \<in> set clock. t0 \<le> t \<and> t < t0 + timeout r) \<longrightarrow>
        (\<exists>m. last (snd (feeds r (in_order clock (pr_frames p)) ingress)) = Inr (Some m) \<and>
           msg_type m = 0x8043 \<and> msg_mid m = pr_mid p \<and> msg_tlvs m = ts)))"
proof -
  obtain ts where *: "stamp_check stamp (Some stamp) now = Inr ()" "capability_tlvs facts = Inr ts"
    "fragment_message (controller_al binding) (local_al binding) EARLY_AP_REPORT (pr_mid p) ts False 1500 = Inr (pr_frames p)"
    using assms by (auto simp: early_report_def bindR_unit bindR_eq_Inr Let_def split: sum.splits prod.splits)
  have "observed_at stamp \<le> now \<and> now < valid_until stamp"
    using *(1) by (auto simp: stamp_check_def result_simps)
  moreover have "\<exists>m. last (snd (feeds r (in_order clock (pr_frames p)) ingress)) = Inr (Some m) \<and>
      msg_type m = 0x8043 \<and> msg_mid m = pr_mid p \<and> msg_tlvs m = ts"
    if "ready_for r ingress (local_al binding) (controller_al binding) 0x8043 (pr_mid p) ts (length (pr_frames p))"
      "length clock = length (pr_frames p)" "\<forall>t \<in> set clock. t0 \<le> t \<and> t < t0 + timeout r" for r ingress clock t0
    using frames_delivered [OF _ *(3) that(2,3)] that(1) by (auto simp: EARLY_AP_REPORT_def)
  ultimately show ?thesis using capability_tlvs_payload [OF *(2)] *(2) by blast
qed

theorem early_report_delivered_witness:
  "\<exists>m. last (snd (feeds example_controller (in_order [3] (pr_frames example_report)) ''lan'')) = Inr (Some m) \<and>
     msg_type m = 0x8043 \<and> msg_mid m = 8 \<and> map tlv_payload (msg_tlvs m) = map Inr (capability_payloads example_capabilities)"
proof -
  have "tlvs_size ts \<le> 500" if "capability_tlvs example_capabilities = Inr ts" for ts
    using that by (auto simp: example_capability_tlvs tlvs_size_def)
  then have "ready_for example_controller ''lan'' s d ty m ts 1" if "capability_tlvs example_capabilities = Inr ts" for s d ty m ts
    using that by (simp add: example_controller_ready)
  moreover have "length (pr_frames example_report) = 1" "pr_mid example_report = 8" "timeout example_controller = 5"
    by (simp_all add: example_report_def example_controller_def)
  moreover have "\<forall>t \<in> set [3]. (0 :: real) \<le> t \<and> t < 0 + 5" "length [3 :: real] = 1" by simp_all
  ultimately show ?thesis using early_report_delivered [OF example_early_report] by metis
qed

text \<open>C40. A Topology Response is consistent and arrives as such: the identifiers of the reported inventory are distinct,
  bridged interfaces exist, the operational BSSs are exactly the configured ones with the same names, clients are
  listed for exactly the active BSSs and under one BSS each, every active BSS has its access point interface; the
  response echoes the query's message identifier and expires one second after the query arrived; and a controller that
  receives its frames in order reassembles a message with exactly these contents: the device and its interfaces, its
  bridges if it has several interfaces or a bridge, one TLV for every interface with neighbors of either kind, the
  agent service, the operational BSSs, the clients of every BSS with the whole seconds since their association at the
  time of the response, at most 65535, the radio of the backhaul with its station if there is one, and outside the R1
  message set the configured BSSs and profile 1.\<close>

theorem topology_response_delivered:
  assumes "topology_response query binding facts stamp ingress g received now ms = Inr p"
  shows "consistent facts \<and> pr_mid p = msg_mid query \<and> pr_deadline p = received + 1 \<and> received \<le> now \<and> now < received + 1 \<and>
    (\<exists>ts. topology_tlvs facts binding ms (Some now) = Inr ts \<and> carries_topology ts facts now (ms = R1) \<and>
      (\<forall>r ingress clock t0. ready_for r ingress (local_al binding) (controller_al binding) 3 (pr_mid p) ts (length (pr_frames p)) \<longrightarrow>
        length clock = length (pr_frames p) \<longrightarrow> (\<forall>t \<in> set clock. t0 \<le> t \<and> t < t0 + timeout r) \<longrightarrow>
        (\<exists>m. last (snd (feeds r (in_order clock (pr_frames p)) ingress)) = Inr (Some m) \<and>
           msg_type m = 3 \<and> msg_mid m = msg_mid query \<and> msg_tlvs m = ts)))"
proof -
  obtain ts where *: "received \<le> now" "now < received + 1" "topology_tlvs facts binding ms (Some now) = Inr ts"
    "fragment_message (controller_al binding) (local_al binding) 3 (msg_mid query) ts False 1500 = Inr (pr_frames p)"
    "pr_mid p = msg_mid query" "pr_deadline p = received + 1"
    using assms unfolding topology_response_def Let_def bindR_unit bindR_eq_Inr require_eq_Inr by auto
  have "\<exists>m. last (snd (feeds r (in_order clock (pr_frames p)) ingress)) = Inr (Some m) \<and>
      msg_type m = 3 \<and> msg_mid m = msg_mid query \<and> msg_tlvs m = ts"
    if "ready_for r ingress (local_al binding) (controller_al binding) 3 (pr_mid p) ts (length (pr_frames p))"
      "length clock = length (pr_frames p)" "\<forall>t \<in> set clock. t0 \<le> t \<and> t < t0 + timeout r" for r ingress clock t0
    using frames_delivered [OF _ *(4) that(2,3)] that(1) by (auto simp: *(5))
  with topology_tlvs_report [OF *(3)] *(1-3,5,6) show ?thesis by blast
qed

definition example_topology :: topology_facts where
  "example_topology =
     \<lparr>tf_al_mac = [2, 0, 0, 0, 0, 1],
      tf_interfaces = [\<lparr>li_mac = [2, 0, 0, 0, 0, 3], media_type = 0x103, media_specific = [2, 0, 0, 0, 0, 3, 0, 0, 0, 0]\<rparr>],
      tf_bridges = [], tf_non1905 = [], tf_neighbors1905 = [],
      tf_operational = [\<lparr>op_ruid = [2, 0, 0, 0, 0, 7], op_bsses = [\<lparr>ap_mac = [2, 0, 0, 0, 0, 3], op_ssid = [97]\<rparr>]\<rparr>],
      tf_configuration = [\<lparr>cr_ruid = [2, 0, 0, 0, 0, 7],
        cr_bsses = [\<lparr>cb_bssid = [2, 0, 0, 0, 0, 3], cb_flags = 64, cb_ssid = [97]\<rparr>]\<rparr>],
      tf_clients = [\<lparr>bc_bssid = [2, 0, 0, 0, 0, 3], bc_clients = [\<lparr>ac_mac = [2, 0, 0, 0, 0, 5], association_seconds = 0\<rparr>]\<rparr>],
      tf_complete = True, powered_off_interfaces_absent = True, l2_neighbor_records_absent = True,
      mld_backhaul_vbss_tid_policy_absent = True, backhaul_stations = [], backhaul_radios = [],
      associated_at = [([2, 0, 0, 0, 0, 5], - 3)]\<rparr>"

definition example_topology_tlvs :: "tlv list" where
  "example_topology_tlvs =
     [Tlv 3 [2, 0, 0, 0, 0, 1, 1, 2, 0, 0, 0, 0, 3, 1, 3, 10, 2, 0, 0, 0, 0, 3, 0, 0, 0, 0], Tlv 0x80 [1, 1],
      Tlv 0x83 [1, 2, 0, 0, 0, 0, 7, 1, 2, 0, 0, 0, 0, 3, 1, 97], Tlv 0xB7 [1, 2, 0, 0, 0, 0, 7, 1, 2, 0, 0, 0, 0, 3, 64, 0, 1, 97],
      Tlv 0x84 [1, 2, 0, 0, 0, 0, 3, 0, 1, 2, 0, 0, 0, 0, 5, 0, 4], Tlv 0xB3 [1]]"

lemma example_aged: "aged_clients example_topology 1 =
  [\<lparr>bc_bssid = [2, 0, 0, 0, 0, 3], bc_clients = [\<lparr>ac_mac = [2, 0, 0, 0, 0, 5], association_seconds = 4\<rparr>]\<rparr>]"
  by (simp add: aged_clients_def example_topology_def dict_of_def py_int_def)

lemma example_reported: "reported_facts example_topology 1 = example_topology\<lparr>tf_clients :=
  [\<lparr>bc_bssid = [2, 0, 0, 0, 0, 3], bc_clients = [\<lparr>ac_mac = [2, 0, 0, 0, 0, 5], association_seconds = 4\<rparr>]\<rparr>]\<rparr>"
  unfolding reported_facts_def example_aged by (simp add: example_topology_def)

lemma example_topology_checked: "check_topology (reported_facts example_topology 1) example_binding = Inr ()"
  unfolding example_reported
  by (simp add: check_topology_def check_radios_def check_clients_def check_neighbors_def example_topology_def example_binding_def
      require_def ensure_def unique_def identity_def zeros_6 active_bsses_def operational_items_def configured_items_def dict_of_def
      ap_interface_def)

lemma example_topology_encoded:
  "topology_tlvs example_topology example_binding EASYMESH_61 (Some 1) = Inr example_topology_tlvs"
proof -
  have v: "mapR topology_tlv (topology_values (reported_facts example_topology 1)) = Inr (take 1 example_topology_tlvs)"
    unfolding example_reported
    by (simp add: topology_values_def example_topology_def topology_tlv_def encode_topology_def mac_def catR_def joinR_def
        topology_count_def encode_interface_def media_def uint_chk_def media_length_def u16_explicit MAX_VALUE_def example_topology_tlvs_def)
  have p: "mapR em_tlv (topology_payloads (reported_facts example_topology 1) EASYMESH_61) = Inr (take 4 (drop 1 example_topology_tlvs))"
    unfolding example_reported
    by (simp add: topology_payloads_def example_topology_def em_services em_tlv_def encode_value_def bounded_def MAX_VALUE_BYTES_def
        encode_services_def encode_clients_def encode_report_def count_chk_def octet_chk_def octets_chk_def extend_groups_def extend_each_def catR_def
        u16_chk_def u16_explicit encode_client_def encode_operational_bss_def encode_configured_bss_def EASYMESH_61_def R1_def
        example_topology_tlvs_def)
  have b: "backhaul_tlvs (reported_facts example_topology 1) = []"
    unfolding example_reported by (simp add: backhaul_tlvs_def example_topology_def)
  show ?thesis
    unfolding topology_tlvs_def Let_def option.case reported_facts_def [symmetric] example_topology_checked v p b
    by (simp add: em_services example_topology_tlvs_def EASYMESH_61_def R1_def)
qed

definition example_query :: message where
  "example_query = \<lparr>msg_destination = [2, 0, 0, 0, 0, 1], msg_source = [2, 0, 0, 0, 0, 9], msg_type = 2, msg_mid = 6,
     msg_relay = False, msg_tlvs = [Tlv 0xB3 [2]], msg_fragments = 1\<rparr>"

definition example_response :: prepared_report where
  "example_response = \<lparr>pr_message_type = 3, pr_mid = 6, pr_stamp = example_stamp, pr_deadline = 3 / 2,
     pr_frames = [[2, 0, 0, 0, 0, 9, 2, 0, 0, 0, 0, 1, 0x89, 0x3A, 0, 0, 0, 3, 0, 6, 0, 0x80,
       3, 0, 26, 2, 0, 0, 0, 0, 1, 1, 2, 0, 0, 0, 0, 3, 1, 3, 10, 2, 0, 0, 0, 0, 3, 0, 0, 0, 0, 0x80, 0, 2, 1, 1,
       0x83, 0, 16, 1, 2, 0, 0, 0, 0, 7, 1, 2, 0, 0, 0, 0, 3, 1, 97,
       0xB7, 0, 18, 1, 2, 0, 0, 0, 0, 7, 1, 2, 0, 0, 0, 0, 3, 64, 0, 1, 97,
       0x84, 0, 17, 1, 2, 0, 0, 0, 0, 3, 0, 1, 2, 0, 0, 0, 0, 5, 0, 4, 0xB3, 0, 1, 1, 0, 0, 0]]\<rparr>"

lemma example_topology_response:
  "topology_response example_query example_binding example_topology example_stamp ''eth0'' 0 (1 / 2) 1 EASYMESH_61 = Inr example_response"
  unfolding topology_response_def example_topology_encoded
  by (simp add: example_query_def stamp_check_def require_def ensure_def
      binding_check_def example_binding_def check_message_set_def MESSAGE_SETS_def tlv_values_def has_kind_def SECURITY_ENVELOPES_def
      decode_value_def decode_body_def octet_chk_def bounded_def MAX_VALUE_BYTES_def thenP_def codec_simps profile_of_def effective_profile_def
      example_topology_tlvs_def example_frame_simps example_response_def example_stamp_def)

theorem topology_response_delivered_witness:
  "consistent example_topology \<and>
   (\<exists>m. last (snd (feeds example_controller (in_order [3] (pr_frames example_response)) ''lan'')) = Inr (Some m) \<and>
     msg_type m = 3 \<and> msg_mid m = 6 \<and> carries_topology (msg_tlvs m) example_topology 1 False)"
proof -
  let ?p = "example_response" and ?r = "example_controller"
  have f: "length (pr_frames ?p) = 1" "pr_mid ?p = 6" "msg_mid example_query = 6" "timeout ?r = 5" "(EASYMESH_61 = R1) = False"
    by (simp_all add: example_response_def example_query_def example_controller_def EASYMESH_61_def R1_def)
  obtain ts where ts: "topology_tlvs example_topology example_binding EASYMESH_61 (Some 1) = Inr ts" "carries_topology ts example_topology 1 False"
    "consistent example_topology" and delivered: "\<And>ingress clock t0. ready_for ?r ingress (local_al example_binding) (controller_al example_binding) 3 6 ts 1 \<Longrightarrow>
      length clock = 1 \<Longrightarrow> \<forall>t \<in> set clock. t0 \<le> t \<and> t < t0 + 5 \<Longrightarrow>
      \<exists>m. last (snd (feeds ?r (in_order clock (pr_frames ?p)) ingress)) = Inr (Some m) \<and> msg_type m = 3 \<and> msg_mid m = 6 \<and> msg_tlvs m = ts"
    using topology_response_delivered [OF example_topology_response, unfolded f] f(4) by metis
  have "ts = example_topology_tlvs" using ts(1) by (simp add: example_topology_encoded)
  then have "tlvs_size ts \<le> 500" by (simp add: example_topology_tlvs_def tlvs_size_def)
  from delivered [OF example_controller_ready [OF this], of "[3]" 0 "''lan''"] ts(2,3) show ?thesis by auto
qed

end
