(* ===== verification/Report_Source.thy ===== *)
theory Report_Source
  imports Reports
begin

unbundle bit_operations_syntax

text \<open>
  The publication of observed facts: \<open>ReportSnapshot\<close> and \<open>ReportSource\<close> of \<open>emosa/wire/coordinator.py\<close> and the
  operating radios of \<open>emosa/wire/channel.py\<close> they carry.  A source is a record; \<open>publish\<close>, \<open>invalidate\<close> and
  \<open>current\<close> return it updated, and every clock reading is an argument, one per place the code reads the clock.
  The histories of a source are \<open>source_step\<close>; the lemmas show that tokens identify epoch, revision and withdrawn
  leases (\<open>source_token_inj\<close>), and that a later source never shows other facts under an earlier token.
\<close>

section \<open>Operating radios\<close>

definition CLASS_CHANNELS :: "(int \<times> int list) list" where
  "CLASS_CHANNELS =
     [(81, [1 .. 13]), (115, [36, 40, 44, 48]), (124, [149, 153, 157, 161]), (125, [149, 153, 157, 161, 165, 169, 173, 177])]"

definition BAND_CLASSES :: "int list list" where
  "BAND_CLASSES = [[81], [115, 124, 125]]"

definition advertised :: "int \<Rightarrow> int list" where
  "advertised c = (case filter (\<lambda>classes. c \<in> set classes) BAND_CLASSES of [] \<Rightarrow> [] | classes # _ \<Rightarrow> classes)"

record operating_radio =
  or_ruid :: bytes
  or_class :: int
  or_channel :: int
  tx_power_dbm :: int
  or_bound :: bool

definition OperatingRadio :: "bytes \<Rightarrow> int \<Rightarrow> int \<Rightarrow> int \<Rightarrow> bool \<Rightarrow> operating_radio result" where
  "OperatingRadio ruid cls channel dbm bound =
     (if length ruid \<noteq> 6 \<or> list_all (\<lambda>b. b = 0) ruid \<or> val (ruid ! 0) AND 1 \<noteq> 0 \<or>
         channel \<notin> set (case map_of CLASS_CHANNELS cls of Some cs \<Rightarrow> cs | None \<Rightarrow> []) \<or>
         \<not> (- 128 \<le> dbm \<and> dbm \<le> 127)
      then invalid
      else Inr \<lparr>or_ruid = ruid, or_class = cls, or_channel = channel, tx_power_dbm = dbm, or_bound = bound\<rparr>)"

definition operating_tlv :: "operating_radio \<Rightarrow> tlv" where
  "operating_tlv r = Tlv 0x8F (or_ruid r @ [1, oct (or_class r), oct (or_channel r), oct (tx_power_dbm r AND 255)])"

section \<open>The source\<close>

record report_snapshot =
  sn_stamp :: report_stamp
  sn_capabilities :: early_capabilities
  sn_topology :: topology_facts
  context_token :: string
  operating_radios :: "operating_radio list"
  telemetry_valid_until :: "real option"
  topology_valid_until :: "real option"
  sn_generation :: "int option"
  held_radios :: "bytes set"

type_synonym source_facts =
  "early_capabilities \<times> topology_facts \<times> operating_radio list \<times> real option \<times> real option"

record report_source =
  rs_binding :: peer_binding
  rs_pod_id :: string
  inputs_digest :: string
  rs_identity :: "peer_binding \<times> string \<times> string"
  instance_hex :: string
  epoch :: nat
  rs_snapshot :: "report_snapshot option"
  rs_revision :: "(int \<times> int) option"
  last_facts :: "source_facts option"
  last_observed :: "real option"

text \<open>\<open>uuid.uuid4().hex\<close> is an argument; \<open>_last_observed\<close> starts at minus infinity, here \<open>None\<close>.\<close>

definition ReportSource :: "peer_binding \<Rightarrow> string \<Rightarrow> string \<Rightarrow> string \<Rightarrow> report_source result" where
  "ReportSource binding pod_id digest hex =
     (if \<not> (1 \<le> length pod_id \<and> length pod_id \<le> 64) \<or> length digest \<noteq> 64 \<or>
         \<not> list_all (\<lambda>c. c \<in> set ''0123456789abcdef'') digest
      then invalid
      else Inr \<lparr>rs_binding = binding, rs_pod_id = pod_id, inputs_digest = digest, rs_identity = (binding, pod_id, digest),
        instance_hex = hex, epoch = 0, rs_snapshot = None, rs_revision = None, last_facts = None, last_observed = None\<rparr>)"

definition invalidate :: "report_source \<Rightarrow> report_source" where
  "invalidate src = src\<lparr>rs_snapshot := None, epoch := epoch src + 1\<rparr>"

definition same_identity :: "report_source \<Rightarrow> bool" where
  "same_identity src \<longleftrightarrow> (rs_binding src, rs_pod_id src, inputs_digest src) = rs_identity src"

text \<open>The arguments of one \<open>publish\<close>.\<close>

record publication =
  pub_revision :: "int \<times> int"
  pub_capabilities :: early_capabilities
  pub_topology :: topology_facts
  pub_observed_at :: real
  pub_lifetime :: real
  pub_operating :: "operating_radio list"
  pub_telemetry_until :: "real option"
  pub_topology_until :: "real option"
  pub_lineage :: "int option"
  pub_held :: "bytes set"

definition pub_facts :: "publication \<Rightarrow> source_facts" where
  "pub_facts p = (pub_capabilities p, pub_topology p, pub_operating p, pub_telemetry_until p, pub_topology_until p)"

text \<open>Python's order of pairs.\<close>

definition revision_less :: "int \<times> int \<Rightarrow> int \<times> int \<Rightarrow> bool" where
  "revision_less r s \<longleftrightarrow> fst r < fst s \<or> fst r = fst s \<and> snd r < snd s"

definition capacities :: "early_capabilities \<Rightarrow> (bytes \<times> int) list" where
  "capacities caps = dict_of (map (\<lambda>r. (basic_ruid (er_basic r), basic_max_bss (er_basic r))) (ec_radios caps))"

definition check_publication :: "report_source \<Rightarrow> publication \<Rightarrow> unit result" where
  "check_publication src p =
     (let (r0, r1) = pub_revision p; caps = capacities (pub_capabilities p);
          known = (\<lambda>ruid. map_of caps ruid \<noteq> None); radios = tf_operational (pub_topology p)
      in if \<not> same_identity src \<or> (case pub_lineage p of Some l \<Rightarrow> l < 0 | None \<Rightarrow> False) \<or> r0 < 0 \<or> r1 < 0 \<or>
            \<not> (0 < pub_lifetime p \<and> pub_lifetime p \<le> 2) \<or>
            (case last_observed src of Some t \<Rightarrow> pub_observed_at p < t | None \<Rightarrow> False) \<or>
            (case rs_revision src of Some r \<Rightarrow> revision_less (pub_revision p) r | None \<Rightarrow> False) \<or>
            tf_al_mac (pub_topology p) \<noteq> local_al (rs_binding src)
         then invalid
         else if card (set (map or_ruid (pub_operating p))) \<noteq> length (pub_operating p) \<or>
                 \<not> list_all (\<lambda>r. known (or_ruid r)) (pub_operating p)
         then invalid
         else if \<exists>r \<in> pub_held p. \<not> known r then invalid
         else if set (map fst caps) \<noteq> set (map op_ruid radios) \<or>
                 \<not> list_all (\<lambda>r. case map_of caps (op_ruid r) of Some n \<Rightarrow> int (length (op_bsses r)) \<le> n | None \<Rightarrow> False) radios
         then invalid
         else if Some (pub_revision p) = rs_revision src \<and> last_facts src \<noteq> Some (pub_facts p) then invalid
         else Inr ())"

text \<open>\<open>dataclasses.replace\<close> of a stamp runs the checks of its constructor.\<close>

definition replace_stamp :: "report_snapshot \<Rightarrow> string \<Rightarrow> real \<Rightarrow> report_snapshot result" where
  "replace_stamp s t valid =
     bindR (ReportStamp t (observed_at (sn_stamp s)) valid) (\<lambda>stamp. Inr (s\<lparr>sn_stamp := stamp\<rparr>))"

definition lease_topology :: "real \<Rightarrow> report_snapshot \<Rightarrow> report_snapshot result" where
  "lease_topology now s =
     (case topology_valid_until s of
        None \<Rightarrow> Inr s
      | Some t \<Rightarrow>
          if now \<ge> t
          then bindR (replace_stamp s (token (sn_stamp s) @ ''/topology-expired'') (valid_until (sn_stamp s))) (\<lambda>s.
                 Inr (s\<lparr>sn_topology := (sn_topology s)\<lparr>tf_complete := False\<rparr>, topology_valid_until := None\<rparr>))
          else replace_stamp s (token (sn_stamp s)) (min (valid_until (sn_stamp s)) t))"

definition lease_telemetry :: "real \<Rightarrow> report_snapshot \<Rightarrow> report_snapshot result" where
  "lease_telemetry now s =
     (case telemetry_valid_until s of
        None \<Rightarrow> Inr s
      | Some t \<Rightarrow>
          if now \<ge> t
          then bindR (replace_stamp s (token (sn_stamp s) @ ''/telemetry-expired'') (valid_until (sn_stamp s))) (\<lambda>s.
                 Inr (s\<lparr>sn_topology := (sn_topology s)\<lparr>tf_complete := False,
                          tf_clients := map (\<lambda>b. \<lparr>bc_bssid = bc_bssid b, bc_clients = []\<rparr>) (tf_clients (sn_topology s))\<rparr>,
                        operating_radios := [], telemetry_valid_until := None\<rparr>))
          else replace_stamp s (token (sn_stamp s)) (min (valid_until (sn_stamp s)) t))"

text \<open>The clock readings of one \<open>current\<close>, at its three places.\<close>

record readings =
  rd_stamp :: real
  rd_topology :: real
  rd_telemetry :: real

definition current :: "report_source \<Rightarrow> readings \<Rightarrow> report_source \<times> report_snapshot option result" where
  "current src rd =
     (if \<not> same_identity src then (invalidate src, Inr None)
      else case rs_snapshot src of
        None \<Rightarrow> (src, Inr None)
      | Some s \<Rightarrow>
          (case stamp_check (sn_stamp s) (Some (sn_stamp s)) (rd_stamp rd) of
             Inl _ \<Rightarrow> (invalidate src, Inr None)
           | Inr _ \<Rightarrow>
               (src, bindR (lease_topology (rd_topology rd) s) (\<lambda>s.
                     bindR (lease_telemetry (rd_telemetry rd) s) (\<lambda>s. Inr (Some s))))))"

definition source_token :: "string \<Rightarrow> nat \<Rightarrow> int \<times> int \<Rightarrow> string" where
  "source_token hex e r = hex @ ''/'' @ int_digits e @ ''/'' @ int_digits (nat (fst r)) @ ''/'' @ int_digits (nat (snd r))"

definition source_context :: "string \<Rightarrow> nat \<Rightarrow> int \<Rightarrow> int option \<Rightarrow> string" where
  "source_context hex e r0 lineage =
     (case lineage of
        None \<Rightarrow> hex @ ''/'' @ int_digits e @ ''/'' @ int_digits (nat r0)
      | Some l \<Rightarrow> hex @ ''/lineage-'' @ int_digits (nat l))"

definition lapsed :: "report_source \<Rightarrow> real \<Rightarrow> bool" where
  "lapsed src now \<longleftrightarrow> (case rs_snapshot src of Some s \<Rightarrow> now \<ge> valid_until (sn_stamp s) | None \<Rightarrow> False)"

text \<open>\<open>lapse_now\<close> and \<open>check_now\<close> are the clock readings of \<open>publish\<close> itself, before those of its \<open>current\<close>.\<close>

definition publish ::
  "report_source \<Rightarrow> publication \<Rightarrow> real \<Rightarrow> real \<Rightarrow> readings \<Rightarrow> report_source \<times> report_snapshot option result" where
  "publish src p lapse_now check_now rd =
     (case check_publication src p of
        Inl e \<Rightarrow> (invalidate src, Inl e)
      | Inr _ \<Rightarrow>
          let src = (if lapsed src lapse_now then invalidate src else src) in
          (case bindR (ReportStamp (source_token (instance_hex src) (epoch src) (pub_revision p)) (pub_observed_at p)
                         (pub_observed_at p + pub_lifetime p)) (\<lambda>s.
                bindR (stamp_check s (Some s) check_now) (\<lambda>_. Inr s)) of
             Inl e \<Rightarrow> (invalidate src, Inl e)
           | Inr stamp \<Rightarrow>
               current (src\<lparr>rs_revision := Some (pub_revision p), last_observed := Some (pub_observed_at p),
                 last_facts := Some (pub_facts p),
                 rs_snapshot := Some \<lparr>sn_stamp = stamp, sn_capabilities = pub_capabilities p, sn_topology = pub_topology p,
                   context_token = source_context (instance_hex src) (epoch src) (fst (pub_revision p)) (pub_lineage p),
                   operating_radios = pub_operating p, telemetry_valid_until = pub_telemetry_until p,
                   topology_valid_until = pub_topology_until p, sn_generation = Some (fst (pub_revision p)),
                   held_radios = pub_held p\<rparr>\<rparr>) rd))"
section \<open>Tokens\<close>

lemma isdigit_no_slash: "isdigit s \<Longrightarrow> c \<in> set s \<Longrightarrow> c \<noteq> CHR ''/''"
  by (auto simp: isdigit_def list_all_iff isdigit_char_def)

lemma digits_before_slash:
  assumes "int_digits m @ s = int_digits n @ t" "s = [] \<or> hd s = CHR ''/''" "t = [] \<or> hd t = CHR ''/''"
  shows "m = n \<and> s = t"
proof -
  have cut: "takeWhile (\<lambda>c. c \<noteq> CHR ''/'') (int_digits k @ u) = int_digits k" if "u = [] \<or> hd u = CHR ''/''" for k u
    using that isdigit_no_slash [OF isdigit_int_digits] by (cases u) (auto simp: takeWhile_append2 takeWhile_eq_all_conv)
  from assms cut have "int_digits m = int_digits n" by metis
  with assms(1) show ?thesis by simp
qed

text \<open>What \<open>current\<close> appends to the token, and what it shows, when the topology or the telemetry lease has ended.\<close>

definition token_suffix :: "bool \<Rightarrow> bool \<Rightarrow> string" where
  "token_suffix topo tele = (if topo then ''/topology-expired'' else '''') @ (if tele then ''/telemetry-expired'' else '''')"

lemma token_suffix_inj [simp]: "token_suffix a b = token_suffix c d \<longleftrightarrow> a = c \<and> b = d"
  by (cases a; cases b; cases c; cases d) (simp_all add: token_suffix_def)

lemma token_suffix_slash: "token_suffix a b = [] \<or> hd (token_suffix a b) = CHR ''/''"
  by (simp add: token_suffix_def)

lemma source_token_inj:
  assumes "source_token hex e r @ token_suffix a b = source_token hex f s @ token_suffix c d"
    "0 \<le> fst r" "0 \<le> snd r" "0 \<le> fst s" "0 \<le> snd s"
  shows "e = f \<and> r = s \<and> a = c \<and> b = d"
proof -
  have "e = f" and 1: "int_digits (nat (fst r)) @ ''/'' @ int_digits (nat (snd r)) @ token_suffix a b =
      int_digits (nat (fst s)) @ ''/'' @ int_digits (nat (snd s)) @ token_suffix c d"
    using digits_before_slash [of e "''/'' @ int_digits (nat (fst r)) @ ''/'' @ int_digits (nat (snd r)) @ token_suffix a b" f
        "''/'' @ int_digits (nat (fst s)) @ ''/'' @ int_digits (nat (snd s)) @ token_suffix c d"] assms(1)
    by (simp_all add: source_token_def)
  moreover have "nat (fst r) = nat (fst s)" and 2: "int_digits (nat (snd r)) @ token_suffix a b = int_digits (nat (snd s)) @ token_suffix c d"
    using digits_before_slash [OF 1] by simp_all
  moreover have "nat (snd r) = nat (snd s)" "token_suffix a b = token_suffix c d"
    using digits_before_slash [OF 2 token_suffix_slash token_suffix_slash] by simp_all
  ultimately show ?thesis using assms(2-) by (simp add: prod_eq_iff eq_nat_nat_iff)
qed

section \<open>What is shown\<close>

definition shown :: "report_snapshot \<Rightarrow> early_capabilities \<times> topology_facts \<times> operating_radio list" where
  "shown s = (sn_capabilities s, sn_topology s, operating_radios s)"

definition withdrawn :: "bool \<Rightarrow> bool \<Rightarrow> source_facts \<Rightarrow> early_capabilities \<times> topology_facts \<times> operating_radio list" where
  "withdrawn topo tele f =
     (case f of (caps, facts, radios, _, _) \<Rightarrow>
        (caps,
         (if tele then (\<lambda>t. t\<lparr>tf_complete := False, tf_clients := map (\<lambda>b. \<lparr>bc_bssid = bc_bssid b, bc_clients = []\<rparr>) (tf_clients t)\<rparr>)
          else id) (if topo then facts\<lparr>tf_complete := False\<rparr> else facts),
         if tele then [] else radios))"

lemma replace_stamp_eq_Inr:
  "replace_stamp s t v = Inr a \<longleftrightarrow>
   1 \<le> length t \<and> length t \<le> 256 \<and> 0 < v - observed_at (sn_stamp s) \<and> v - observed_at (sn_stamp s) \<le> 2 \<and>
   a = s\<lparr>sn_stamp := \<lparr>token = t, observed_at = observed_at (sn_stamp s), valid_until = v\<rparr>\<rparr>"
  by (auto simp: replace_stamp_def ReportStamp_def bindR_eq_Inr)

definition snapshot_facts :: "report_snapshot \<Rightarrow> source_facts" where
  "snapshot_facts s = (sn_capabilities s, sn_topology s, operating_radios s, telemetry_valid_until s, topology_valid_until s)"

lemma lease_topology_shown:
  assumes "lease_topology now s = Inr a"
  shows "\<exists>topo. token (sn_stamp a) = token (sn_stamp s) @ token_suffix topo False \<and> shown a = withdrawn topo False (snapshot_facts s) \<and>
    telemetry_valid_until a = telemetry_valid_until s"
  using assms by (intro exI [of _ "\<exists>t. topology_valid_until s = Some t \<and> t \<le> now"])
    (auto simp: lease_topology_def bindR_eq_Inr replace_stamp_eq_Inr shown_def withdrawn_def token_suffix_def snapshot_facts_def
      split: option.splits if_splits)

lemma lease_telemetry_shown:
  assumes "lease_telemetry now s = Inr a"
  shows "\<exists>tele. token (sn_stamp a) = token (sn_stamp s) @ token_suffix False tele \<and> shown a = withdrawn False tele (snapshot_facts s)"
  using assms by (intro exI [of _ "\<exists>t. telemetry_valid_until s = Some t \<and> t \<le> now"])
    (auto simp: lease_telemetry_def bindR_eq_Inr replace_stamp_eq_Inr shown_def withdrawn_def token_suffix_def snapshot_facts_def
      split: option.splits if_splits)

lemma current_eq_Some:
  "current src rd = (src', Inr (Some a)) \<longleftrightarrow>
   same_identity src \<and> src' = src \<and> (\<exists>s b. rs_snapshot src = Some s \<and> stamp_check (sn_stamp s) (Some (sn_stamp s)) (rd_stamp rd) = Inr () \<and>
     lease_topology (rd_topology rd) s = Inr b \<and> lease_telemetry (rd_telemetry rd) b = Inr a)"
  by (auto simp: current_def bindR_eq_Inr split: option.splits sum.splits)

lemma current_shown:
  assumes "current src rd = (src', Inr (Some a))"
  shows "\<exists>s topo tele. rs_snapshot src = Some s \<and> token (sn_stamp a) = token (sn_stamp s) @ token_suffix topo tele \<and>
    shown a = withdrawn topo tele (snapshot_facts s)"
proof -
  from assms obtain s b where s: "rs_snapshot src = Some s"
    and b: "lease_topology (rd_topology rd) s = Inr b" and a: "lease_telemetry (rd_telemetry rd) b = Inr a"
    unfolding current_eq_Some by blast
  obtain topo where 1: "token (sn_stamp b) = token (sn_stamp s) @ token_suffix topo False" "shown b = withdrawn topo False (snapshot_facts s)"
    using lease_topology_shown [OF b] by blast
  obtain tele where 2: "token (sn_stamp a) = token (sn_stamp b) @ token_suffix False tele" "shown a = withdrawn False tele (snapshot_facts b)"
    using lease_telemetry_shown [OF a] by blast
  have "shown a = withdrawn topo tele (snapshot_facts s)" using 1(2) 2(2) by (auto simp: shown_def withdrawn_def snapshot_facts_def)
  moreover have "token (sn_stamp a) = token (sn_stamp s) @ token_suffix topo tele" using 1(1) 2(1) by (simp add: token_suffix_def)
  ultimately show ?thesis using s by blast
qed
section \<open>Histories of a source\<close>

text \<open>The attributes of the identity are public: a caller may assign them at any time.\<close>

inductive source_step :: "report_source \<Rightarrow> report_source \<Rightarrow> bool" where
  source_invalidate: "source_step src (invalidate src)"
| source_publish: "publish src p t u rd = (src', r) \<Longrightarrow> source_step src src'"
| source_current: "current src rd = (src', r) \<Longrightarrow> source_step src src'"
| source_assign: "source_step src (src\<lparr>rs_binding := b, rs_pod_id := i, inputs_digest := d\<rparr>)"

definition source_init :: "report_source \<Rightarrow> bool" where
  "source_init src \<longleftrightarrow> (\<exists>binding pod_id digest hex. ReportSource binding pod_id digest hex = Inr src)"

definition source_ok :: "report_source \<Rightarrow> bool" where
  "source_ok src \<longleftrightarrow>
     (case rs_snapshot src of
        None \<Rightarrow> True
      | Some s \<Rightarrow> \<exists>r. rs_revision src = Some r \<and> 0 \<le> fst r \<and> 0 \<le> snd r \<and> last_facts src = Some (snapshot_facts s) \<and>
          token (sn_stamp s) = source_token (instance_hex src) (epoch src) r)"

lemma source_ok_invalidate [simp]: "source_ok (invalidate src)"
  by (simp add: source_ok_def invalidate_def)

lemma current_source: "current src rd = (src', r) \<Longrightarrow> src' = src \<or> src' = invalidate src"
  by (auto simp: current_def split: if_splits option.splits sum.splits)

text \<open>What a publication leaves behind: the old source invalidated, or the new facts under its revision.\<close>

definition published :: "report_source \<Rightarrow> publication \<Rightarrow> report_source \<Rightarrow> bool" where
  "published src p src' \<longleftrightarrow> source_ok src' \<and> instance_hex src' = instance_hex src \<and> epoch src' \<ge> epoch src \<and>
     rs_revision src' = Some (pub_revision p) \<and> last_facts src' = Some (pub_facts p) \<and> check_publication src p = Inr ()"

lemma publish_source:
  assumes "publish src p t u rd = (src', r)"
  shows "src' = invalidate src \<or> src' = invalidate (invalidate src) \<or> published src p src'"
proof (cases "check_publication src p")
  case (Inr x)
  define mid where "mid = (if lapsed src t then invalidate src else src)"
  have mid: "mid = src \<or> mid = invalidate src" by (simp add: mid_def)
  show ?thesis
  proof (cases "bindR (ReportStamp (source_token (instance_hex mid) (epoch mid) (pub_revision p)) (pub_observed_at p)
      (pub_observed_at p + pub_lifetime p)) (\<lambda>s. bindR (stamp_check s (Some s) u) (\<lambda>_. Inr s))")
    case (Inl e)
    then have "src' = invalidate mid" using assms Inr by (simp add: publish_def mid_def [symmetric])
    with mid show ?thesis by auto
  next
    case (Inr stamp)
    define fin where "fin = mid\<lparr>rs_revision := Some (pub_revision p), last_observed := Some (pub_observed_at p),
      last_facts := Some (pub_facts p),
      rs_snapshot := Some \<lparr>sn_stamp = stamp, sn_capabilities = pub_capabilities p, sn_topology = pub_topology p,
        context_token = source_context (instance_hex mid) (epoch mid) (fst (pub_revision p)) (pub_lineage p),
        operating_radios = pub_operating p, telemetry_valid_until = pub_telemetry_until p,
        topology_valid_until = pub_topology_until p, sn_generation = Some (fst (pub_revision p)), held_radios = pub_held p\<rparr>\<rparr>"
    have "current fin rd = (src', r)"
      using assms Inr \<open>check_publication src p = Inr x\<close> by (simp add: publish_def mid_def [symmetric] fin_def)
    then have "src' = fin \<or> src' = invalidate fin" by (rule current_source)
    moreover have "0 \<le> fst (pub_revision p) \<and> 0 \<le> snd (pub_revision p)"
      using \<open>check_publication src p = Inr x\<close> by (auto simp: check_publication_def Let_def split: prod.splits if_splits)
    moreover have "token stamp = source_token (instance_hex mid) (epoch mid) (pub_revision p)"
      using Inr by (auto simp: bindR_eq_Inr ReportStamp_def split: if_splits)
    ultimately show ?thesis using mid \<open>check_publication src p = Inr x\<close>
      by (auto simp: published_def fin_def source_ok_def snapshot_facts_def pub_facts_def invalidate_def)
  qed
qed (use assms in \<open>simp add: publish_def\<close>)

lemma source_ok_step:
  assumes "source_ok src" "source_step src src'"
  shows "source_ok src'"
  using assms(2)
proof cases
  case source_invalidate
  then show ?thesis by simp
next
  case (source_publish p t u rd r)
  from publish_source [OF this] show ?thesis by (auto simp: published_def)
next
  case (source_current rd r)
  then show ?thesis using current_source assms(1) by fastforce
next
  case (source_assign b i d)
  then show ?thesis using assms(1) by (simp add: source_ok_def split: option.splits)
qed

lemma source_ok_init: "source_init src \<Longrightarrow> source_ok src"
  by (auto simp: source_init_def source_ok_def ReportSource_def split: if_splits)

interpretation source: state_invariant source_init source_step source_ok
  by unfold_locales (fact source_ok_init source_ok_step)+

definition succeeds :: "report_source \<Rightarrow> report_source \<Rightarrow> bool" where
  "succeeds src' src \<longleftrightarrow> instance_hex src' = instance_hex src \<and> epoch src \<le> epoch src' \<and>
     (case rs_revision src of
        None \<Rightarrow> True
      | Some r \<Rightarrow> \<exists>r'. rs_revision src' = Some r' \<and> \<not> revision_less r' r \<and> (r' = r \<longrightarrow> last_facts src' = last_facts src))"

lemma succeeds_refl [simp]: "succeeds src src"
  by (simp add: succeeds_def revision_less_def split: option.splits)

lemma succeeds_trans: "succeeds c b \<Longrightarrow> succeeds b a \<Longrightarrow> succeeds c a"
  by (auto simp: succeeds_def revision_less_def prod_eq_iff split: option.splits)

lemma succeeds_invalidate [simp]: "succeeds (invalidate src) src"
  by (simp add: succeeds_def revision_less_def invalidate_def split: option.splits)

lemma succeeds_published: "published src p src' \<Longrightarrow> succeeds src' src"
  by (auto simp: published_def succeeds_def check_publication_def Let_def split: option.splits prod.splits if_splits)

lemma succeeds_step:
  assumes "source_step src src'"
  shows "succeeds src' src"
  using assms
proof cases
  case source_invalidate
  then show ?thesis by simp
next
  case (source_publish p t u rd r)
  then show ?thesis
    using publish_source [of src p t u rd src' r] succeeds_published succeeds_trans [OF succeeds_invalidate succeeds_invalidate] by auto
next
  case (source_current rd r)
  then show ?thesis using current_source by fastforce
next
  case (source_assign b i d)
  then show ?thesis by (simp add: succeeds_def revision_less_def split: option.splits)
qed

lemma succeeds_steps: "source_step\<^sup>*\<^sup>* src src' \<Longrightarrow> succeeds src' src"
  by (induction rule: rtranclp_induct) (auto intro: succeeds_trans succeeds_step)

lemma source_ok_steps: "source_step\<^sup>*\<^sup>* src src' \<Longrightarrow> source_ok src \<Longrightarrow> source_ok src'"
  by (induction rule: rtranclp_induct) (auto intro: source_ok_step)
section \<open>Properties\<close>

text \<open>C17. A stamp correlates: whatever happened to the source since a snapshot was taken (publications, lapses,
  invalidations, other reads), a report made from that snapshot passes the stamp check against a later
  snapshot only if both show the same capabilities, topology and operating radios, and the source was not
  invalidated in between, even when the same revision has been published again.\<close>

theorem stamp_correlates:
  assumes "reachable source_init source_step src"
    and "current src rd = (src1, Inr (Some a))"
    and "source_step\<^sup>*\<^sup>* src1 src2"
    and "current src2 rd2 = (src3, Inr (Some b))"
    and "stamp_check (sn_stamp a) (Some (sn_stamp b)) now = Inr ()"
  shows "shown a = shown b \<and> \<not> (\<exists>mid. source_step\<^sup>*\<^sup>* src1 mid \<and> source_step\<^sup>*\<^sup>* (invalidate mid) src2)"
proof -
  have src1: "src1 = src" using assms(2) unfolding current_eq_Some by simp
  then have ok: "source_ok src" "source_ok src2"
    using source.reachable_inv [OF assms(1)] source_ok_steps [OF assms(3)] by simp_all
  have later: "succeeds src2 src" using succeeds_steps [OF assms(3)] src1 by simp
  obtain s ta ea where s: "rs_snapshot src = Some s" "token (sn_stamp a) = token (sn_stamp s) @ token_suffix ta ea"
    "shown a = withdrawn ta ea (snapshot_facts s)" using current_shown [OF assms(2)] by blast
  obtain t tb eb where t: "rs_snapshot src2 = Some t" "token (sn_stamp b) = token (sn_stamp t) @ token_suffix tb eb"
    "shown b = withdrawn tb eb (snapshot_facts t)" using current_shown [OF assms(4)] by blast
  obtain r where r: "rs_revision src = Some r" "0 \<le> fst r" "0 \<le> snd r" "last_facts src = Some (snapshot_facts s)"
    "token (sn_stamp s) = source_token (instance_hex src) (epoch src) r" using ok(1) s(1) by (auto simp: source_ok_def)
  obtain q where q: "rs_revision src2 = Some q" "0 \<le> fst q" "0 \<le> snd q" "last_facts src2 = Some (snapshot_facts t)"
    "token (sn_stamp t) = source_token (instance_hex src2) (epoch src2) q" using ok(2) t(1) by (auto simp: source_ok_def)
  have hex: "instance_hex src2 = instance_hex src" using later by (simp add: succeeds_def)
  have "token (sn_stamp b) = token (sn_stamp a)"
    using assms(5) by (auto simp: stamp_check_def require_def ensure_def split: if_splits)
  then have "source_token (instance_hex src) (epoch src) r @ token_suffix ta ea = source_token (instance_hex src) (epoch src2) q @ token_suffix tb eb"
    using s(2) t(2) r(5) q(5) hex by simp
  from source_token_inj [OF this r(2,3) q(2,3)]
  have eq: "epoch src = epoch src2" "r = q" "ta = tb" "ea = eb" by simp_all
  then have "snapshot_facts s = snapshot_facts t" using later r(1,4) q(1,4) by (simp add: succeeds_def)
  moreover have "epoch src < epoch src2" if "source_step\<^sup>*\<^sup>* src1 mid" "source_step\<^sup>*\<^sup>* (invalidate mid) src2" for mid
    using succeeds_steps [OF that(1)] succeeds_steps [OF that(2)] src1 by (simp add: succeeds_def invalidate_def)
  ultimately show ?thesis using s(3) t(3) eq by auto
qed

definition example_source :: report_source where
  "example_source = \<lparr>rs_binding = example_binding, rs_pod_id = ''pod'', inputs_digest = replicate 64 CHR ''0'',
     rs_identity = (example_binding, ''pod'', replicate 64 CHR ''0''), instance_hex = ''f00d'', epoch = 0,
     rs_snapshot = None, rs_revision = None, last_facts = None, last_observed = None\<rparr>"

definition example_publication :: publication where
  "example_publication = \<lparr>pub_revision = (1, 4), pub_capabilities = example_capabilities, pub_topology = example_topology,
     pub_observed_at = 0, pub_lifetime = 1, pub_operating = [], pub_telemetry_until = Some (1 / 2), pub_topology_until = None,
     pub_lineage = None, pub_held = {}\<rparr>"

definition at_clock :: "real \<Rightarrow> readings" where
  "at_clock t = \<lparr>rd_stamp = t, rd_topology = t, rd_telemetry = t\<rparr>"

definition example_snapshot :: report_snapshot where
  "example_snapshot = \<lparr>sn_stamp = \<lparr>token = ''f00d/0/1/4'', observed_at = 0, valid_until = 1\<rparr>, sn_capabilities = example_capabilities,
     sn_topology = example_topology, context_token = ''f00d/0/1'', operating_radios = [], telemetry_valid_until = Some (1 / 2),
     topology_valid_until = None, sn_generation = Some 1, held_radios = {}\<rparr>"

definition example_live :: report_source where
  "example_live = example_source\<lparr>rs_snapshot := Some example_snapshot, rs_revision := Some (1, 4),
     last_facts := Some (pub_facts example_publication), last_observed := Some 0\<rparr>"

definition example_shown :: report_snapshot where
  "example_shown = example_snapshot\<lparr>sn_stamp := \<lparr>token = ''f00d/0/1/4'', observed_at = 0, valid_until = 1 / 2\<rparr>\<rparr>"

lemma example_source_init: "source_init example_source"
  unfolding source_init_def
  by (rule exI [of _ example_binding], rule exI [of _ "''pod''"], rule exI [of _ "replicate 64 CHR ''0''"], rule exI [of _ "''f00d''"])
    (simp add: ReportSource_def example_source_def list_all_iff)

lemma example_current: "0 \<le> t \<Longrightarrow> t < 1 / 2 \<Longrightarrow> current example_live (at_clock t) = (example_live, Inr (Some example_shown))"
  by (simp add: current_def example_live_def example_source_def same_identity_def example_snapshot_def stamp_check_def require_def ensure_def
      at_clock_def lease_topology_def lease_telemetry_def replace_stamp_def ReportStamp_def example_shown_def)

lemma example_token: "source_token ''f00d'' 0 (1, 4) = ''f00d/0/1/4''" "source_context ''f00d'' 0 1 None = ''f00d/0/1''"
  by (simp_all add: source_token_def source_context_def int_digits.simps char_of_def bit_0)

lemma example_published: "publish example_source example_publication 0 0 (at_clock 0) = (example_live, Inr (Some example_shown))"
proof -
  have "check_publication example_source example_publication = Inr ()"
    by (simp add: check_publication_def example_publication_def example_source_def same_identity_def example_topology_def
        example_binding_def capacities_def example_capabilities_def dict_of_def revision_less_def)
  then have "publish example_source example_publication 0 0 (at_clock 0) = current example_live (at_clock 0)"
    by (simp add: publish_def lapsed_def example_source_def ReportStamp_def example_publication_def stamp_check_def require_def ensure_def
        example_token example_live_def example_snapshot_def)
  then show ?thesis using example_current by simp
qed

theorem stamp_correlates_witness:
  "\<exists>a b. current example_live (at_clock 0) = (example_live, Inr (Some a)) \<and> current example_live (at_clock (1 / 4)) = (example_live, Inr (Some b)) \<and>
     stamp_check (sn_stamp a) (Some (sn_stamp b)) (1 / 4) = Inr () \<and> shown a = shown b \<and>
     \<not> (\<exists>mid. source_step\<^sup>*\<^sup>* example_live mid \<and> source_step\<^sup>*\<^sup>* (invalidate mid) example_live)"
proof -
  have "reachable source_init source_step example_live"
    using reachable_step [OF reachable_init [of source_init, OF example_source_init]] source_publish [OF example_published] by blast
  moreover have "stamp_check (sn_stamp example_shown) (Some (sn_stamp example_shown)) (1 / 4) = Inr ()"
    by (simp add: stamp_check_def require_def ensure_def example_shown_def)
  ultimately show ?thesis
    using stamp_correlates [of example_live "at_clock 0" example_live example_shown example_live "at_clock (1 / 4)" example_live example_shown "1 / 4"]
      example_current by simp
qed

text \<open>C18. What is no longer known is no longer shown: a snapshot handed out comes from an observation that is still
  within its lease, its stamp never outlives that lease, and a lease on the topology or the telemetry that has
  ended withdraws what depends on it (completeness; clients and operating radios), while one that has not ended
  bounds the validity of the stamp.\<close>

theorem current_leases:
  assumes "current src rd = (src', Inr (Some a))"
  shows "src' = src \<and> (\<exists>s. rs_snapshot src = Some s \<and> observed_at (sn_stamp s) \<le> rd_stamp rd \<and> rd_stamp rd < valid_until (sn_stamp s) \<and>
    observed_at (sn_stamp a) = observed_at (sn_stamp s) \<and> valid_until (sn_stamp a) \<le> valid_until (sn_stamp s) \<and>
    (case topology_valid_until s of None \<Rightarrow> True
     | Some t \<Rightarrow> if rd_topology rd < t then valid_until (sn_stamp a) \<le> t else \<not> tf_complete (sn_topology a)) \<and>
    (case telemetry_valid_until s of None \<Rightarrow> True
     | Some t \<Rightarrow> if rd_telemetry rd < t then valid_until (sn_stamp a) \<le> t
                else \<not> tf_complete (sn_topology a) \<and> operating_radios a = [] \<and>
                     list_all (\<lambda>b. bc_clients b = []) (tf_clients (sn_topology a))))"
proof -
  from assms obtain s b where s: "src' = src" "rs_snapshot src = Some s" "stamp_check (sn_stamp s) (Some (sn_stamp s)) (rd_stamp rd) = Inr ()"
    and b: "lease_topology (rd_topology rd) s = Inr b" and a: "lease_telemetry (rd_telemetry rd) b = Inr a"
    unfolding current_eq_Some by blast
  have live: "observed_at (sn_stamp s) \<le> rd_stamp rd" "rd_stamp rd < valid_until (sn_stamp s)"
    using s(3) by (auto simp: stamp_check_def require_def ensure_def split: if_splits)
  have 1: "observed_at (sn_stamp b) = observed_at (sn_stamp s)" "valid_until (sn_stamp b) \<le> valid_until (sn_stamp s)"
    "telemetry_valid_until b = telemetry_valid_until s"
    "case topology_valid_until s of None \<Rightarrow> True
     | Some t \<Rightarrow> if rd_topology rd < t then valid_until (sn_stamp b) \<le> t else \<not> tf_complete (sn_topology b)"
    using b by (auto simp: lease_topology_def bindR_eq_Inr replace_stamp_eq_Inr split: option.splits if_splits)
  have 2: "observed_at (sn_stamp a) = observed_at (sn_stamp b)" "valid_until (sn_stamp a) \<le> valid_until (sn_stamp b)"
    "tf_complete (sn_topology b) \<or> \<not> tf_complete (sn_topology a)"
    "case telemetry_valid_until b of None \<Rightarrow> True
     | Some t \<Rightarrow> if rd_telemetry rd < t then valid_until (sn_stamp a) \<le> t
                else \<not> tf_complete (sn_topology a) \<and> operating_radios a = [] \<and>
                     list_all (\<lambda>b. bc_clients b = []) (tf_clients (sn_topology a))"
    using a by (auto simp: lease_telemetry_def bindR_eq_Inr replace_stamp_eq_Inr list_all_iff split: option.splits if_splits)
  have "case topology_valid_until s of None \<Rightarrow> True
     | Some t \<Rightarrow> if rd_topology rd < t then valid_until (sn_stamp a) \<le> t else \<not> tf_complete (sn_topology a)"
    using 1(4) 2(2,3) by (auto split: option.splits if_splits)
  with s(1,2) live 1 2 show ?thesis by simp
qed

theorem current_leases_witness:
  "\<exists>a. current example_live (at_clock (3 / 4)) = (example_live, Inr (Some a)) \<and> operating_radios a = [] \<and> \<not> tf_complete (sn_topology a) \<and>
     tf_clients (sn_topology a) = [\<lparr>bc_bssid = [2, 0, 0, 0, 0, 3], bc_clients = []\<rparr>]"
proof -
  obtain a where a: "current example_live (at_clock (3 / 4)) = (example_live, Inr (Some a))"
    "tf_clients (sn_topology a) = [\<lparr>bc_bssid = [2, 0, 0, 0, 0, 3], bc_clients = []\<rparr>]"
    by (simp add: current_def example_live_def example_source_def same_identity_def example_snapshot_def stamp_check_def require_def ensure_def
      at_clock_def lease_topology_def lease_telemetry_def replace_stamp_def ReportStamp_def example_topology_def)
  then show ?thesis using current_leases [OF a(1)]
    by (simp add: example_live_def example_snapshot_def example_source_def at_clock_def)
qed

end
