(* ===== verification/Steering.thy ===== *)
theory Steering
  imports Report_Source
begin

unbundle bit_operations_syntax

text \<open>
  Client steering requests, \<open>emosa/wire/steering.py\<close>: the reader of the Steering Request TLV, the reasons for which a
  request is acknowledged and not carried out, and the coordinator that acknowledges requests and hands the
  executable ones to the pod.  One call of \<open>handle\<close> is a function of the coordinator, of what it reads (clock, source,
  outcomes of the writes, answer of the executor) and of the message; it returns the coordinator, the frames
  sent, the requests handed over and the event or the exception.  The lemmas give the reader exactly, the hand-over
  exactly, and the distance of repeated hand-overs over histories of the coordinator.
\<close>

section \<open>Requests\<close>

definition STEERING_REQUEST :: int where "STEERING_REQUEST = 0x8014"
definition STEERING_COMPLETED :: int where "STEERING_COMPLETED = 0x8017"
definition ACK :: int where "ACK = 0x8000"
definition STEERING_REQUEST_TLV :: int where "STEERING_REQUEST_TLV = 0x9B"
definition ERROR_CODE_TLV :: int where "ERROR_CODE_TLV = 0xA3"
definition STA_NOT_ASSOCIATED :: octet where "STA_NOT_ASSOCIATED = 0x02"
definition WILDCARD :: bytes where "WILDCARD = replicate 6 0xFF"
definition MANDATE :: int where "MANDATE = 0x80"
definition DISASSOC_IMMINENT :: int where "DISASSOC_IMMINENT = 0x40"
definition ABRIDGED :: int where "ABRIDGED = 0x20"

definition steer_unicast :: "bytes \<Rightarrow> bytes result" where
  "steer_unicast v = (if length v \<noteq> 6 \<or> list_all (\<lambda>b. b = 0) v \<or> val (v ! 0) AND 1 \<noteq> 0 then invalid else Inr v)"

record steering_request =
  source_bssid :: bytes
  sr_mandate :: bool
  sr_imminent :: bool
  sr_abridged :: bool
  sr_window :: int
  disassoc_timer :: int
  sr_stations :: "bytes list"
  sr_targets :: "(bytes \<times> int \<times> int) list"

definition decode_steering :: "bytes \<Rightarrow> steering_request result" where
  "decode_steering data =
     (if length data < 12 then invalid
      else let flags = val (data ! 6); count = unat (data ! 11) in
      if length data < 12 + 6 * count + 1 then invalid
      else bindR (mapR (\<lambda>i. steer_unicast (take 6 (drop (12 + 6 * i) data))) [0..<count]) (\<lambda>stations.
        let offset = 12 + 6 * count + 1; n = unat (data ! (12 + 6 * count)) in
        if length data \<noteq> offset + 8 * n then invalid
        else let targets = map (\<lambda>i. (take 6 (drop (offset + 8 * i) data), val (data ! (offset + 8 * i + 6)), val (data ! (offset + 8 * i + 7)))) [0..<n] in
        if card (set stations) \<noteq> length stations then invalid
        else bindR (steer_unicast (take 6 data)) (\<lambda>source.
          Inr \<lparr>source_bssid = source, sr_mandate = flags AND MANDATE \<noteq> 0, sr_imminent = flags AND DISASSOC_IMMINENT \<noteq> 0,
               sr_abridged = flags AND ABRIDGED \<noteq> 0, sr_window = from_be (take 2 (drop 7 data)),
               disassoc_timer = from_be (take 2 (drop 9 data)), sr_stations = stations, sr_targets = targets\<rparr>)))"

definition decode_request :: "tlv list \<Rightarrow> steering_request result" where
  "decode_request tlvs =
     (case filter (\<lambda>t. kind t = STEERING_REQUEST_TLV) tlvs of
        [t] \<Rightarrow> decode_steering (tlv_value t)
      | _ \<Rightarrow> invalid)"

definition refusal :: "steering_request \<Rightarrow> bytes list \<Rightarrow> string option result" where
  "refusal request associated =
     (if \<not> sr_mandate request then Inr (Some ''opportunity'')
      else case sr_stations request of
        [station] \<Rightarrow>
          if station \<notin> set associated then Inr (Some ''station_not_associated'')
          else (case sr_targets request of
            [(bssid, _, channel)] \<Rightarrow>
              if bssid = WILDCARD then Inr (Some ''agent_selected_target'')
              else bindR (steer_unicast bssid) (\<lambda>_.
                if bssid = source_bssid request \<or> channel = 0 then Inr (Some ''invalid_target'') else Inr None)
          | _ \<Rightarrow> Inr (Some ''not_one_target''))
      | _ \<Rightarrow> Inr (Some ''not_one_station''))"

section \<open>Sending\<close>

text \<open>The environment of one delivery: what the \<open>j\<close>-th read of the source gives, the clock after it, and the
  outcome of the \<open>i\<close>-th write.\<close>

record delivery =
  dl_current :: "nat \<Rightarrow> report_snapshot option result"
  dl_time :: "nat \<Rightarrow> real"
  dl_write :: "nat \<Rightarrow> unit result"

text \<open>Fragment the TLVs, prepare the report and send it; \<open>look\<close> is the coordinator's reading of its source.\<close>

definition send_tlvs ::
  "peer_binding \<Rightarrow> (report_snapshot option result \<Rightarrow> report_snapshot result) \<Rightarrow> int \<Rightarrow> int \<Rightarrow> tlv list \<Rightarrow> report_snapshot \<Rightarrow> real \<Rightarrow>
   delivery \<Rightarrow> bytes list \<times> unit result" where
  "send_tlvs binding look message_type mid tlvs snapshot deadline dl =
     (case fragment_message (controller_al binding) (local_al binding) message_type mid tlvs False 1500 of
        Inl e \<Rightarrow> ([], Inl e)
      | Inr frames \<Rightarrow>
          let (sent, r) = send_report
            \<lparr>pr_message_type = message_type, pr_mid = mid, pr_stamp = sn_stamp snapshot,
             pr_deadline = min deadline (valid_until (sn_stamp snapshot)), pr_frames = frames\<rparr>
            \<lparr>env_stamp = \<lambda>j. bindR (look (dl_current dl j)) (\<lambda>s. Inr (Some (sn_stamp s))), env_time = dl_time dl, env_write = dl_write dl\<rparr>
          in (sent, bindR r (\<lambda>_. Inr ())))"

section \<open>The coordinator\<close>

record steering_coordinator =
  st_binding :: peer_binding
  st_mids :: mid_sequence
  st_counts :: "(string \<times> int) list"
  st_recent :: "(int \<times> real) list"
  st_last :: "(int \<times> steering_request \<times> string option) option"
  st_open :: bool

definition SteeringCoordinator :: "peer_binding \<Rightarrow> mid_sequence \<Rightarrow> steering_coordinator" where
  "SteeringCoordinator binding seq =
     \<lparr>st_binding = binding, st_mids = seq, st_counts = [], st_recent = [], st_last = None, st_open = True\<rparr>"

text \<open>What one \<open>handle\<close> reads: the clock, the source, the deliveries of the Ack and of Steering Completed, and what the
  executor answers when it is called.\<close>

record steering_env =
  se_now :: real
  se_source :: "report_snapshot option result"
  se_ack :: delivery
  se_executor :: "steering_request \<Rightarrow> int \<Rightarrow> string option result"
  se_completed_now :: real
  se_completed :: delivery

text \<open>What one \<open>handle\<close> does: the coordinator after it, the frames handed to the socket, the requests handed to the
  executor, and the event returned or the exception raised.\<close>

record handled =
  h_coordinator :: steering_coordinator
  h_frames :: "bytes list"
  h_started :: "(steering_request \<times> int) list"
  h_result :: "string option result"

definition count_event :: "(string \<times> int) list \<Rightarrow> string \<Rightarrow> (string \<times> int) list" where
  "count_event counts event = AList.update event ((case map_of counts event of Some n \<Rightarrow> n | None \<Rightarrow> 0) + 1) counts"

definition steer_record :: "steering_coordinator \<Rightarrow> bytes list \<Rightarrow> (steering_request \<times> int) list \<Rightarrow> string \<Rightarrow> handled" where
  "steer_record c frames begun event =
     \<lparr>h_coordinator = c\<lparr>st_counts := count_event (st_counts c) event\<rparr>, h_frames = frames, h_started = begun, h_result = Inr (Some event)\<rparr>"

definition steer_snapshot :: "report_snapshot option result \<Rightarrow> report_snapshot result" where
  "steer_snapshot current_snapshot = bindR current_snapshot (\<lambda>s. case s of None \<Rightarrow> not_ready | Some s \<Rightarrow> Inr s)"

definition steer_send ::
  "steering_coordinator \<Rightarrow> int \<Rightarrow> int \<Rightarrow> tlv list \<Rightarrow> report_snapshot \<Rightarrow> real \<Rightarrow> delivery \<Rightarrow> bytes list \<times> unit result" where
  "steer_send c = send_tlvs (st_binding c) steer_snapshot"

text \<open>The stations on a BSS, and the Error Code TLVs of those listed that are not on it.\<close>

definition associated_with :: "report_snapshot \<Rightarrow> bytes \<Rightarrow> bytes list" where
  "associated_with s bssid = concat (map (\<lambda>b. map ac_mac (bc_clients b)) (filter (\<lambda>b. bc_bssid b = bssid) (tf_clients (sn_topology s))))"

definition steer_errors :: "steering_request \<Rightarrow> bytes list \<Rightarrow> tlv list" where
  "steer_errors request associated =
     map (\<lambda>s. Tlv ERROR_CODE_TLV (STA_NOT_ASSOCIATED # s)) (filter (\<lambda>s. s \<notin> set associated) (sr_stations request))"

text \<open>The end of \<open>handle\<close>, once the reason is known.\<close>

definition steer_conclude ::
  "steering_coordinator \<Rightarrow> steering_env \<Rightarrow> int \<Rightarrow> steering_request \<Rightarrow> report_snapshot \<Rightarrow> string option \<Rightarrow> bytes list \<Rightarrow>
   (steering_request \<times> int) list \<Rightarrow> handled" where
  "steer_conclude c env mid request snapshot reason ack begun =
     (let c = c\<lparr>st_last := Some (mid, request, reason)\<rparr> in
      case reason of
        None \<Rightarrow> steer_record c ack begun ''client_steering_started''
      | Some r \<Rightarrow>
          if r = ''opportunity'' then
            let (mid', seq) = next_mid (st_mids c); c = c\<lparr>st_mids := seq\<rparr>;
                (frames, res) = steer_send c STEERING_COMPLETED mid' [] snapshot (se_completed_now env + 1) (se_completed env)
            in (case res of
                  Inl e \<Rightarrow> \<lparr>h_coordinator = c, h_frames = ack @ frames, h_started = begun, h_result = Inl e\<rparr>
                | Inr _ \<Rightarrow> steer_record c (ack @ frames) begun ''client_steering_opportunity_completed'')
          else steer_record c ack begun (''client_steering_refused_'' @ r))"

text \<open>From the decoded request on: the Ack, the repetition test, the budget and the hand-over.\<close>

definition steer_answer ::
  "steering_coordinator \<Rightarrow> steering_env \<Rightarrow> int \<Rightarrow> steering_request \<Rightarrow> report_snapshot \<Rightarrow> real \<Rightarrow> handled" where
  "steer_answer c env mid request snapshot received_at =
     (let associated = associated_with snapshot (source_bssid request);
          (ack, sent) = steer_send c ACK mid (steer_errors request associated) snapshot (received_at + 1) (se_ack env) in
      case sent of
        Inl e \<Rightarrow> \<lparr>h_coordinator = c, h_frames = ack, h_started = [], h_result = Inl e\<rparr>
      | Inr _ \<Rightarrow>
          if map_of (st_recent c) mid \<noteq> None then steer_record c ack [] ''client_steering_repeated_ack_sent''
          else if length (st_recent c) \<ge> 64
          then \<lparr>h_coordinator = c, h_frames = ack, h_started = [], h_result = not_ready\<rparr>
          else let c = c\<lparr>st_recent := AList.update mid (se_now env + 5) (st_recent c)\<rparr> in
            (case refusal request associated of
               Inl e \<Rightarrow> \<lparr>h_coordinator = c, h_frames = ack, h_started = [], h_result = Inl e\<rparr>
             | Inr (Some reason) \<Rightarrow> steer_conclude c env mid request snapshot (Some reason) ack []
             | Inr None \<Rightarrow>
                 if \<not> st_open c then steer_conclude c env mid request snapshot (Some ''session_closed'') ack []
                 else (case se_executor env request mid of
                         Inl e \<Rightarrow> \<lparr>h_coordinator = c, h_frames = ack, h_started = [(request, mid)], h_result = Inl e\<rparr>
                       | Inr reason \<Rightarrow> steer_conclude c env mid request snapshot reason ack [(request, mid)])))"

definition steer_bound :: "steering_coordinator \<Rightarrow> message \<Rightarrow> bool" where
  "steer_bound c m \<longleftrightarrow> msg_source m = controller_al (st_binding c) \<and> msg_destination m = local_al (st_binding c) \<and> \<not> msg_relay m"

definition steer_unexpired :: "steering_coordinator \<Rightarrow> real \<Rightarrow> steering_coordinator" where
  "steer_unexpired c now = c\<lparr>st_recent := filter (\<lambda>(m, t). t > now) (st_recent c)\<rparr>"

definition handle :: "steering_coordinator \<Rightarrow> steering_env \<Rightarrow> message \<Rightarrow> real \<Rightarrow> handled" where
  "handle c env m received_at =
     (let stop = (\<lambda>c r. \<lparr>h_coordinator = c, h_frames = [], h_started = [], h_result = r\<rparr>) in
      if msg_type m \<noteq> STEERING_REQUEST then stop c (Inr None)
      else if \<not> steer_bound c m then stop c invalid
      else if se_now env \<ge> received_at + 1 then stop c not_ready
      else let c = steer_unexpired c (se_now env) in
        (case decode_request (msg_tlvs m) of
           Inl e \<Rightarrow> stop c (Inl e)
         | Inr request \<Rightarrow>
             (case steer_snapshot (se_source env) of
                Inl e \<Rightarrow> stop c (Inl e)
              | Inr snapshot \<Rightarrow> steer_answer c env (msg_mid m) request snapshot received_at)))"

definition steer_status :: "steering_coordinator \<Rightarrow> (string \<times> int) list \<times> (int \<times> steering_request \<times> string option) option" where
  "steer_status c = (st_counts c, st_last c)"

definition steer_close :: "steering_coordinator \<Rightarrow> steering_coordinator" where
  "steer_close c = c\<lparr>st_open := False, st_recent := []\<rparr>"
section \<open>Layout of a request\<close>

definition mac_ok :: "bytes \<Rightarrow> bool" where
  "mac_ok v \<longleftrightarrow> length v = 6 \<and> (\<exists>b \<in> set v. b \<noteq> 0) \<and> \<not> bit (v ! 0) 0"

lemma val_flag: "val b AND 2 ^ n = 0 \<longleftrightarrow> \<not> bit b n"
  by (auto simp: and_exp_eq_0_iff_not_bit bit_uint_iff dest: bit_imp_le_length)

lemma steer_unicast_iff: "steer_unicast v = Inr u \<longleftrightarrow> u = v \<and> mac_ok v"
  using val_flag [of "v ! 0" 0] by (auto simp: steer_unicast_def mac_ok_def list_all_iff)

definition put_target :: "bytes \<times> int \<times> int \<Rightarrow> bytes" where
  "put_target = (\<lambda>(bssid, cls, channel). bssid @ [oct cls, oct channel])"

definition put_steering :: "steering_request \<Rightarrow> octet \<Rightarrow> bytes" where
  "put_steering r flags =
     source_bssid r @ [flags] @ u16 (sr_window r) @ u16 (disassoc_timer r) @ [of_nat (length (sr_stations r))] @ concat (sr_stations r) @
     [of_nat (length (sr_targets r))] @ concat (map put_target (sr_targets r))"

definition request_ok :: "steering_request \<Rightarrow> bool" where
  "request_ok r \<longleftrightarrow> mac_ok (source_bssid r) \<and> list_all mac_ok (sr_stations r) \<and> distinct (sr_stations r) \<and>
     length (sr_stations r) < 256 \<and> length (sr_targets r) < 256 \<and>
     0 \<le> sr_window r \<and> sr_window r < 65536 \<and> 0 \<le> disassoc_timer r \<and> disassoc_timer r < 65536 \<and>
     list_all (\<lambda>(b, c, n). length b = 6 \<and> 0 \<le> c \<and> c < 256 \<and> 0 \<le> n \<and> n < 256) (sr_targets r)"

lemma take_slices:
  assumes "w * n \<le> length xs"
  shows "concat (map (\<lambda>i. take w (drop (w * i) xs)) [0..<n]) = take (w * n) xs"
  using assms by (induction n) (simp_all add: take_add [symmetric] add.commute)

lemma slices_concat:
  assumes "list_all (\<lambda>x. length x = w) xs"
  shows "map (\<lambda>i. take w (drop (w * i) (concat xs @ rest))) [0..<length xs] = xs"
  using assms
proof (induction xs)
  case (Cons x xs)
  have "map (\<lambda>i. take w (drop (w * i) (x @ ys))) [0..<Suc n] = x # map (\<lambda>i. take w (drop (w * i) ys)) [0..<n]"
    if "length x = w" for n ys
    using that by (simp only: map_upt_Suc) simp
  from this [of "concat xs @ rest" "length xs"] Cons show ?case by (simp del: take_append drop_append upt_Suc)
qed simp

lemma past: "length h = n \<Longrightarrow> drop (n + k) (h @ r) = drop k r" "length h = n \<Longrightarrow> (h @ r) ! (n + k) = r ! k"
  by (auto simp: nth_append)
lemma put_target_inv:
  assumes "length x = 8"
  shows "put_target (take 6 x, val (x ! 6), val (x ! 7)) = x"
proof -
  have "x = take 6 x @ [x ! 6, x ! 7]"
    using assms by (intro nth_equalityI) (auto simp: nth_append nth_Cons' less_Suc_eq numeral_eq_Suc)
  then show ?thesis by (simp add: put_target_def)
qed

lemma steer_unicast_eq: "steer_unicast v = (if mac_ok v then Inr v else invalid)"
  using steer_unicast_iff [of v v] by (auto simp: steer_unicast_def)

lemma mapR_unicast: "mapR (\<lambda>i. steer_unicast (f i)) is = (if list_all mac_ok (map f is) then Inr (map f is) else invalid)"
  by (induction "is") (simp_all add: steer_unicast_eq)

text \<open>A request cut at its counts.\<close>

definition request_of :: "bytes \<Rightarrow> octet \<Rightarrow> bytes \<Rightarrow> bytes \<Rightarrow> bytes list \<Rightarrow> bytes list \<Rightarrow> steering_request" where
  "request_of a f w t stations targets =
     \<lparr>source_bssid = a, sr_mandate = bit f 7, sr_imminent = bit f 6, sr_abridged = bit f 5, sr_window = from_be w, disassoc_timer = from_be t,
      sr_stations = stations, sr_targets = map (\<lambda>x. (take 6 x, val (x ! 6), val (x ! 7))) targets\<rparr>"

lemma steering_flags: "val f AND MANDATE \<noteq> 0 \<longleftrightarrow> bit f 7" "val f AND DISASSOC_IMMINENT \<noteq> 0 \<longleftrightarrow> bit f 6" "val f AND ABRIDGED \<noteq> 0 \<longleftrightarrow> bit f 5"
  using val_flag [of f 7] val_flag [of f 6] val_flag [of f 5] by (simp_all add: MANDATE_def DISASSOC_IMMINENT_def ABRIDGED_def)

lemma card_set_iff: "card (set xs) \<noteq> length xs \<longleftrightarrow> \<not> distinct xs"
  by (metis card_distinct distinct_card)

lemma decode_steering_cut:
  assumes "length a = 6" "length w = 2" "length t = 2" "length st = 6 * unat cnt" "length ts = 8 * unat m"
  shows "decode_steering ((a @ [f] @ w @ t @ [cnt]) @ st @ [m] @ ts) =
    (let stations = map (\<lambda>i. take 6 (drop (6 * i) st)) [0..<unat cnt] in
     if list_all mac_ok stations \<and> distinct stations \<and> mac_ok a
     then Inr (request_of a f w t stations (map (\<lambda>i. take 8 (drop (8 * i) ts)) [0..<unat m])) else invalid)"
proof -
  define h where "h = a @ [f] @ w @ t @ [cnt]"
  let ?d = "h @ st @ [m] @ ts"
  have h: "length h = 12" using assms by (simp add: h_def)
  have st: "map (\<lambda>i. take 6 (drop (12 + 6 * i) ?d)) [0..<unat cnt] = map (\<lambda>i. take 6 (drop (6 * i) st)) [0..<unat cnt]"
    unfolding past(1) [OF h] using assms by (intro map_cong) simp_all
  have ts: "map (\<lambda>i. (take 6 (drop (12 + 6 * unat cnt + 1 + 8 * i) ?d), val (?d ! (12 + 6 * unat cnt + 1 + 8 * i + 6)),
        val (?d ! (12 + 6 * unat cnt + 1 + 8 * i + 7)))) [0..<unat m] =
      map (\<lambda>x. (take 6 x, val (x ! 6), val (x ! 7))) (map (\<lambda>i. take 8 (drop (8 * i) ts)) [0..<unat m])"
    unfolding map_map o_def
  proof (intro map_cong refl)
    fix i assume "i \<in> set [0..<unat m]"
    then have i: "8 * i + 8 \<le> length ts" using assms(5) by simp
    have sh: "drop (12 + 6 * unat cnt + 1 + k) ?d = drop k ts" "?d ! (12 + 6 * unat cnt + 1 + k) = ts ! k" for k
      using past [of "h @ st @ [m]" "12 + 6 * unat cnt + 1"] h assms(4) by simp_all
    show "(take 6 (drop (12 + 6 * unat cnt + 1 + 8 * i) ?d), val (?d ! (12 + 6 * unat cnt + 1 + 8 * i + 6)), val (?d ! (12 + 6 * unat cnt + 1 + 8 * i + 7))) =
      (take 6 (take 8 (drop (8 * i) ts)), val (take 8 (drop (8 * i) ts) ! 6), val (take 8 (drop (8 * i) ts) ! 7))"
      using sh(1) [of "8 * i"] sh(2) [of "8 * i + 6"] sh(2) [of "8 * i + 7"] i by (simp add: add.assoc)
  qed
  have at: "?d ! 6 = f" "?d ! 11 = cnt" "?d ! (12 + 6 * unat cnt) = m" "take 6 ?d = a" "take 2 (drop 7 ?d) = w" "take 2 (drop 9 ?d) = t"
    "length ?d = 12 + 6 * unat cnt + 1 + 8 * unat m"
    using assms by (simp_all add: h_def nth_append)
  show ?thesis
    unfolding h_def [symmetric] decode_steering_def Let_def at mapR_unicast st ts steering_flags request_of_def
    unfolding steer_unicast_eq
    unfolding card_set_iff by simp
qed

lemma decode_steering_shape:
  assumes "decode_steering data = Inr r"
  shows "\<exists>a f w t cnt st m ts. data = (a @ [f] @ w @ t @ [cnt]) @ st @ [m] @ ts \<and> length a = 6 \<and> length w = 2 \<and> length t = 2 \<and>
    length st = 6 * unat cnt \<and> length ts = 8 * unat m"
proof -
  let ?c = "unat (data ! 11)" and ?m = "unat (data ! (12 + 6 * unat (data ! 11)))"
  have len: "length data = 12 + 6 * ?c + 1 + 8 * ?m"
    using assms by (auto simp: decode_steering_def Let_def bindR_eq_Inr split: if_splits)
  have "data = (take 6 data @ [data ! 6] @ take 2 (drop 7 data) @ take 2 (drop 9 data) @ [data ! 11]) @ take (6 * ?c) (drop 12 data) @
      [data ! (12 + 6 * ?c)] @ drop (13 + 6 * ?c) data" (is "data = (?a @ [?f] @ ?w @ ?t @ [?n]) @ ?st @ [?k] @ ?ts")
  proof -
    have "data = take 6 data @ drop 6 data" "drop 6 data = data ! 6 # drop 7 data" "drop 7 data = ?w @ drop 9 data"
      "drop 9 data = ?t @ drop 11 data" "drop 11 data = data ! 11 # drop 12 data" "drop 12 data = ?st @ drop (12 + 6 * ?c) data"
      "drop (12 + 6 * ?c) data = data ! (12 + 6 * ?c) # drop (13 + 6 * ?c) data"
      using len Cons_nth_drop_Suc [of 6 data] Cons_nth_drop_Suc [of 11 data] Cons_nth_drop_Suc [of "12 + 6 * ?c" data]
        append_take_drop_id [of 2 "drop 7 data"] append_take_drop_id [of 2 "drop 9 data"] append_take_drop_id [of "6 * ?c" "drop 12 data"]
      by (simp_all add: add.commute)
    then show ?thesis by (metis append.assoc append_Cons append_Nil)
  qed
  moreover have "length (take 6 data) = 6" "length ?w = 2" "length ?t = 2" "length ?st = 6 * ?c" "length ?ts = 8 * ?m" using len by simp_all
  ultimately show ?thesis by blast
qed
lemma put_request_of:
  assumes "length a = 6" "length w = 2" "length t = 2" "length st = 6 * unat cnt" "length ts = 8 * unat m"
  shows "put_steering (request_of a f w t (map (\<lambda>i. take 6 (drop (6 * i) st)) [0..<unat cnt]) (map (\<lambda>i. take 8 (drop (8 * i) ts)) [0..<unat m])) f =
    (a @ [f] @ w @ t @ [cnt]) @ st @ [m] @ ts"
proof -
  define sl where "sl = map (\<lambda>i. take 8 (drop (8 * i) ts)) [0..<unat m]"
  have "length x = 8" if "x \<in> set sl" for x using that assms(5) by (auto simp: sl_def)
  then have "map put_target (map (\<lambda>x. (take 6 x, val (x ! 6), val (x ! 7))) sl) = sl"
    by (auto intro!: map_idI simp: put_target_inv)
  moreover have "concat sl = ts" "length sl = unat m" using assms(5) take_slices [of 8 "unat m" ts] by (simp_all add: sl_def)
  moreover have "u16 (from_be w) = w" "u16 (from_be t) = t" using assms(2,3) by (simp_all add: to_be_from_be)
  ultimately show ?thesis using assms(1,4) take_slices [of 6 "unat cnt" st] unfolding sl_def [symmetric]
    by (simp add: put_steering_def request_of_def)
qed

lemma unat_octet: "unat (b :: octet) < 256"
  using unsigned_less [of b] by simp

lemma request_of_ok:
  fixes cnt m :: octet
  assumes "length a = 6" "length w = 2" "length t = 2" "length st = 6 * unat cnt" "length ts = 8 * unat m"
    and "list_all mac_ok stations" "distinct stations" "mac_ok a" "length stations = unat cnt"
  shows "request_ok (request_of a f w t stations (map (\<lambda>i. take 8 (drop (8 * i) ts)) [0..<unat m]))"
proof -
  have "unat cnt < 256" "unat m < 256" using unat_octet by blast+
  moreover have "0 \<le> from_be w \<and> from_be w < 65536" "0 \<le> from_be t \<and> from_be t < 65536"
    using from_be_less [of w] from_be_less [of t] assms(2,3) by simp_all
  ultimately show ?thesis using assms by (auto simp: request_ok_def request_of_def list_all_iff)
qed

lemma request_of_put:
  assumes "request_ok r"
  shows "put_steering r flags = (source_bssid r @ [flags] @ u16 (sr_window r) @ u16 (disassoc_timer r) @ [of_nat (length (sr_stations r))]) @
      concat (sr_stations r) @ [of_nat (length (sr_targets r))] @ concat (map put_target (sr_targets r))"
    "length (concat (sr_stations r)) = 6 * length (sr_stations r)" "length (concat (map put_target (sr_targets r))) = 8 * length (sr_targets r)"
    "unat (of_nat (length (sr_stations r)) :: octet) = length (sr_stations r)" "unat (of_nat (length (sr_targets r)) :: octet) = length (sr_targets r)"
    "map (\<lambda>i. take 6 (drop (6 * i) (concat (sr_stations r)))) [0..<length (sr_stations r)] = sr_stations r"
    "map (\<lambda>i. take 8 (drop (8 * i) (concat (map put_target (sr_targets r))))) [0..<length (sr_targets r)] = map put_target (sr_targets r)"
proof -
  have w: "list_all (\<lambda>x. length x = 6) (sr_stations r)" "list_all (\<lambda>x. length x = 8) (map put_target (sr_targets r))"
    using assms by (auto simp: request_ok_def list_all_iff mac_ok_def put_target_def)
  have len: "list_all (\<lambda>x. length x = k) xs \<Longrightarrow> length (concat xs) = k * length xs" for k and xs :: "bytes list"
    by (induction xs) simp_all
  show "length (concat (sr_stations r)) = 6 * length (sr_stations r)" "length (concat (map put_target (sr_targets r))) = 8 * length (sr_targets r)"
    using len [OF w(1)] len [OF w(2)] by simp_all
  show "unat (of_nat (length (sr_stations r)) :: octet) = length (sr_stations r)" "unat (of_nat (length (sr_targets r)) :: octet) = length (sr_targets r)"
    using assms by (simp_all add: request_ok_def unat_of_nat)
  show "map (\<lambda>i. take 6 (drop (6 * i) (concat (sr_stations r)))) [0..<length (sr_stations r)] = sr_stations r"
    using slices_concat [OF w(1), of "[]"] by simp
  show "map (\<lambda>i. take 8 (drop (8 * i) (concat (map put_target (sr_targets r))))) [0..<length (sr_targets r)] = map put_target (sr_targets r)"
    using slices_concat [OF w(2), of "[]"] by simp
qed (simp add: put_steering_def)

lemma decode_steering_put:
  assumes "request_ok r" "sr_mandate r = bit flags 7" "sr_imminent r = bit flags 6" "sr_abridged r = bit flags 5"
  shows "decode_steering (put_steering r flags) = Inr r"
proof -
  have ok: "length (source_bssid r) = 6" "list_all mac_ok (sr_stations r)" "distinct (sr_stations r)" "mac_ok (source_bssid r)"
    "from_be (u16 (sr_window r)) = sr_window r" "from_be (u16 (disassoc_timer r)) = disassoc_timer r"
    using assms(1) by (simp_all add: request_ok_def mac_ok_def from_be_to_be)
  have "map (\<lambda>x. (take 6 x, val (x ! 6), val (x ! 7))) (map put_target (sr_targets r)) = sr_targets r"
    unfolding map_map using assms(1) by (intro map_idI) (auto simp: request_ok_def list_all_iff put_target_def nth_append)
  then have "request_of (source_bssid r) flags (u16 (sr_window r)) (u16 (disassoc_timer r)) (sr_stations r) (map put_target (sr_targets r)) = r"
    using assms(2-4) ok(5,6) by (simp add: request_of_def)
  with decode_steering_cut [of "source_bssid r" "u16 (sr_window r)" "u16 (disassoc_timer r)" "concat (sr_stations r)"
      "of_nat (length (sr_stations r))" "concat (map put_target (sr_targets r))" "of_nat (length (sr_targets r))" flags]
  show ?thesis using ok by (simp add: request_of_put [OF assms(1)] Let_def)
qed

text \<open>C21. The reader of a Client Steering Request is exact: it returns a request if and only if the message has one
  Steering Request TLV, the request is well formed (a unicast source, distinct unicast stations, six-octet
  targets, counts and times in their width), and the TLV is its layout, octet for octet, with the three flags
  in their bits; everything else is refused.\<close>

theorem steering_request_exact:
  "decode_request tlvs = Inr r \<longleftrightarrow>
   request_ok r \<and> (\<exists>t flags. filter (\<lambda>t. kind t = 0x9B) tlvs = [t] \<and> tlv_value t = put_steering r flags \<and>
     sr_mandate r = bit flags 7 \<and> sr_imminent r = bit flags 6 \<and> sr_abridged r = bit flags 5)"
proof
  assume "decode_request tlvs = Inr r"
  then obtain t where t: "filter (\<lambda>t. kind t = 0x9B) tlvs = [t]" "decode_steering (tlv_value t) = Inr r"
    by (auto simp: decode_request_def STEERING_REQUEST_TLV_def split: list.splits)
  from decode_steering_shape [OF t(2)] obtain a f w u cnt st m ts where
    d: "tlv_value t = (a @ [f] @ w @ u @ [cnt]) @ st @ [m] @ ts" and
    len: "length a = 6" "length w = 2" "length u = 2" "length st = 6 * unat cnt" "length ts = 8 * unat m" by blast
  define stations where "stations = map (\<lambda>i. take 6 (drop (6 * i) st)) [0..<unat cnt]"
  have r: "list_all mac_ok stations" "distinct stations" "mac_ok a"
    "r = request_of a f w u stations (map (\<lambda>i. take 8 (drop (8 * i) ts)) [0..<unat m])"
    using t(2) unfolding d decode_steering_cut [OF len] stations_def [symmetric] by (auto simp: Let_def split: if_splits)
  have "request_ok r" using request_of_ok [OF len r(1-3)] unfolding r(4) by (simp add: stations_def)
  moreover have "tlv_value t = put_steering r f" unfolding d r(4) stations_def put_request_of [OF len] ..
  moreover have "sr_mandate r = bit f 7" "sr_imminent r = bit f 6" "sr_abridged r = bit f 5" unfolding r(4) by (simp_all add: request_of_def)
  ultimately show "request_ok r \<and> (\<exists>t flags. filter (\<lambda>t. kind t = 0x9B) tlvs = [t] \<and> tlv_value t = put_steering r flags \<and>
     sr_mandate r = bit flags 7 \<and> sr_imminent r = bit flags 6 \<and> sr_abridged r = bit flags 5)" using t(1) by blast
next
  assume "request_ok r \<and> (\<exists>t flags. filter (\<lambda>t. kind t = 0x9B) tlvs = [t] \<and> tlv_value t = put_steering r flags \<and>
     sr_mandate r = bit flags 7 \<and> sr_imminent r = bit flags 6 \<and> sr_abridged r = bit flags 5)"
  then show "decode_request tlvs = Inr r" using decode_steering_put by (auto simp: decode_request_def STEERING_REQUEST_TLV_def)
qed
section \<open>Hand-over\<close>

text \<open>What EMOSA carries out: a mandate for one associated station and one named target.\<close>

definition steerable :: "steering_request \<Rightarrow> bytes list \<Rightarrow> bool" where
  "steerable r associated \<longleftrightarrow> sr_mandate r \<and>
     (\<exists>station bssid cls channel. sr_stations r = [station] \<and> station \<in> set associated \<and> sr_targets r = [(bssid, cls, channel)] \<and>
        bssid \<noteq> WILDCARD \<and> mac_ok bssid \<and> bssid \<noteq> source_bssid r \<and> channel \<noteq> 0)"

lemma refusal_None: "refusal r associated = Inr None \<longleftrightarrow> steerable r associated"
  by (auto simp: refusal_def steerable_def steer_unicast_eq bindR_eq_Inr split: list.splits)

lemma h_started_record [simp]: "h_started (steer_record c frames begun e) = begun"
  by (simp add: steer_record_def)

lemma h_started_conclude [simp]: "h_started (steer_conclude c env mid r s reason ack begun) = begun"
  by (simp add: steer_conclude_def Let_def split: option.splits prod.splits sum.splits)

lemma recent_record [simp]: "st_recent (h_coordinator (steer_record c frames begun e)) = st_recent c"
  "st_open (h_coordinator (steer_record c frames begun e)) = st_open c" "st_binding (h_coordinator (steer_record c frames begun e)) = st_binding c"
  by (simp_all add: steer_record_def)

lemma recent_conclude [simp]: "st_recent (h_coordinator (steer_conclude c env mid r s reason ack begun)) = st_recent c"
  "st_open (h_coordinator (steer_conclude c env mid r s reason ack begun)) = st_open c"
  "st_binding (h_coordinator (steer_conclude c env mid r s reason ack begun)) = st_binding c"
  by (simp_all add: steer_conclude_def Let_def split: option.splits prod.splits sum.splits)

definition ack_sent :: "steering_coordinator \<Rightarrow> steering_env \<Rightarrow> int \<Rightarrow> steering_request \<Rightarrow> report_snapshot \<Rightarrow> real \<Rightarrow> bool" where
  "ack_sent c env mid r s received_at \<longleftrightarrow>
     snd (steer_send c ACK mid (steer_errors r (associated_with s (source_bssid r))) s (received_at + 1) (se_ack env)) = Inr ()"

lemma unexpired_sel [simp]: "st_recent (steer_unexpired c now) = filter (\<lambda>(m, t). t > now) (st_recent c)"
  "st_open (steer_unexpired c now) = st_open c" "st_binding (steer_unexpired c now) = st_binding c"
  "ack_sent (steer_unexpired c now) = ack_sent c"
  by (simp_all add: steer_unexpired_def ack_sent_def steer_send_def fun_eq_iff)

lemma answer_started:
  "h_started (steer_answer c env mid r s received_at) =
   (if ack_sent c env mid r s received_at \<and> map_of (st_recent c) mid = None \<and> length (st_recent c) < 64 \<and> st_open c \<and>
       steerable r (associated_with s (source_bssid r))
    then [(r, mid)] else [])"
proof (cases "steer_send c ACK mid (steer_errors r (associated_with s (source_bssid r))) s (received_at + 1) (se_ack env)")
  case (Pair ack sent)
  show ?thesis
  proof (cases sent)
    case Inl
    with Pair show ?thesis by (simp add: steer_answer_def ack_sent_def)
  next
    case (Inr u)
    with Pair have "ack_sent c env mid r s received_at" by (simp add: ack_sent_def)
    then show ?thesis using Pair Inr refusal_None [of r "associated_with s (source_bssid r)"]
      by (auto simp: steer_answer_def Let_def split: sum.splits option.splits)
  qed
qed

lemma handed_over_bound:
  "h_started (handle c env m received_at) = [(r, mid)] \<longleftrightarrow>
   st_open c \<and> msg_type m = 0x8014 \<and> msg_mid m = mid \<and>
   steer_bound c m \<and> se_now env < received_at + 1 \<and> decode_request (msg_tlvs m) = Inr r \<and>
   (\<exists>s. se_source env = Inr (Some s) \<and> ack_sent c env mid r s received_at \<and> steerable r (associated_with s (source_bssid r))) \<and>
   mid \<notin> fst ` set (filter (\<lambda>(i, t). se_now env < t) (st_recent c)) \<and>
   length (filter (\<lambda>(i, t). se_now env < t) (st_recent c)) < 64"
proof (cases "msg_type m = 0x8014 \<and> steer_bound c m \<and> se_now env < received_at + 1")
  case True
  show ?thesis
  proof (cases "decode_request (msg_tlvs m)")
    case Inl
    with True show ?thesis by (simp add: handle_def STEERING_REQUEST_def)
  next
    case (Inr q)
    show ?thesis
    proof (cases "steer_snapshot (se_source env)")
      case Inl
      with True Inr show ?thesis by (auto simp: handle_def STEERING_REQUEST_def steer_snapshot_def)
    next
      case (Inr s)
      have s: "se_source env = Inr (Some s') \<longleftrightarrow> s' = s" for s'
        using Inr by (auto simp: steer_snapshot_def bindR_eq_Inr split: option.splits)
      have "handle c env m received_at = steer_answer (steer_unexpired c (se_now env)) env (msg_mid m) q s received_at"
        using True \<open>decode_request (msg_tlvs m) = Inr q\<close> Inr by (simp add: handle_def STEERING_REQUEST_def)
      then show ?thesis using True \<open>decode_request (msg_tlvs m) = Inr q\<close>
        by (auto simp: answer_started s map_of_eq_None_iff)
    qed
  qed
qed (auto simp: handle_def STEERING_REQUEST_def Let_def)
section \<open>Repeated requests\<close>

text \<open>A history of the coordinator: requests handled, each with what it read and when it was received, and the close.\<close>

datatype steering_event = Handled steering_env message real | Closed

fun event_times :: "steering_event list \<Rightarrow> real list" where
  "event_times [] = []"
| "event_times (Handled env m received_at # events) = se_now env # event_times events"
| "event_times (Closed # events) = event_times events"

text \<open>The times and message IDs of what is handed to the executor.\<close>

fun handovers :: "steering_coordinator \<Rightarrow> steering_event list \<Rightarrow> (real \<times> int) list" where
  "handovers c [] = []"
| "handovers c (Handled env m received_at # events) =
     (let h = handle c env m received_at
      in map (\<lambda>(_, mid). (se_now env, mid)) (h_started h) @ handovers (h_coordinator h) events)"
| "handovers c (Closed # events) = handovers (steer_close c) events"

definition remembers :: "steering_coordinator \<Rightarrow> int \<Rightarrow> real \<Rightarrow> bool" where
  "remembers c mid t \<longleftrightarrow> \<not> st_open c \<or> map_of (st_recent c) mid = Some t"

lemma handle_open [simp]: "st_open (h_coordinator (handle c env m received_at)) = st_open c"
  by (simp add: handle_def steer_answer_def Let_def steer_unexpired_def split: sum.splits prod.splits option.splits)

lemma answer_recent:
  "st_recent (h_coordinator (steer_answer c env mid r s received_at)) = st_recent c \<and> h_started (steer_answer c env mid r s received_at) = [] \<or>
   map_of (st_recent c) mid = None \<and>
   st_recent (h_coordinator (steer_answer c env mid r s received_at)) = AList.update mid (se_now env + 5) (st_recent c)"
  by (auto simp: steer_answer_def Let_def split: sum.splits prod.splits option.splits)

lemma map_of_filter_kept: "map_of xs k = Some v \<Longrightarrow> P (k, v) \<Longrightarrow> map_of (filter P xs) k = Some v"
  by (induction xs) (auto split: if_splits)

lemma handle_recent:
  "h_started (handle c env m received_at) = [] \<and> (st_recent (h_coordinator (handle c env m received_at)) = st_recent c \<or>
      st_recent (h_coordinator (handle c env m received_at)) = filter (\<lambda>(i, t). t > se_now env) (st_recent c)) \<or>
    map_of (filter (\<lambda>(i, t). t > se_now env) (st_recent c)) (msg_mid m) = None \<and>
      st_recent (h_coordinator (handle c env m received_at)) =
        AList.update (msg_mid m) (se_now env + 5) (filter (\<lambda>(i, t). t > se_now env) (st_recent c))"
  using answer_recent [of "steer_unexpired c (se_now env)" env "msg_mid m"]
  by (auto simp: handle_def Let_def split: sum.splits)

lemma handle_started:
  assumes "(r, i) \<in> set (h_started (handle c env m received_at))"
  shows "i = msg_mid m \<and> st_open c \<and> map_of (filter (\<lambda>(i, t). t > se_now env) (st_recent c)) i = None \<and>
    h_started (handle c env m received_at) = [(r, i)]"
  using assms by (auto simp: handle_def Let_def answer_started split: sum.splits if_splits)

lemma handle_remembers:
  assumes "remembers c mid t" "se_now env < t"
  shows "remembers (h_coordinator (handle c env m received_at)) mid t"
proof (cases "st_open c")
  case True
  with assms have "map_of (st_recent c) mid = Some t" by (simp add: remembers_def)
  then have kept: "map_of (filter (\<lambda>(i, t). t > se_now env) (st_recent c)) mid = Some t"
    using assms(2) by (intro map_of_filter_kept) simp_all
  from handle_recent [of c env m received_at] have "map_of (st_recent (h_coordinator (handle c env m received_at))) mid = Some t"
    using kept \<open>map_of (st_recent c) mid = Some t\<close> by (auto simp: update_conv' split: if_splits)
  then show ?thesis by (simp add: remembers_def)
qed (simp add: remembers_def)

lemma handle_not_again:
  assumes "remembers c mid t" "se_now env < t" "(r, i) \<in> set (h_started (handle c env m received_at))"
  shows "i \<noteq> mid"
proof
  assume mid: "i = mid"
  note s = handle_started [OF assms(3), THEN conjunct2]
  have "map_of (st_recent c) i = Some t" using s assms(1) by (simp add: remembers_def mid)
  moreover have "map_of (filter (\<lambda>(i, t). t > se_now env) (st_recent c)) i = None" by (rule s [THEN conjunct2, THEN conjunct1])
  moreover from calculation(1) have "map_of (filter (\<lambda>(i, t). t > se_now env) (st_recent c)) i = Some t"
    using assms(2) by (intro map_of_filter_kept) simp_all
  ultimately show False by simp
qed

text \<open>C19. What is handed to the pod, exactly: a request reaches the executor if and only if the session is open, the
  message is a request from the bound controller to this agent, younger than a second, well formed, its Ack
  was delivered in time against an available snapshot, it is not a repetition of a request of the last five
  seconds, the budget of 64 is not exhausted, and it is a mandate for one station associated with the source
  BSS and one named unicast target on another BSS with a channel; it is then handed over once, as decoded.\<close>

theorem steering_handover:
  "h_started (handle c env m received_at) = [(r, mid)] \<longleftrightarrow>
   st_open c \<and> msg_type m = 0x8014 \<and> msg_mid m = mid \<and>
   (msg_source m = controller_al (st_binding c) \<and> msg_destination m = local_al (st_binding c) \<and> \<not> msg_relay m) \<and>
   se_now env < received_at + 1 \<and> decode_request (msg_tlvs m) = Inr r \<and>
   (\<exists>s. se_source env = Inr (Some s) \<and> ack_sent c env mid r s received_at \<and> steerable r (associated_with s (source_bssid r))) \<and>
   mid \<notin> fst ` set (filter (\<lambda>(i, t). se_now env < t) (st_recent c)) \<and>
   length (filter (\<lambda>(i, t). se_now env < t) (st_recent c)) < 64"
  unfolding steer_bound_def [symmetric] by (rule handed_over_bound)

lemma handovers_times: "(u, i) \<in> set (handovers c events) \<Longrightarrow> u \<in> set (event_times events)"
  by (induction c events rule: handovers.induct) (auto simp: Let_def)

lemma handovers_remembered:
  assumes "remembers c mid t" "sorted (event_times events)" "(u, mid) \<in> set (handovers c events)"
  shows "t \<le> u"
  using assms
proof (induction c events rule: handovers.induct)
  case (2 c env m received_at events)
  let ?h = "handle c env m received_at"
  from 2(4) consider r where "(r, mid) \<in> set (h_started ?h)" "u = se_now env" | "(u, mid) \<in> set (handovers (h_coordinator ?h) events)"
    by (auto simp: Let_def)
  then show ?case
  proof cases
    case 1
    then show ?thesis using handle_not_again [OF 2(2), of env r mid] by force
  next
    case 2
    have "se_now env \<le> u" using handovers_times [OF 2] "2.prems"(2) by simp
    moreover have "t \<le> u" if "se_now env < t"
      using "2.IH" [OF refl handle_remembers [OF "2.prems"(1) that]] 2 "2.prems"(2) by simp
    ultimately show ?thesis by force
  qed
next
  case (3 c events)
  then show ?case by (simp add: remembers_def steer_close_def)
qed simp

lemma handle_remembered:
  assumes "(r, i) \<in> set (h_started (handle c env m received_at))"
  shows "remembers (h_coordinator (handle c env m received_at)) i (se_now env + 5)"
  using handle_started [OF assms] handle_recent [of c env m received_at] by (auto simp: remembers_def update_conv')

text \<open>C20. A re-delivered request is carried out once: in any history of the coordinator whose clock does not run
  backwards, requests handed to the executor under the same message ID lie at least five seconds apart,
  whatever is received, refused or closed in between.\<close>

theorem steering_once:
  assumes "sorted (event_times events)"
  shows "sorted_wrt (\<lambda>(t, i) (u, j). i = j \<longrightarrow> t + 5 \<le> u) (handovers c events)"
  using assms
proof (induction c events rule: handovers.induct)
  case (2 c env m received_at events)
  let ?h = "handle c env m received_at"
  have IH: "sorted_wrt (\<lambda>(t, i) (u, j). i = j \<longrightarrow> t + 5 \<le> u) (handovers (h_coordinator ?h) events)" using 2 by simp
  have "se_now env + 5 \<le> u" if "(r, i) \<in> set (h_started ?h)" "(u, i) \<in> set (handovers (h_coordinator ?h) events)" for r i u
    using handovers_remembered [OF handle_remembered [OF that(1)] _ that(2)] 2(2) by simp
  moreover have "h_started ?h = [] \<or> (\<exists>r i. h_started ?h = [(r, i)])"
  proof (cases "h_started ?h")
    case (Cons x xs)
    then have "(fst x, snd x) \<in> set (h_started ?h)" by simp
    from handle_started [OF this] show ?thesis by blast
  qed simp
  ultimately show ?case using IH by (auto simp: Let_def)
qed simp_all
definition example_steering :: steering_coordinator where
  "example_steering = SteeringCoordinator example_binding \<lparr>previous = 7\<rparr>"

definition example_mandate :: steering_request where
  "example_mandate = \<lparr>source_bssid = [2, 0, 0, 0, 0, 3], sr_mandate = True, sr_imminent = False, sr_abridged = False, sr_window = 0, disassoc_timer = 10,
     sr_stations = [[2, 0, 0, 0, 0, 5]], sr_targets = [([2, 0, 0, 0, 0, 8], 81, 6)]\<rparr>"

definition steering_message :: message where
  "steering_message = \<lparr>msg_destination = [2, 0, 0, 0, 0, 1], msg_source = [2, 0, 0, 0, 0, 9], msg_type = 0x8014, msg_mid = 9, msg_relay = False,
     msg_tlvs = [Tlv 0x9B [2, 0, 0, 0, 0, 3, 0x80, 0, 0, 0, 10, 1, 2, 0, 0, 0, 0, 5, 1, 2, 0, 0, 0, 0, 8, 81, 6]], msg_fragments = 1\<rparr>"

definition snapshot_at :: "real \<Rightarrow> report_snapshot" where
  "snapshot_at t = example_snapshot\<lparr>sn_stamp := \<lparr>token = ''f00d/0/1/4'', observed_at = t, valid_until = t + 1\<rparr>\<rparr>"

definition delivery_at :: "real \<Rightarrow> delivery" where
  "delivery_at t = \<lparr>dl_current = \<lambda>_. Inr (Some (snapshot_at t)), dl_time = \<lambda>_. t, dl_write = \<lambda>_. Inr ()\<rparr>"

definition steering_at :: "real \<Rightarrow> steering_env" where
  "steering_at t = \<lparr>se_now = t, se_source = Inr (Some (snapshot_at t)), se_ack = delivery_at t, se_executor = \<lambda>_ _. Inr None,
     se_completed_now = t, se_completed = delivery_at t\<rparr>"

lemma example_decoded: "decode_request (msg_tlvs steering_message) = Inr example_mandate"
  by (simp add: decode_request_def steering_message_def STEERING_REQUEST_TLV_def decode_steering_def steer_unicast_def upt_rec MANDATE_def
      DISASSOC_IMMINENT_def ABRIDGED_def example_mandate_def from_be_def)

lemma example_associated: "associated_with (snapshot_at t) (source_bssid example_mandate) = [[2, 0, 0, 0, 0, 5]]"
  by (simp add: associated_with_def snapshot_at_def example_snapshot_def example_topology_def example_mandate_def)

lemma example_ack:
  "st_binding c = example_binding \<Longrightarrow> steer_send c ACK 9 [] (snapshot_at t) (t + 1) (delivery_at t) =
    ([[2, 0, 0, 0, 0, 9, 2, 0, 0, 0, 0, 1, 0x89, 0x3A, 0, 0, 0x80, 0, 0, 9, 0, 0x80, 0, 0, 0]], Inr ())"
  by (simp add: steer_send_def send_tlvs_def example_binding_def example_frame_simps ACK_def send_report_def guard_def steer_snapshot_def
      delivery_at_def snapshot_at_def stamp_check_def require_def ensure_def)

lemma wildcard_octets: "WILDCARD = [0xFF, 0xFF, 0xFF, 0xFF, 0xFF, 0xFF]"
  by (simp only: WILDCARD_def numeral_nat replicate.simps One_nat_def pred_numeral_simps)

lemma example_refusal: "refusal example_mandate [[2, 0, 0, 0, 0, 5]] = Inr None"
  by (simp add: refusal_def example_mandate_def wildcard_octets steer_unicast_def)

lemma example_handle:
  assumes "st_binding c = example_binding" "st_open c"
  shows "handle c (steering_at t) steering_message t = steer_answer (steer_unexpired c t) (steering_at t) 9 example_mandate (snapshot_at t) t"
  using assms example_decoded
  by (simp add: handle_def STEERING_REQUEST_def steering_message_def steer_bound_def example_binding_def steering_at_def steer_snapshot_def)

lemma example_answer:
  assumes "st_binding c = example_binding" "st_open c" "length (st_recent c) < 64"
  shows "h_started (steer_answer c (steering_at t) 9 example_mandate (snapshot_at t) t) =
      (if map_of (st_recent c) 9 = None then [(example_mandate, 9)] else [])"
    "st_recent (h_coordinator (steer_answer c (steering_at t) 9 example_mandate (snapshot_at t) t)) =
      (if map_of (st_recent c) 9 = None then AList.update 9 (t + 5) (st_recent c) else st_recent c)"
    "st_binding (h_coordinator (steer_answer c (steering_at t) 9 example_mandate (snapshot_at t) t)) = example_binding"
    "st_open (h_coordinator (steer_answer c (steering_at t) 9 example_mandate (snapshot_at t) t))"
  using assms example_ack [OF assms(1), of t] example_refusal
  by (simp_all add: steer_answer_def Let_def example_associated steer_errors_def steering_at_def) (simp_all add: example_mandate_def)

theorem steering_once_witness:
  "handovers example_steering [Handled (steering_at 0) steering_message 0, Handled (steering_at 1) steering_message 1,
     Handled (steering_at 6) steering_message 6] = [(0, 9), (6, 9)] \<and> (0 :: real) + 5 \<le> 6"
proof -
  let ?events = "[Handled (steering_at 0) steering_message 0, Handled (steering_at 1) steering_message 1, Handled (steering_at 6) steering_message 6]"
  have c: "st_binding example_steering = example_binding" "st_open example_steering" "st_recent example_steering = []"
    by (simp_all add: example_steering_def SteeringCoordinator_def)
  have h: "handovers example_steering ?events = [(0, 9), (6, 9)]"
    using c by (simp add: example_handle example_answer Let_def) (simp add: steering_at_def)
  moreover have "sorted (event_times ?events)" by (simp add: steering_at_def)
  ultimately show ?thesis using steering_once [of ?events example_steering] by simp
qed

end
