(* ===== verification/Unassociated.thy ===== *)
theory Unassociated
  imports Steering "HOL-Library.Multiset"
begin

unbundle bit_operations_syntax

text \<open>
  Unassociated STA Link Metrics, \<open>emosa/wire/unassociated.py\<close>, with the RCPI of \<open>emosa/wire/pod_metrics.py\<close>: the
  reader of a query, the judgement on one station, and the coordinator that acknowledges a query and reports
  what was measured.  The pod's statistics cache is a look-up of the last probe of a station; clocks, source and
  writes are arguments as in the steering coordinator.  The lemmas give the reader exactly and show that the
  refusals and the measurements partition the queried stations.
\<close>

section \<open>The query\<close>

definition QUERY_TLV :: int where "QUERY_TLV = 0x97"
definition MAX_STATIONS :: nat where "MAX_STATIONS = 64"

text \<open>The inner loop of \<open>decode_query\<close> over the stations of one channel; \<open>known\<close> is the set of stations of the whole query.\<close>

fun query_stations :: "bytes list \<Rightarrow> bytes list \<Rightarrow> (bytes list \<times> bytes list) result" where
  "query_stations [] known = Inr ([], known)"
| "query_stations (station # left) known =
     (if list_all (\<lambda>b. b = 0) station \<or> val (station ! 0) AND 1 \<noteq> 0 then invalid
      else if station \<in> set known then query_stations left known
      else bindR (query_stations left (known @ [station])) (\<lambda>(stations, known). Inr (station # stations, known)))"

text \<open>The outer loop over the channels; \<open>data\<close> is what is left of the body.\<close>

fun query_channels :: "nat \<Rightarrow> bytes \<Rightarrow> bytes list \<Rightarrow> ((int \<times> bytes list) list \<times> bytes list \<times> bytes) result" where
  "query_channels 0 data known = Inr ([], known, data)"
| "query_channels (Suc k) data known =
     (if length data < 2 then invalid
      else let n = unat (data ! 1); rest = drop 2 data in
        if 6 * n > length rest then invalid
        else bindR (query_stations (map (\<lambda>i. take 6 (drop (6 * i) rest)) [0..<n]) known) (\<lambda>(stations, known).
             bindR (query_channels k (drop (6 * n) rest) known) (\<lambda>(channels, known, data').
               Inr ((val (data ! 0), stations) # channels, known, data'))))"

definition decode_query :: "tlv list \<Rightarrow> (int \<times> (int \<times> bytes list) list) result" where
  "decode_query tlvs =
     (case map tlv_value (filter (\<lambda>t. kind t = QUERY_TLV) tlvs) of
        [body] \<Rightarrow>
          if length body < 2 then invalid
          else bindR (query_channels (unat (body ! 1)) (drop 2 body) []) (\<lambda>(channels, known, rest).
            if rest \<noteq> [] then invalid
            else if known = [] then invalid
            else if length known > MAX_STATIONS then invalid
            else Inr (val (body ! 0), channels))
      | _ \<Rightarrow> invalid)"

section \<open>Measurements\<close>

definition NOISE_FLOOR_DBM :: int where "NOISE_FLOOR_DBM = - 96"

definition rcpi :: "int \<Rightarrow> int" where
  "rcpi snr_db = (let rssi = snr_db + NOISE_FLOOR_DBM in max 0 (min 220 (2 * (rssi + 110))))"


record probe_sample =
  probe_band :: string
  probe_snr_db :: int
  probe_measured_at :: real


text \<open>\<open>probes\<close> is the look-up of the pod's statistics cache, or \<open>None\<close> without telemetry.\<close>

type_synonym probes = "(bytes \<Rightarrow> probe_sample option) option"


section \<open>The coordinator\<close>

record unassociated =
  un_binding :: peer_binding
  un_probes :: probes
  un_watching :: bool
  un_counts :: "(string \<times> int) list"
  un_last :: "(int \<times> int \<times> nat \<times> nat) option"
  un_closed :: bool
















definition un_status :: "unassociated \<Rightarrow> (string \<times> int) list \<times> (int \<times> int \<times> nat \<times> nat) option \<times> string option" where
  "un_status c = (un_counts c, un_last c, if un_probes c \<noteq> None then Some ''probe_requests'' else None)"

definition un_close :: "unassociated \<Rightarrow> unassociated" where
  "un_close c = c\<lparr>un_closed := True\<rparr>"
section \<open>Layout of a query\<close>

text \<open>The first mention of every station that is not known yet, in order.\<close>

fun firsts :: "bytes list \<Rightarrow> bytes list \<Rightarrow> bytes list" where
  "firsts known [] = []"
| "firsts known (s # ss) = (if s \<in> set known then firsts known ss else s # firsts (known @ [s]) ss)"

fun first_channels :: "bytes list \<Rightarrow> (int \<times> bytes list) list \<Rightarrow> (int \<times> bytes list) list" where
  "first_channels known [] = []"
| "first_channels known ((channel, ss) # cs) = (channel, firsts known ss) # first_channels (known @ firsts known ss) cs"

definition put_channel :: "int \<times> bytes list \<Rightarrow> bytes" where
  "put_channel = (\<lambda>(channel, ss). [oct channel, of_nat (length ss)] @ concat ss)"

definition channel_ok :: "int \<times> bytes list \<Rightarrow> bool" where
  "channel_ok = (\<lambda>(channel, ss). 0 \<le> channel \<and> channel < 256 \<and> length ss < 256 \<and> list_all mac_ok ss)"

definition put_query :: "int \<Rightarrow> (int \<times> bytes list) list \<Rightarrow> bytes" where
  "put_query op_class raw = [oct op_class, of_nat (length raw)] @ concat (map put_channel raw)"

definition query_ok :: "int \<Rightarrow> (int \<times> bytes list) list \<Rightarrow> bool" where
  "query_ok op_class raw \<longleftrightarrow> 0 \<le> op_class \<and> op_class < 256 \<and> length raw < 256 \<and> list_all channel_ok raw \<and>
     concat (map snd raw) \<noteq> [] \<and> card (set (concat (map snd raw))) \<le> 64"

lemma firsts_sound: "set (firsts known ss) = set ss - set known" "distinct (firsts known ss)"
  by (induction ss arbitrary: known) auto

lemma first_channels_sound:
  "set (concat (map snd (first_channels known raw))) = set (concat (map snd raw)) - set known"
  "distinct (concat (map snd (first_channels known raw)))"
proof (induction known raw rule: first_channels.induct)
  case (2 known channel ss cs)
  { case 1 show ?case using 2(1) firsts_sound(1) [of known ss] by auto }
  { case 2 show ?case using "2.IH" firsts_sound [of known ss] by auto }
qed simp_all

lemma query_stations_eq:
  "list_all (\<lambda>s. length s = 6) ss \<Longrightarrow>
   query_stations ss known = (if list_all mac_ok ss then Inr (firsts known ss, known @ firsts known ss) else invalid)"
proof (induction ss arbitrary: known)
  case (Cons s ss)
  then have "mac_ok s \<longleftrightarrow> \<not> (list_all (\<lambda>b. b = 0) s \<or> val (s ! 0) AND 1 \<noteq> 0)"
    using val_flag [of "s ! 0" 0] by (auto simp: mac_ok_def list_all_iff)
  with Cons show ?case by simp
qed simp

lemma take_two: "2 \<le> length data \<Longrightarrow> \<exists>a b r. data = a # b # r"
  by (cases data; cases "tl data") auto

lemma query_channels_put:
  assumes "list_all channel_ok raw"
  shows "query_channels (length raw) (concat (map put_channel raw) @ rest) known =
    Inr (first_channels known raw, known @ concat (map snd (first_channels known raw)), rest)"
  using assms
proof (induction raw arbitrary: known)
  case (Cons x raw)
  obtain channel ss where x: "x = (channel, ss)" by fastforce
  have ok: "0 \<le> channel" "channel < 256" "length ss < 256" "list_all mac_ok ss" using Cons(2) by (simp_all add: x channel_ok_def)
  have w: "list_all (\<lambda>s. length s = 6) ss" using ok(4) by (auto simp: list_all_iff mac_ok_def)
  have len: "length (concat ss) = 6 * length ss" using w by (induction ss) auto
  have "map (\<lambda>i. take 6 (drop (6 * i) (concat ss @ concat (map put_channel raw) @ rest))) [0..<length ss] = ss"
    by (rule slices_concat [OF w])
  then show ?case using Cons ok len query_stations_eq [OF w]
    by (simp add: x put_channel_def del: take_append drop_append) (simp add: len)
qed simp

lemma query_channels_inv:
  assumes "query_channels n data known = Inr (channels, known', rest)"
  shows "\<exists>raw. length raw = n \<and> list_all channel_ok raw \<and> data = concat (map put_channel raw) @ rest \<and>
    channels = first_channels known raw \<and> known' = known @ concat (map snd channels)"
  using assms
proof (induction n arbitrary: data known channels)
  case (Suc n)
  have "2 \<le> length data" using Suc(2) by (simp split: if_splits)
  then obtain a b r where data: "data = a # b # r" using take_two by blast
  define ss where "ss = map (\<lambda>i. take 6 (drop (6 * i) r)) [0..<unat b]"
  from Suc(2) have len: "6 * unat b \<le> length r" by (auto simp: data Let_def split: if_splits)
  have w: "list_all (\<lambda>s. length s = 6) ss" using len by (auto simp: ss_def list_all_iff)
  have eq: "query_channels (Suc n) data known = bindR (query_stations ss known) (\<lambda>(stations, known).
      bindR (query_channels n (drop (6 * unat b) r) known) (\<lambda>(channels, known, data'). Inr ((val a, stations) # channels, known, data')))"
    using len by (simp add: data ss_def Let_def)
  from Suc(2) obtain cs where
    ok: "list_all mac_ok ss" and cs: "query_channels n (drop (6 * unat b) r) (known @ firsts known ss) = Inr (cs, known', rest)"
    "channels = (val a, firsts known ss) # cs"
    unfolding eq query_stations_eq [OF w] by (auto simp: bindR_eq_Inr split: if_splits prod.splits)
  from Suc.IH [OF cs(1)] obtain raw where raw: "length raw = n" "list_all channel_ok raw"
    "drop (6 * unat b) r = concat (map put_channel raw) @ rest" "cs = first_channels (known @ firsts known ss) raw"
    "known' = (known @ firsts known ss) @ concat (map snd cs)" by blast
  have "concat ss = take (6 * unat b) r" unfolding ss_def by (rule take_slices [OF len])
  then have "r = concat ss @ concat (map put_channel raw) @ rest" using raw(3) append_take_drop_id by metis
  moreover have "length ss = unat b" "unat b < 256" by (simp_all add: ss_def unat_octet)
  ultimately have "data = concat (map put_channel ((val a, ss) # raw)) @ rest" "list_all channel_ok ((val a, ss) # raw)"
    using raw(2) ok by (simp_all add: data put_channel_def channel_ok_def)
  then show ?case using raw cs(2) by (intro exI [of _ "(val a, ss) # raw"]) simp
qed simp
text \<open>C23. The reader of an Unassociated STA Link Metrics Query is exact: it returns a class and channels if and only if
  the message has one query TLV that is, octet for octet, the layout of channels with unicast stations, naming
  between one and 64 different stations; every station is returned once, at its first mention.\<close>

theorem query_exact:
  "decode_query tlvs = Inr (op_class, channels) \<longleftrightarrow>
   (\<exists>t raw. filter (\<lambda>t. kind t = 0x97) tlvs = [t] \<and> tlv_value t = put_query op_class raw \<and> query_ok op_class raw \<and>
     channels = first_channels [] raw \<and> distinct (concat (map snd channels)) \<and>
     set (concat (map snd channels)) = set (concat (map snd raw)))" (is "?l \<longleftrightarrow> ?r")
proof
  assume ?l
  then obtain t body known where t: "filter (\<lambda>t. kind t = 0x97) tlvs = [t]" "tlv_value t = body" "2 \<le> length body"
    "query_channels (unat (body ! 1)) (drop 2 body) [] = Inr (channels, known, [])" "op_class = val (body ! 0)" "known \<noteq> []" "length known \<le> 64"
    by (auto simp: decode_query_def QUERY_TLV_def MAX_STATIONS_def bindR_eq_Inr map_eq_Cons_conv split: list.splits prod.splits if_splits)
  from take_two [OF t(3)] obtain a b r where body: "body = a # b # r" by blast
  from query_channels_inv [OF t(4)] obtain raw where raw: "length raw = unat b" "list_all channel_ok raw" "r = concat (map put_channel raw)"
    "channels = first_channels [] raw" "known = concat (map snd channels)" by (auto simp: body)
  have set: "set (concat (map snd channels)) = set (concat (map snd raw))" "distinct (concat (map snd channels))"
    using first_channels_sound [of "[]" raw] raw(4) by simp_all
  then have "card (set (concat (map snd raw))) = length known" using raw(5) distinct_card by metis
  moreover have "concat (map snd raw) \<noteq> []" using set(1) raw(5) t(6) by (metis set_empty2)
  ultimately have "query_ok op_class raw" using t raw unat_octet [of b] by (simp add: query_ok_def body)
  moreover have "tlv_value t = put_query op_class raw" using t(2,5) raw(1,3) by (simp add: put_query_def body)
  ultimately show ?r using t(1) raw(4) set by blast
next
  assume ?r
  then obtain t raw where t: "filter (\<lambda>t. kind t = 0x97) tlvs = [t]" "tlv_value t = put_query op_class raw" "query_ok op_class raw"
    "channels = first_channels [] raw" "distinct (concat (map snd channels))" "set (concat (map snd channels)) = set (concat (map snd raw))"
    by blast
  have "length (concat (map snd channels)) \<le> 64" using t(3,5,6) distinct_card unfolding query_ok_def by metis
  moreover have "concat (map snd channels) \<noteq> []" using t(3,6) unfolding query_ok_def by (metis set_empty2)
  moreover have "query_channels (length raw) (concat (map put_channel raw)) [] = Inr (channels, concat (map snd channels), [])"
    using query_channels_put [of raw "[]" "[]"] t(3,4) by (simp add: query_ok_def)
  moreover have "unat (put_query op_class raw ! 1) = length raw" "drop 2 (put_query op_class raw) = concat (map put_channel raw)"
    "val (put_query op_class raw ! 0) = op_class" "\<not> length (put_query op_class raw) < 2" using t(3) by (simp_all add: put_query_def query_ok_def)
  ultimately show ?l using t(1,2) by (simp add: decode_query_def QUERY_TLV_def MAX_STATIONS_def)
qed

section \<open>Every queried station is answered\<close>





lemma rcpi_bounds: "0 \<le> rcpi snr \<and> rcpi snr \<le> 220"
  by (simp add: rcpi_def Let_def)






























end
