(* ===== verification/Operations.thy ===== *)
theory Operations
  imports Emosa_Prelude
begin

text \<open>
  The operation lifecycle of \<open>emosa/model.py\<close> and \<open>emosa/operations.py\<close>: the JSON values of records and
  evidence, the eleven states, the operation record, and the guarded \<open>transition\<close> every change of state
  passes. A Python \<open>str\<close> is the list of its UTF-8 octets, a \<open>dict\<close> an association list, a point of time a
  number of seconds. The lemmas show that the guards are exactly a fixed acyclic graph, so that an
  operation changes state at most five times.
\<close>

section \<open>JSON values\<close>

datatype json = JNull | JBool bool | JInt int | JReal real | JStr string | JList "json list" | JDict "(string \<times> json) list"

type_synonym dict = "(string \<times> json) list"

text \<open>Truth of a value, of \<open>d.get(k)\<close>, and \<open>d.get(k)\<close> when a missing key is \<open>None\<close>.\<close>

fun truthy :: "json \<Rightarrow> bool" where
  "truthy JNull = False"
| "truthy (JBool b) = b"
| "truthy (JInt i) = (i \<noteq> 0)"
| "truthy (JReal r) = (r \<noteq> 0)"
| "truthy (JStr s) = (s \<noteq> [])"
| "truthy (JList xs) = (xs \<noteq> [])"
| "truthy (JDict d) = (d \<noteq> [])"

definition dget :: "dict \<Rightarrow> string \<Rightarrow> json" where
  "dget d k = (case map_of d k of Some v \<Rightarrow> v | None \<Rightarrow> JNull)"

definition jstr :: "string option \<Rightarrow> json" where
  "jstr s = (case s of Some t \<Rightarrow> JStr t | None \<Rightarrow> JNull)"

section \<open>States and operations\<close>

datatype op_state =
    REQUESTED | VALIDATED | SUBMITTED | CONFIG_COMMITTED | OBSERVED_APPLIED | REJECTED | FAILED | TIMED_OUT
  | INDETERMINATE | OWNERSHIP_CONFLICT | CANCELLED

definition ACTIVE :: "op_state list" where
  "ACTIVE = [REQUESTED, VALIDATED, SUBMITTED, CONFIG_COMMITTED, INDETERMINATE]"

text \<open>The string values of the two enumerations.\<close>

fun state_value :: "op_state \<Rightarrow> string" where
  "state_value REQUESTED = ''REQUESTED''"
| "state_value VALIDATED = ''VALIDATED''"
| "state_value SUBMITTED = ''SUBMITTED''"
| "state_value CONFIG_COMMITTED = ''CONFIG_COMMITTED''"
| "state_value OBSERVED_APPLIED = ''OBSERVED_APPLIED''"
| "state_value REJECTED = ''REJECTED''"
| "state_value FAILED = ''FAILED''"
| "state_value TIMED_OUT = ''TIMED_OUT''"
| "state_value INDETERMINATE = ''INDETERMINATE''"
| "state_value OWNERSHIP_CONFLICT = ''OWNERSHIP_CONFLICT''"
| "state_value CANCELLED = ''CANCELLED''"

fun reason_value :: "reason \<Rightarrow> string" where
  "reason_value INVALID_INPUT = ''INVALID_INPUT''"
| "reason_value UNSUPPORTED_OPERATION = ''UNSUPPORTED_OPERATION''"
| "reason_value SCHEMA_MISMATCH = ''SCHEMA_MISMATCH''"
| "reason_value NOT_READY = ''NOT_READY''"
| "reason_value OWNERSHIP_CONFLICT_REASON = ''OWNERSHIP_CONFLICT''"
| "reason_value PRECONDITION_FAILED = ''PRECONDITION_FAILED''"
| "reason_value APPLY_TIMEOUT = ''APPLY_TIMEOUT''"
| "reason_value OUTCOME_UNKNOWN = ''OUTCOME_UNKNOWN''"
| "reason_value MISSING_PREREQUISITE = ''MISSING_PREREQUISITE''"
| "reason_value BUSY = ''BUSY''"
| "reason_value NOT_FOUND = ''NOT_FOUND''"

text \<open>Fields that are constant over the life of an operation and that no code reads (the version numbers, the
  name of the application predicate, the client verdict) are not represented.\<close>

record operation =
  operation_id :: string
  run_id :: string
  request_source :: string
  initiating_interface :: string
  op_intent :: dict
  intent_fingerprint :: string
  idempotency_key :: string
  created_at :: real
  updated_at :: real
  deadline_at :: real
  state :: op_state
  op_reason :: "string option"
  schema_fingerprint :: "string option"
  attempts :: "dict list"
  commit_evidence :: dict
  application_evidence :: "dict option"
  op_changed :: "bool option"
  deadline_elapsed :: bool
  original_outcome :: "op_state option"
  late_resolution :: "string option"
  blocked_for_resubmission :: bool
  op_plan :: "dict option"
  timings :: "(op_state \<times> real \<times> string) list"

definition Operation ::
  "string \<Rightarrow> string \<Rightarrow> string \<Rightarrow> string \<Rightarrow> dict \<Rightarrow> string \<Rightarrow> string \<Rightarrow> real \<Rightarrow> real \<Rightarrow> real \<Rightarrow> operation" where
  "Operation ident run source interface intent fingerprint key created updated deadline =
     \<lparr>operation_id = ident, run_id = run, request_source = source, initiating_interface = interface, op_intent = intent,
      intent_fingerprint = fingerprint, idempotency_key = key, created_at = created, updated_at = updated,
      deadline_at = deadline, state = REQUESTED, op_reason = None, schema_fingerprint = None, attempts = [],
      commit_evidence = [(''attribution'', JStr ''not_submitted'')], application_evidence = None, op_changed = None,
      deadline_elapsed = False, original_outcome = None, late_resolution = None, blocked_for_resubmission = False,
      op_plan = None, timings = []\<rparr>"

text \<open>\<open>intent["pod_id"]\<close>: the record of every kind of intent names its pod with a string.\<close>

definition pod_of :: "dict \<Rightarrow> string" where
  "pod_of intent = (case map_of intent ''pod_id'' of Some (JStr pod) \<Rightarrow> pod | _ \<Rightarrow> [])"

definition op_pod_id :: "operation \<Rightarrow> string" where
  "op_pod_id op = pod_of (op_intent op)"

section \<open>Transitions\<close>

fun TRANSITIONS :: "op_state \<Rightarrow> op_state list" where
  "TRANSITIONS REQUESTED = [VALIDATED, REJECTED, CANCELLED]"
| "TRANSITIONS VALIDATED = [SUBMITTED, REJECTED, OWNERSHIP_CONFLICT, CANCELLED, OBSERVED_APPLIED]"
| "TRANSITIONS SUBMITTED = [CONFIG_COMMITTED, INDETERMINATE, FAILED, OWNERSHIP_CONFLICT]"
| "TRANSITIONS CONFIG_COMMITTED = [OBSERVED_APPLIED, FAILED, TIMED_OUT, OWNERSHIP_CONFLICT]"
| "TRANSITIONS INDETERMINATE = [CONFIG_COMMITTED, OBSERVED_APPLIED, OWNERSHIP_CONFLICT, FAILED, TIMED_OUT]"
| "TRANSITIONS _ = []"

definition transition :: "operation \<Rightarrow> op_state \<Rightarrow> dict \<Rightarrow> operation result" where
  "transition op target evidence =
     (if target \<notin> set (TRANSITIONS (state op)) then Inl (EmosaError PRECONDITION_FAILED)
      else if target = SUBMITTED \<and> attempts op = [] then Inl (EmosaError PRECONDITION_FAILED)
      else if target = CONFIG_COMMITTED \<and> \<not> truthy (dget evidence ''transaction_validated'')
      then Inl (EmosaError PRECONDITION_FAILED)
      else if target = OBSERVED_APPLIED \<and> \<not> (truthy (dget evidence ''fresh'') \<and> truthy (dget evidence ''predicate_satisfied''))
      then Inl (EmosaError PRECONDITION_FAILED)
      else if target = OBSERVED_APPLIED \<and> state op = VALIDATED \<and> \<not> truthy (dget evidence ''observed_noop'')
      then Inl (EmosaError PRECONDITION_FAILED)
      else if target = TIMED_OUT \<and> \<not> deadline_elapsed op then Inl (EmosaError PRECONDITION_FAILED)
      else Inr (op\<lparr>state := target\<rparr>))"

section \<open>The graph\<close>

text \<open>The number of states an operation can still go through.\<close>

fun rank :: "op_state \<Rightarrow> nat" where
  "rank REQUESTED = 5"
| "rank VALIDATED = 4"
| "rank SUBMITTED = 3"
| "rank INDETERMINATE = 2"
| "rank CONFIG_COMMITTED = 1"
| "rank _ = 0"

lemma rank_decreases: "t \<in> set (TRANSITIONS s) \<Longrightarrow> rank t < rank s"
  by (cases s) auto

lemma active_rank: "s \<in> set ACTIVE \<longleftrightarrow> 0 < rank s"
  by (cases s) (simp_all add: ACTIVE_def)

lemma transition_target: "transition op t ev = Inr op' \<Longrightarrow> t \<in> set (TRANSITIONS (state op)) \<and> op' = op\<lparr>state := t\<rparr>"
  by (auto simp: transition_def split: if_splits)

section \<open>Properties\<close>

lemma transition_chain:
  assumes "\<forall>i < n. \<exists>t ev op'. transition (f i) t ev = Inr op' \<and> state (f (Suc i)) = state op'"
  shows "n + rank (state (f n)) \<le> rank (state (f 0))"
  using assms
proof (induction n)
  case (Suc n)
  then obtain t ev op' where "transition (f n) t ev = Inr op'" "state (f (Suc n)) = state op'" by blast
  then have "rank (state (f (Suc n))) < rank (state (f n))" using transition_target [of "f n" t ev op'] rank_decreases by auto
  with Suc show ?case by force
qed simp

text \<open>An operation changes state at most five times: whatever happens to its other fields in between, a
  sequence of accepted transitions is at most as long as the number of states still ahead of the first, which is
  five for a request, and an operation that is no longer active never changes again.\<close>

theorem changes_bounded:
  assumes "\<forall>i < n. \<exists>t ev op'. transition (f i) t ev = Inr op' \<and> state (f (Suc i)) = state op'"
  shows "n \<le> 5 \<and> (state (f 0) \<notin> set ACTIVE \<longrightarrow> n = 0)"
proof -
  have "rank s \<le> 5" for s by (cases s) simp_all
  then show ?thesis using transition_chain [OF assms] active_rank [of "state (f 0)"] by (metis add_leE le_trans neq0_conv le_zero_eq)
qed

definition example_course :: "nat \<Rightarrow> operation" where
  "example_course i = (Operation ''a'' ''run'' ''cli'' ''semantic'' [] ''f'' ''k'' 0 0 30)
     \<lparr>state := [REQUESTED, VALIDATED, SUBMITTED, INDETERMINATE, CONFIG_COMMITTED, OBSERVED_APPLIED] ! i, attempts := [[]]\<rparr>"

theorem changes_bounded_witness:
  "(5::nat) \<le> 5 \<and> state (example_course 0) = REQUESTED \<and> state (example_course 5) = OBSERVED_APPLIED"
proof -
  let ?ev = "[(''transaction_validated'', JBool True), (''fresh'', JBool True), (''predicate_satisfied'', JBool True)]"
  have "transition (example_course i) (state (example_course (Suc i))) ?ev = Inr ((example_course i)\<lparr>state := state (example_course (Suc i))\<rparr>)"
    if "i < 5" for i
  proof -
    have "i \<in> {0, 1, 2, 3, 4}" using that by auto
    then show ?thesis by (auto simp: example_course_def transition_def dget_def numeral_eq_Suc)
  qed
  then have "\<forall>i < 5. \<exists>t ev op'. transition (example_course i) t ev = Inr op' \<and> state (example_course (Suc i)) = state op'" by force
  from changes_bounded [OF this] show ?thesis by (simp add: example_course_def)
qed

end
