(* ===== verification/Journal.thy ===== *)
theory Journal
  imports Operations "HOL-Library.AList"
begin

text \<open>
  The operation journal of \<open>emosa/store.py\<close>, and the redaction of \<open>emosa/secrets.py\<close> its records pass. A
  table is a list in row order (or an association list under its primary key), a transaction an
  update of the whole record, so that an operation that raises leaves the journal as it was. The
  check of a record against its JSON schema is a field of the journal: \<open>jsonschema\<close> and the schema
  files are not part of the program. Not represented: the files and the lock behind the tables, the
  columns that repeat fields of the record, event identifiers and timestamps. The lemmas show what
  retention keeps, that writes are found again, and that numbered keys of repeated writes are told
  apart.
\<close>

section \<open>Redaction\<close>

definition SENSITIVE :: "string list" where
  "SENSITIVE = [''psk'', ''password'', ''wpa_psks'', ''security'', ''private_key'', ''credential_fingerprint'']"

fun redact :: "json \<Rightarrow> json" where
  "redact (JDict d) = JDict (map (\<lambda>(k, v). (k, if k \<in> set SENSITIVE then JStr ''[REDACTED]'' else redact v)) d)"
| "redact (JList xs) = JList (map redact xs)"
| "redact v = v"

section \<open>Keys of writes\<close>

definition holds_rows :: "operation \<Rightarrow> bool" where
  "holds_rows op \<longleftrightarrow> truthy (dget (commit_evidence op) ''created'') \<and> \<not> truthy (dget (commit_evidence op) ''released'')"

text \<open>\<open>str.rpartition('#')\<close>.\<close>

definition rpartition :: "string \<Rightarrow> string \<times> bool \<times> string" where
  "rpartition s =
     (let n = takeWhile (\<lambda>c. c \<noteq> CHR ''#'') (rev s)
      in if length n = length s then ([], False, s) else (take (length s - Suc (length n)) s, True, rev n))"

definition start_write ::
  "operation option \<Rightarrow> string \<Rightarrow> (string \<Rightarrow> bool) option \<Rightarrow> operation option \<times> string option" where
  "start_write latest tag same =
     (case latest of
        None \<Rightarrow> (None, Some tag)
      | Some op \<Rightarrow>
          let (base, mark, n) = rpartition (idempotency_key op);
              (base, n) = (if \<not> (mark \<and> isdigit n) then (idempotency_key op, ''0'') else (base, n))
          in if (case same of None \<Rightarrow> base = tag | Some f \<Rightarrow> f base) then (Some op, None)
             else (None, Some (tag @ ''#'' @ int_digits (digits_int n + 1))))"

section \<open>The journal\<close>

definition RETAINED_RECENT :: nat where "RETAINED_RECENT = 16"

definition RECONCILED :: "op_state list" where
  "RECONCILED = [SUBMITTED, CONFIG_COMMITTED, OBSERVED_APPLIED, INDETERMINATE, TIMED_OUT, OWNERSHIP_CONFLICT]"

record event =
  ev_run :: string
  ev_sequence :: int
  ev_operation :: "string option"
  ev_pod :: "string option"
  ev_phase :: string
  ev_reason :: json
  ev_payload :: json

record store =
  process_id :: string
  max_operations :: nat
  max_events :: int
  contract :: "operation \<Rightarrow> bool"
  receipt_contract :: "dict \<Rightarrow> bool"
  st_operations :: "operation list"
  st_events :: "event list"
  st_ownership :: "(string \<times> dict) list"
  st_receipts :: "(string \<times> dict) list"
  st_runs :: "(string \<times> dict) list"

definition store_get :: "store \<Rightarrow> string \<Rightarrow> operation result" where
  "store_get st ident =
     (case find (\<lambda>op. operation_id op = ident) (st_operations st) of
        None \<Rightarrow> Inl (EmosaError NOT_FOUND)
      | Some op \<Rightarrow> Inr op)"

definition lookup :: "store \<Rightarrow> string \<Rightarrow> string \<Rightarrow> string \<Rightarrow> operation option" where
  "lookup st source pod key =
     find (\<lambda>op. request_source op = source \<and> op_pod_id op = pod \<and> idempotency_key op = key) (st_operations st)"

definition start_latest :: "store \<Rightarrow> string \<Rightarrow> string \<Rightarrow> string \<Rightarrow> operation option" where
  "start_latest st source pod pre =
     find (\<lambda>op. take (length pre) (idempotency_key op) = pre)
       (filter (\<lambda>op. request_source op = source \<and> op_pod_id op = pod) (rev (st_operations st)))"

definition operations :: "store \<Rightarrow> string option \<Rightarrow> operation list" where
  "operations st run =
     (case run of
        None \<Rightarrow> st_operations st
      | Some r \<Rightarrow> if r = [] then st_operations st else filter (\<lambda>op. run_id op = r) (st_operations st))"

text \<open>\<open>_event\<close>: the next number of the run, then the bound on the run's events.\<close>

definition add_event :: "store \<Rightarrow> string \<Rightarrow> string option \<Rightarrow> string option \<Rightarrow> string \<Rightarrow> dict \<Rightarrow> store" where
  "add_event st run ident pod phase payload =
     (let seq = fold max (map ev_sequence (filter (\<lambda>ev. ev_run ev = run) (st_events st))) 0 + 1;
          reason = (case dget payload ''reason'' of
            JDict d \<Rightarrow> (case map_of d ''code'' of Some c \<Rightarrow> c | None \<Rightarrow> JStr ''NOT_READY'')
          | r \<Rightarrow> r);
          ev = \<lparr>ev_run = run, ev_sequence = seq, ev_operation = ident, ev_pod = pod, ev_phase = phase,
                ev_reason = reason, ev_payload = redact (JDict payload)\<rparr>
      in st\<lparr>st_events := filter (\<lambda>ev. \<not> (ev_run ev = run \<and> ev_sequence ev \<le> seq - max_events st)) (st_events st @ [ev])\<rparr>)"

text \<open>\<open>_prune\<close>.\<close>

definition latest_reconciled :: "operation list \<Rightarrow> (string \<times> string) list" where
  "latest_reconciled ops =
     fold (\<lambda>op latest. if state op \<in> set RECONCILED then AList.update (op_pod_id op) (operation_id op) latest else latest) ops []"

definition kept_ids :: "operation list \<Rightarrow> string list" where
  "kept_ids ops =
     map operation_id (drop (length ops - RETAINED_RECENT) ops) @
     map operation_id (filter (\<lambda>op. state op \<in> set ACTIVE \<or> holds_rows op) ops) @
     map snd (latest_reconciled ops)"

definition prune :: "store \<Rightarrow> store" where
  "prune st =
     (let ops = st_operations st; keep = kept_ids ops
      in if length ops \<le> RETAINED_RECENT then st
         else st\<lparr>st_operations := filter (\<lambda>op. operation_id op \<in> set keep) ops,
                 st_receipts := filter (\<lambda>(ident, _). \<not> (ident \<in> set (map operation_id ops) \<and> ident \<notin> set keep)) (st_receipts st)\<rparr>)"

text \<open>The binding of a WSC receipt to its operation; a missing key of the receipt raises.\<close>

definition dict_item :: "dict \<Rightarrow> string \<Rightarrow> json result" where
  "dict_item d k = (case map_of d k of Some v \<Rightarrow> Inr v | None \<Rightarrow> Inl KeyError)"

definition receipt_bound :: "store \<Rightarrow> operation \<Rightarrow> dict \<Rightarrow> unit result" where
  "receipt_bound st op receipt =
     (let differ = Inl (EmosaError INVALID_INPUT) in
      if initiating_interface op \<noteq> ''wsc-component'' then differ
      else bindR (dict_item receipt ''process_id'') (\<lambda>process. if process \<noteq> JStr (process_id st) then differ
      else bindR (dict_item receipt ''exchange_id'') (\<lambda>exchange. if exchange \<noteq> JStr (idempotency_key op) then differ
      else bindR (dict_item receipt ''pod_id'') (\<lambda>pod. if pod \<noteq> JStr (op_pod_id op) then differ
      else bindR (dict_item receipt ''radio_id'') (\<lambda>radio. bindR (dict_item (op_intent op) ''radio_id'') (\<lambda>radio'.
        if radio \<noteq> radio' then differ
      else bindR (dict_item receipt ''bss_id'') (\<lambda>bss.
        if bss \<noteq> (case map_of (op_intent op) ''bss_id'' of Some b \<Rightarrow> b | None \<Rightarrow> radio') then differ
      else bindR (dict_item receipt ''controller_al'') (\<lambda>al.
        case al of
          JStr a \<Rightarrow> if request_source op \<noteq> ''wsc-component:'' @ a then differ else Inr ()
        | _ \<Rightarrow> Inl TypeError))))))))"

definition add :: "store \<Rightarrow> operation \<Rightarrow> dict option \<Rightarrow> store result" where
  "add st op receipt =
     bindR (ensure (contract st op) (EmosaError INVALID_INPUT)) (\<lambda>_.
     bindR (case receipt of
              Some r \<Rightarrow> bindR (ensure (receipt_contract st r) (EmosaError INVALID_INPUT)) (\<lambda>_. receipt_bound st op r)
            | None \<Rightarrow> ensure (initiating_interface op \<noteq> ''wsc-component'') (EmosaError INVALID_INPUT)) (\<lambda>_.
     bindR (ensure (length (st_operations st) < max_operations st) (EmosaError BUSY)) (\<lambda>_.
     bindR (ensure (operation_id op \<notin> set (map operation_id (st_operations st)) \<and>
         lookup st (request_source op) (op_pod_id op) (idempotency_key op) = None) IntegrityError) (\<lambda>_.
     let st = st\<lparr>st_operations := st_operations st @ [op]\<rparr>;
         st = add_event st (run_id op) (Some (operation_id op)) (Some (op_pod_id op)) (state_value (state op)) []
     in bindR (case receipt of
                 None \<Rightarrow> Inr st
               | Some r \<Rightarrow> bindR (ensure (map_of (st_receipts st) (operation_id op) = None) IntegrityError) (\<lambda>_.
                   Inr (st\<lparr>st_receipts := st_receipts st @ [(operation_id op, r)]\<rparr>))) (\<lambda>st.
          Inr (prune st))))))"

definition wsc_receipt :: "store \<Rightarrow> string \<Rightarrow> dict option" where
  "wsc_receipt st ident = map_of (st_receipts st) ident"

definition save :: "store \<Rightarrow> operation \<Rightarrow> dict \<Rightarrow> store result" where
  "save st op payload =
     bindR (ensure (contract st op) (EmosaError INVALID_INPUT)) (\<lambda>_.
       Inr (add_event (st\<lparr>st_operations := map (\<lambda>p. if operation_id p = operation_id op then op else p) (st_operations st)\<rparr>)
         (run_id op) (Some (operation_id op)) (Some (op_pod_id op)) (state_value (state op))
         (AList.merge [(''reason'', jstr (op_reason op))] payload)))"

definition store_event :: "store \<Rightarrow> string \<Rightarrow> string \<Rightarrow> dict \<Rightarrow> string option \<Rightarrow> store" where
  "store_event st run phase payload pod = add_event st run None pod phase payload"

definition store_events :: "store \<Rightarrow> string \<Rightarrow> int \<Rightarrow> int \<Rightarrow> event list" where
  "store_events st run after limit =
     take (nat (min (max limit 1) 500))
       (sort_key ev_sequence (filter (\<lambda>ev. ev_run ev = run \<and> after < ev_sequence ev) (st_events st)))"

definition conflict :: "store \<Rightarrow> string \<Rightarrow> dict \<Rightarrow> store" where
  "conflict st pod evidence =
     (case redact (JDict evidence) of JDict d \<Rightarrow> st\<lparr>st_ownership := AList.update pod d (st_ownership st)\<rparr> | _ \<Rightarrow> st)"

definition release :: "store \<Rightarrow> string \<Rightarrow> store" where
  "release st pod = st\<lparr>st_ownership := AList.delete pod (st_ownership st)\<rparr>"

definition ownership :: "store \<Rightarrow> string \<Rightarrow> dict option" where
  "ownership st pod = map_of (st_ownership st) pod"

definition save_run :: "store \<Rightarrow> dict \<Rightarrow> store result" where
  "save_run st record =
     bindR (dict_item record ''run_id'') (\<lambda>ident.
       case ident of
         JStr run \<Rightarrow>
           bindR (case map_of (st_runs st) run of
                    None \<Rightarrow> Inr ()
                  | Some prior \<Rightarrow> ensure (dget prior ''execution_status'' = JStr ''running'') (EmosaError PRECONDITION_FAILED))
             (\<lambda>_. case redact (JDict record) of
                    JDict d \<Rightarrow> Inr (st\<lparr>st_runs := AList.update run d (st_runs st)\<rparr>)
                  | _ \<Rightarrow> Inr st)
       | _ \<Rightarrow> Inl TypeError)"

definition store_run :: "store \<Rightarrow> string \<Rightarrow> dict result" where
  "store_run st run = (case map_of (st_runs st) run of None \<Rightarrow> Inl (EmosaError NOT_FOUND) | Some d \<Rightarrow> Inr d)"

section \<open>Redacted records\<close>

lemma redact_idem [simp]: "redact (redact v) = redact v"
  by (induction v) auto

lemma redact_dict: "\<exists>d'. redact (JDict d) = JDict d'"
  by simp

text \<open>The entries of the dictionaries of a value, at any depth.\<close>

fun entries :: "json \<Rightarrow> (string \<times> json) list" where
  "entries (JDict d) = d @ concat (map (\<lambda>(k, v). entries v) d)"
| "entries (JList xs) = concat (map entries xs)"
| "entries _ = []"

lemma redact_entries: "(k, v) \<in> set (entries (redact j)) \<Longrightarrow> k \<in> set SENSITIVE \<Longrightarrow> v = JStr ''[REDACTED]''"
proof (induction j)
  case (JDict d)
  then show ?case by (fastforce split: if_splits)
qed auto

section \<open>Numbered keys\<close>

definition key_base :: "string \<Rightarrow> string" where
  "key_base key = (let (base, mark, n) = rpartition key in if mark \<and> isdigit n then base else key)"

definition key_number :: "string \<Rightarrow> nat" where
  "key_number key = (let (base, mark, n) = rpartition key in if mark \<and> isdigit n then digits_int n else 0)"

lemma start_write_eq:
  "start_write (Some op) tag None =
     (if key_base (idempotency_key op) = tag then (Some op, None)
      else (None, Some (tag @ ''#'' @ int_digits (key_number (idempotency_key op) + 1))))"
  by (auto simp: start_write_def key_base_def key_number_def Let_def split: prod.splits)

lemma isdigit_no_mark: "isdigit s \<Longrightarrow> CHR ''#'' \<notin> set s"
  by (auto simp: isdigit_def list_all_iff isdigit_char_def)

lemma rpartition_mark: "CHR ''#'' \<notin> set n \<Longrightarrow> rpartition (base @ ''#'' @ n) = (base, True, n)"
proof -
  assume n: "CHR ''#'' \<notin> set n"
  have "takeWhile (\<lambda>c. c \<noteq> CHR ''#'') (rev n @ [CHR ''#''] @ rev base) = rev n"
    using n by (subst takeWhile_append2) auto
  then show ?thesis by (simp add: rpartition_def)
qed

lemma numbered_key: "key_base (tag @ ''#'' @ int_digits n) = tag" "key_number (tag @ ''#'' @ int_digits n) = n"
  using rpartition_mark [OF isdigit_no_mark [OF isdigit_int_digits]] by (simp_all add: key_base_def key_number_def)

text \<open>The keys written for a sequence of wanted configurations, each write becoming the latest operation.\<close>

fun write_keys :: "(string \<Rightarrow> operation) \<Rightarrow> operation option \<Rightarrow> string list \<Rightarrow> string list" where
  "write_keys mk latest [] = []"
| "write_keys mk latest (tag # tags) =
     (case start_write latest tag None of
        (_, Some key) \<Rightarrow> key # write_keys mk (Some (mk key)) tags
      | _ \<Rightarrow> write_keys mk latest tags)"

lemma write_keys_later:
  assumes "\<And>k. idempotency_key (mk k) = k"
  shows "length (write_keys mk (Some op) tags) + 1 = length (remdups_adj (key_base (idempotency_key op) # tags)) \<and>
    map key_number (write_keys mk (Some op) tags) =
      [key_number (idempotency_key op) + 1..<key_number (idempotency_key op) + 1 + length (write_keys mk (Some op) tags)]"
proof (induction tags arbitrary: op)
  case (Cons tag tags)
  let ?n = "key_number (idempotency_key op)" and ?key = "tag @ ''#'' @ int_digits (key_number (idempotency_key op) + 1)"
  show ?case
  proof (cases "key_base (idempotency_key op) = tag")
    case True
    with Cons.IH [of op] show ?thesis by (simp add: start_write_eq)
  next
    case False
    have "write_keys mk (Some op) (tag # tags) = ?key # write_keys mk (Some (mk ?key)) tags"
      using False by (simp add: start_write_eq)
    moreover have "length (remdups_adj (tag # tags)) = length (write_keys mk (Some (mk ?key)) tags) + 1"
      "map key_number (write_keys mk (Some (mk ?key)) tags) = [?n + 2..<?n + 2 + length (write_keys mk (Some (mk ?key)) tags)]"
      using Cons.IH [of "mk ?key"] by (simp_all add: assms numbered_key [simplified])
    ultimately show ?thesis
      using False by (simp add: numbered_key [simplified] upt_conv_Cons del: upt_Suc)
  qed
qed simp

lemma rpartition_shorter: "rpartition s = (base, True, n) \<Longrightarrow> length base < length s"
  by (cases s) (auto simp: rpartition_def Let_def split: if_splits)

lemma plain_number: "key_base tag = tag \<Longrightarrow> key_number tag = 0"
  using rpartition_shorter [of tag] by (auto simp: key_base_def key_number_def split: prod.splits if_splits)

lemma write_keys_first:
  assumes "\<And>k. idempotency_key (mk k) = k" "\<forall>tag \<in> set tags. key_base tag = tag"
  shows "length (write_keys mk None tags) = length (remdups_adj tags) \<and> distinct (write_keys mk None tags)"
proof (cases tags)
  case (Cons tag ts)
  then have base: "key_base tag = tag" using assms(2) by simp
  have w: "write_keys mk None tags = tag # write_keys mk (Some (mk tag)) ts" by (simp add: Cons start_write_def)
  have "map key_number (write_keys mk (Some (mk tag)) ts) = [1..<1 + length (write_keys mk (Some (mk tag)) ts)]"
    using conjunct2 [OF write_keys_later [OF assms(1), of "mk tag" ts]] by (simp add: assms(1) plain_number [OF base] del: upt_Suc)
  then have "map key_number (write_keys mk None tags) = [0..<length (write_keys mk None tags)]"
    unfolding w by (simp add: assms(1) plain_number [OF base] upt_conv_Cons del: upt_Suc)
  then have "distinct (write_keys mk None tags)" by (metis distinct_map distinct_upt)
  then show ?thesis using write_keys_later [OF assms(1), of "mk tag" ts] unfolding w by (simp add: assms(1) base Cons)
qed simp

section \<open>Retention\<close>

lemma latest_reconciled_of:
  "map_of (latest_reconciled ops) pod =
     map_option operation_id (find (\<lambda>op. op_pod_id op = pod \<and> state op \<in> set RECONCILED) (rev ops))"
proof (induction ops rule: rev_induct)
  case (snoc op ops)
  then show ?case by (auto simp: latest_reconciled_def AList.update_conv')
qed (simp add: latest_reconciled_def)

lemma latest_reconciled_distinct: "distinct (map fst (latest_reconciled ops))"
proof (induction ops rule: rev_induct)
  case (snoc op ops)
  then show ?case by (auto simp: latest_reconciled_def intro: distinct_update)
qed (simp add: latest_reconciled_def)

text \<open>What the retention rule says of the \<open>i\<close>-th operation.\<close>

definition retained :: "operation list \<Rightarrow> nat \<Rightarrow> bool" where
  "retained ops i \<longleftrightarrow>
     length ops \<le> i + RETAINED_RECENT \<or> state (ops ! i) \<in> set ACTIVE \<or> holds_rows (ops ! i) \<or>
     (state (ops ! i) \<in> set RECONCILED \<and>
      (\<forall>j \<in> {i<..<length ops}. op_pod_id (ops ! j) = op_pod_id (ops ! i) \<longrightarrow> state (ops ! j) \<notin> set RECONCILED))"

lemma find_rev_nth:
  assumes "i < length xs" "distinct (map f xs)"
  shows "map_option f (find P (rev xs)) = Some (f (xs ! i)) \<longleftrightarrow> P (xs ! i) \<and> (\<forall>j \<in> {i<..<length xs}. \<not> P (xs ! j))"
  using assms
proof (induction xs rule: rev_induct)
  case (snoc x xs)
  show ?case
  proof (cases "i = length xs")
    case True
    have "f y \<noteq> f x" if "find P (rev xs) = Some y" for y
    proof -
      have "y \<in> set xs" using that by (auto simp: find_Some_iff dest: nth_mem) (metis length_rev nth_mem set_rev)
      moreover have "f x \<notin> f ` set xs" using snoc.prems(2) by simp
      ultimately show ?thesis by (metis imageI)
    qed
    with True show ?thesis by auto
  next
    case False
    then have i: "i < length xs" using snoc.prems by simp
    have up: "{i<..<length (xs @ [x])} = insert (length xs) {i<..<length xs}" using i by auto
    have "f x \<noteq> f (xs ! i)" using snoc.prems(2) i by (auto simp: image_iff)
    then show ?thesis using snoc i unfolding up by (auto simp: nth_append)
  qed
qed simp

lemma kept_iff_retained:
  assumes "i < length ops" "distinct (map operation_id ops)"
  shows "operation_id (ops ! i) \<in> set (kept_ids ops) \<longleftrightarrow> retained ops i"
proof -
  have inj: "operation_id (ops ! i) = operation_id (ops ! j) \<longleftrightarrow> i = j" if "j < length ops" for j
    using assms that by (metis length_map nth_eq_iff_index_eq nth_map)
  have mem: "operation_id (ops ! i) \<in> operation_id ` {x \<in> set ops. P x} \<longleftrightarrow> P (ops ! i)" for P
    using assms(1) inj by (auto simp: in_set_conv_nth)
  have recent: "operation_id (ops ! i) \<in> operation_id ` set (drop n ops) \<longleftrightarrow> n \<le> i" for n
  proof
    assume "operation_id (ops ! i) \<in> operation_id ` set (drop n ops)"
    then obtain k where "k < length (drop n ops)" "operation_id (ops ! i) = operation_id (drop n ops ! k)"
      by (auto simp: in_set_conv_nth)
    with inj [of "n + k"] show "n \<le> i" by auto
  next
    assume "n \<le> i"
    then have "ops ! i = drop n ops ! (i - n)" "i - n < length (drop n ops)" using assms(1) by auto
    then show "operation_id (ops ! i) \<in> operation_id ` set (drop n ops)" by (metis imageI nth_mem)
  qed
  have "operation_id (ops ! i) \<in> snd ` set (latest_reconciled ops) \<longleftrightarrow>
      (\<exists>pod. map_of (latest_reconciled ops) pod = Some (operation_id (ops ! i)))"
    using latest_reconciled_distinct [of ops] by (force simp: map_of_eq_Some_iff)
  also have "\<dots> \<longleftrightarrow> state (ops ! i) \<in> set RECONCILED \<and>
      (\<forall>j \<in> {i<..<length ops}. op_pod_id (ops ! j) = op_pod_id (ops ! i) \<longrightarrow> state (ops ! j) \<notin> set RECONCILED)"
    unfolding latest_reconciled_of find_rev_nth [OF assms] by auto
  finally show ?thesis
    using mem [of "\<lambda>op. state op \<in> set ACTIVE \<or> holds_rows op"] recent [of "length ops - RETAINED_RECENT"]
    unfolding kept_ids_def retained_def by (auto simp: image_Un)
qed

lemma filter_nth: "filter P xs = map (\<lambda>i. xs ! i) (filter (\<lambda>i. P (xs ! i)) [0..<length xs])"
proof -
  have "filter P (map (\<lambda>i. xs ! i) [0..<length xs]) = map (\<lambda>i. xs ! i) (filter (\<lambda>i. P (xs ! i)) [0..<length xs])"
    by (simp add: filter_map comp_def)
  then show ?thesis by (simp add: map_nth)
qed

lemma prune_operations:
  assumes "distinct (map operation_id (st_operations st))"
  shows "st_operations (prune st) =
    map (\<lambda>i. st_operations st ! i) (filter (retained (st_operations st)) [0..<length (st_operations st)])"
proof (cases "length (st_operations st) \<le> RETAINED_RECENT")
  case True
  then have "filter (retained (st_operations st)) [0..<length (st_operations st)] = [0..<length (st_operations st)]"
    by (intro filter_True) (simp add: retained_def)
  with True show ?thesis by (simp add: prune_def map_nth)
next
  case False
  have "filter (\<lambda>op. operation_id op \<in> set (kept_ids (st_operations st))) (st_operations st) =
      map (\<lambda>i. st_operations st ! i) (filter (retained (st_operations st)) [0..<length (st_operations st)])"
    unfolding filter_nth [of _ "st_operations st"] using kept_iff_retained [OF _ assms]
    by (intro arg_cong [of _ _ "map _"] filter_cong) auto
  with False show ?thesis by (simp add: prune_def Let_def)
qed

section \<open>The journal's integrity\<close>

definition run_events :: "store \<Rightarrow> string \<Rightarrow> int list" where
  "run_events st run = map ev_sequence (filter (\<lambda>ev. ev_run ev = run) (st_events st))"

text \<open>The unique key of an operation.\<close>

definition request_key :: "operation \<Rightarrow> string \<times> string \<times> string" where
  "request_key op = (request_source op, op_pod_id op, idempotency_key op)"

definition redacted_table :: "(string \<times> dict) list \<Rightarrow> bool" where
  "redacted_table al \<longleftrightarrow> (\<forall>(_, d) \<in> set al. redact (JDict d) = JDict d)"

definition store_ok :: "store \<Rightarrow> bool" where
  "store_ok st \<longleftrightarrow>
     distinct (map operation_id (st_operations st)) \<and> distinct (map request_key (st_operations st)) \<and>
     length (st_operations st) \<le> max_operations st \<and>
     1 \<le> max_events st \<and> (\<forall>run. \<exists>l h. run_events st run = [l..h] \<and> 1 \<le> l \<and> h - l < max_events st) \<and>
     (\<forall>ev \<in> set (st_events st). redact (ev_payload ev) = ev_payload ev) \<and>
     redacted_table (st_ownership st) \<and> redacted_table (st_runs st)"

lemma fold_max_upto: "1 \<le> l \<Longrightarrow> fold max [l..h] 0 = (if l \<le> h then h else 0)" for l h :: int
proof (induction "nat (h - l + 1)" arbitrary: h)
  case (Suc n)
  then have "l \<le> h" by simp
  moreover have "fold max [l..h - 1] 0 = (if l \<le> h - 1 then h - 1 else 0)" using Suc by simp
  ultimately show ?case using Suc.prems by (simp add: upto_rec2)
qed simp

lemma filter_upto: "filter (\<lambda>s. c < s) [l..h] = [max l (c + 1)..h]" for c l h :: int
proof (induction "nat (h - l + 1)" arbitrary: h)
  case (Suc n)
  then have "l \<le> h" by simp
  moreover have "filter (\<lambda>s. c < s) [l..h - 1] = [max l (c + 1)..h - 1]" using Suc by simp
  ultimately show ?case by (simp add: upto_rec2)
qed simp

lemma run_events_add:
  assumes "run_events st run = [l..h]" "1 \<le> l" "h - l < max_events st" "1 \<le> max_events st"
  shows "\<exists>l' h'. run_events (add_event st run ident pod phase payload) run = [l'..h'] \<and> 1 \<le> l' \<and> h' - l' < max_events st"
proof -
  let ?top = "fold max (run_events st run) 0"
  have "run_events (add_event st run ident pod phase payload) run =
      filter (\<lambda>s. ?top + 1 - max_events st < s) (run_events st run @ [?top + 1])"
    by (simp add: run_events_def add_event_def Let_def filter_map comp_def conj_commute not_le cong: conj_cong)
  also have "\<dots> = filter (\<lambda>s. ?top + 1 - max_events st < s) [if l \<le> h then l else 1..?top + 1]"
    using assms(2) unfolding assms(1) fold_max_upto [OF assms(2)] by (auto simp: upto_rec2 [of _ "h + 1"])
  finally have "run_events (add_event st run ident pod phase payload) run =
      [max (if l \<le> h then l else 1) (?top + 1 - max_events st + 1)..?top + 1]" by (simp add: filter_upto)
  moreover have "?top = (if l \<le> h then h else 0)" unfolding assms(1) by (rule fold_max_upto [OF assms(2)])
  ultimately show ?thesis
    using assms(2-4) by (intro exI [of _ "max (if l \<le> h then l else 1) (?top + 1 - max_events st + 1)"] exI [of _ "?top + 1"]) auto
qed

lemma run_events_other: "run' \<noteq> run \<Longrightarrow> run_events (add_event st run ident pod phase payload) run' = run_events st run'"
  by (simp add: run_events_def add_event_def Let_def) (intro arg_cong [of _ _ "map _"] filter_cong; auto)

lemma add_event_ok: "store_ok st \<Longrightarrow> store_ok (add_event st run ident pod phase payload)"
proof -
  assume ok: "store_ok st"
  have "\<exists>l h. run_events (add_event st run ident pod phase payload) run' = [l..h] \<and> 1 \<le> l \<and> h - l < max_events st" for run'
    using ok run_events_add [of st run] run_events_other [of run' run st] unfolding store_ok_def by (cases "run' = run") metis+
  then show ?thesis using ok by (auto simp: store_ok_def add_event_def Let_def)
qed

lemma distinct_map_filter: "distinct (map f xs) \<Longrightarrow> distinct (map f (filter P xs))"
  by (induction xs) auto

lemma prune_ok: "store_ok st \<Longrightarrow> store_ok (prune st)"
  by (auto simp: store_ok_def prune_def Let_def run_events_def distinct_map_filter intro: le_trans [OF length_filter_le])

lemma lookup_None: "lookup st source pod key = None \<longleftrightarrow> (source, pod, key) \<notin> set (map request_key (st_operations st))"
  by (auto simp: lookup_def find_None_iff request_key_def)

lemma add_eq_Inr:
  "add st op receipt = Inr st' \<longleftrightarrow> contract st op \<and>
     (case receipt of Some r \<Rightarrow> receipt_contract st r \<and> receipt_bound st op r = Inr () \<and> map_of (st_receipts st) (operation_id op) = None
      | None \<Rightarrow> initiating_interface op \<noteq> ''wsc-component'') \<and>
     length (st_operations st) < max_operations st \<and> operation_id op \<notin> set (map operation_id (st_operations st)) \<and>
     request_key op \<notin> set (map request_key (st_operations st)) \<and>
     st' = prune ((add_event (st\<lparr>st_operations := st_operations st @ [op]\<rparr>) (run_id op) (Some (operation_id op)) (Some (op_pod_id op))
         (state_value (state op)) [])\<lparr>st_receipts := st_receipts st @ (case receipt of Some r \<Rightarrow> [(operation_id op, r)] | None \<Rightarrow> [])\<rparr>)"
  by (cases receipt) (auto simp: add_def Let_def bindR_unit bindR_eq_Inr ensure_def lookup_None request_key_def add_event_def split: if_splits)

lemma add_ok: "store_ok st \<Longrightarrow> add st op receipt = Inr st' \<Longrightarrow> store_ok st'"
proof -
  assume ok: "store_ok st" and add: "add st op receipt = Inr st'"
  let ?st = "st\<lparr>st_operations := st_operations st @ [op]\<rparr>"
  from add have new: "operation_id op \<notin> set (map operation_id (st_operations st))" "request_key op \<notin> set (map request_key (st_operations st))"
    "length (st_operations st) < max_operations st" unfolding add_eq_Inr by auto
  have "store_ok ?st" using ok new by (auto simp: store_ok_def run_events_def)
  then have "store_ok (add_event ?st (run_id op) (Some (operation_id op)) (Some (op_pod_id op)) (state_value (state op)) [])"
    by (rule add_event_ok)
  then have "store_ok ((add_event ?st (run_id op) (Some (operation_id op)) (Some (op_pod_id op)) (state_value (state op)) [])\<lparr>st_receipts := rs\<rparr>)" for rs
    by (auto simp: store_ok_def run_events_def)
  with add show ?thesis unfolding add_eq_Inr using prune_ok by blast
qed

text \<open>A save of an operation that was read from the journal keeps what identifies it.\<close>

definition same_request :: "store \<Rightarrow> operation \<Rightarrow> bool" where
  "same_request st op \<longleftrightarrow> (\<forall>p \<in> set (st_operations st). operation_id p = operation_id op \<longrightarrow> request_key p = request_key op)"

definition put_operation :: "operation \<Rightarrow> operation list \<Rightarrow> operation list" where
  "put_operation op ops = map (\<lambda>p. if operation_id p = operation_id op then op else p) ops"

lemma length_put_operation [simp]: "length (put_operation op ops) = length ops"
  by (simp add: put_operation_def)

lemma map_put_operation: "(\<And>p. p \<in> set ops \<Longrightarrow> operation_id p = operation_id op \<Longrightarrow> f p = f op) \<Longrightarrow> map f (put_operation op ops) = map f ops"
  by (auto simp: put_operation_def)

lemma save_eq_Inr:
  "save st op payload = Inr st' \<longleftrightarrow> contract st op \<and>
     st' = add_event (st\<lparr>st_operations := put_operation op (st_operations st)\<rparr>) (run_id op) (Some (operation_id op))
       (Some (op_pod_id op)) (state_value (state op)) (AList.merge [(''reason'', jstr (op_reason op))] payload)"
  by (auto simp: save_def ensure_def put_operation_def)

lemma save_ok: "store_ok st \<Longrightarrow> same_request st op \<Longrightarrow> save st op payload = Inr st' \<Longrightarrow> store_ok st'"
proof -
  assume ok: "store_ok st" and same: "same_request st op" and save: "save st op payload = Inr st'"
  have "map operation_id (put_operation op (st_operations st)) = map operation_id (st_operations st)"
    "map request_key (put_operation op (st_operations st)) = map request_key (st_operations st)"
    using same by (auto intro!: map_put_operation simp: same_request_def)
  then have "store_ok (st\<lparr>st_operations := put_operation op (st_operations st)\<rparr>)"
    using ok by (simp add: store_ok_def run_events_def)
  with save show ?thesis unfolding save_eq_Inr by (auto intro: add_event_ok)
qed

lemma find_unique: "distinct (map f xs) \<Longrightarrow> x \<in> set xs \<Longrightarrow> find (\<lambda>y. f y = f x) xs = Some x"
  by (induction xs) auto

lemma get_stored: "store_ok st \<Longrightarrow> op \<in> set (st_operations st) \<Longrightarrow> store_get st (operation_id op) = Inr op"
  using find_unique [of operation_id "st_operations st" op] by (simp add: store_ok_def store_get_def)

lemma get_in: "store_get st ident = Inr op \<Longrightarrow> op \<in> set (st_operations st) \<and> operation_id op = ident"
  by (auto simp: store_get_def find_Some_iff split: option.splits)

lemma lookup_in: "lookup st source pod key = Some op \<Longrightarrow> op \<in> set (st_operations st) \<and> request_key op = (source, pod, key)"
  by (auto simp: lookup_def find_Some_iff request_key_def)

lemma lookup_stored: "store_ok st \<Longrightarrow> op \<in> set (st_operations st) \<Longrightarrow> lookup st (request_source op) (op_pod_id op) (idempotency_key op) = Some op"
  using find_unique [of request_key "st_operations st" op] by (simp add: store_ok_def lookup_def request_key_def)

lemma recent_retained: "length ops \<le> i + RETAINED_RECENT \<Longrightarrow> retained ops i"
  by (simp add: retained_def)

text \<open>The operations of a journal after an operation is added: the new one last, an earlier one only if it is retained.\<close>

lemma add_operations:
  assumes "store_ok st" "add st op receipt = Inr st'"
  shows "st_operations st' = map (\<lambda>i. (st_operations st @ [op]) ! i)
      (filter (retained (st_operations st @ [op])) [0..<length (st_operations st)]) @ [op]"
proof -
  let ?ops = "st_operations st @ [op]"
  from assms have d: "distinct (map operation_id ?ops)" unfolding add_eq_Inr store_ok_def by auto
  have "st_operations st' = map (\<lambda>i. ?ops ! i) (filter (retained ?ops) [0..<length ?ops])"
    using assms(2) prune_operations [of "st'' \<lparr>st_operations := ?ops\<rparr>" for st''] d
      prune_operations [of "(add_event (st\<lparr>st_operations := ?ops\<rparr>) (run_id op) (Some (operation_id op)) (Some (op_pod_id op))
         (state_value (state op)) [])\<lparr>st_receipts := st_receipts st @ (case receipt of Some r \<Rightarrow> [(operation_id op, r)] | None \<Rightarrow> [])\<rparr>"]
    unfolding add_eq_Inr by (simp add: add_event_def Let_def)
  also have "\<dots> = map (\<lambda>i. ?ops ! i) (filter (retained ?ops) [0..<length (st_operations st)]) @ [op]"
    using recent_retained [of ?ops "length (st_operations st)"] by (simp add: RETAINED_RECENT_def)
  finally show ?thesis .
qed

lemma added_found:
  assumes "store_ok st" "add st op receipt = Inr st'"
  shows "store_get st' (operation_id op) = Inr op \<and>
    lookup st' (request_source op) (op_pod_id op) (idempotency_key op) = Some op"
proof -
  have "op \<in> set (st_operations st')" using add_operations [OF assms] by simp
  with add_ok [OF assms] show ?thesis by (simp add: get_stored lookup_stored)
qed

section \<open>The journal as a state machine\<close>

inductive store_step :: "store \<Rightarrow> store \<Rightarrow> bool" where
  step_add: "add st op receipt = Inr st' \<Longrightarrow> store_step st st'"
| step_save: "same_request st op \<Longrightarrow> save st op payload = Inr st' \<Longrightarrow> store_step st st'"
| step_event: "store_step st (store_event st run phase payload pod)"
| step_conflict: "store_step st (conflict st pod evidence)"
| step_release: "store_step st (release st pod)"
| step_save_run: "save_run st record = Inr st' \<Longrightarrow> store_step st st'"

definition store_init :: "store \<Rightarrow> bool" where
  "store_init st \<longleftrightarrow> st_operations st = [] \<and> st_events st = [] \<and> st_ownership st = [] \<and> st_receipts st = [] \<and>
     st_runs st = [] \<and> 1 \<le> max_events st"

lemma set_update_alist: "set (AList.update k v al) \<subseteq> insert (k, v) (set al)"
  by (induction al) auto

lemma set_delete_alist: "set (AList.delete k al) \<subseteq> set al"
  by (auto simp: AList.delete_eq)

lemma redacted_update: "redacted_table al \<Longrightarrow> redact (JDict e) = JDict d \<Longrightarrow> redacted_table (AList.update k d al)"
proof -
  assume al: "redacted_table al" and d: "redact (JDict e) = JDict d"
  have "redact (JDict d) = JDict d" using redact_idem [of "JDict e"] unfolding d .
  with al set_update_alist [of k d al] show ?thesis unfolding redacted_table_def by blast
qed

lemma redacted_delete: "redacted_table al \<Longrightarrow> redacted_table (AList.delete k al)"
  using set_delete_alist [of k al] unfolding redacted_table_def by blast

lemma save_run_updates:
  assumes "save_run st entry = Inr st'"
  shows "\<exists>run d. redact (JDict entry) = JDict d \<and> st' = st\<lparr>st_runs := AList.update run d (st_runs st)\<rparr>"
proof -
  obtain ident d where *: "dict_item entry ''run_id'' = Inr ident" "redact (JDict entry) = JDict d"
    using assms redact_dict [of entry] unfolding save_run_def bindR_eq_Inr by blast
  show ?thesis
    using assms unfolding save_run_def * by (cases ident) (auto simp: bindR_unit)
qed

lemma store_step_ok: "store_step st st' \<Longrightarrow> store_ok st \<Longrightarrow> store_ok st'"
proof (induction rule: store_step.induct)
  case (step_conflict st pod evidence)
  then show ?case
    by (auto simp: store_ok_def conflict_def run_events_def intro: redacted_update simp del: redact.simps split: json.splits)
next
  case (step_release st pod)
  then show ?case by (auto simp: store_ok_def release_def run_events_def intro: redacted_delete)
next
  case (step_save_run st entry st')
  then show ?case
    using save_run_updates [OF step_save_run(1)] by (auto simp: store_ok_def run_events_def intro: redacted_update simp del: redact.simps)
qed (auto simp: store_event_def intro: add_ok save_ok add_event_ok)

interpretation journal: state_invariant store_init store_step store_ok
proof
  fix st assume init: "store_init st"
  then have "run_events st run = [1..0]" for run by (simp add: store_init_def run_events_def)
  with init show "store_ok st" unfolding store_ok_def by (fastforce simp: store_init_def redacted_table_def)
qed (rule store_step_ok)


section \<open>Properties\<close>

text \<open>C10. Integrity of the journal: in every state it can reach from an empty one, identifiers and request keys
  (source, pod, idempotency key) are unique, the operation budget is kept, the events of a run are
  numbered without gaps and at most as many as configured, and no record it keeps of an event shows
  the value of a sensitive key at any depth.\<close>

theorem journal_integrity:
  assumes "reachable store_init store_step st"
  shows "distinct (map operation_id (st_operations st)) \<and>
    distinct (map (\<lambda>op. (request_source op, op_pod_id op, idempotency_key op)) (st_operations st)) \<and>
    length (st_operations st) \<le> max_operations st \<and>
    (\<forall>run. \<exists>first n. 1 \<le> first \<and> int n \<le> max_events st \<and>
       map ev_sequence (filter (\<lambda>ev. ev_run ev = run) (st_events st)) = [first..first + int n - 1]) \<and>
    (\<forall>ev \<in> set (st_events st). \<forall>(k, v) \<in> set (entries (ev_payload ev)). k \<in> set SENSITIVE \<longrightarrow> v = JStr ''[REDACTED]'')"
proof -
  have ok: "store_ok st" using assms by (rule journal.reachable_inv)
  have "\<exists>first n. 1 \<le> first \<and> int n \<le> max_events st \<and>
      map ev_sequence (filter (\<lambda>ev. ev_run ev = run) (st_events st)) = [first..first + int n - 1]" for run
  proof -
    obtain l h where *: "run_events st run = [l..h]" "1 \<le> l" "h - l < max_events st" "1 \<le> max_events st"
      using ok unfolding store_ok_def by blast
    then have "[l..h] = [l..l + int (nat (h - l + 1)) - 1]" by (cases "l \<le> h") auto
    with * show ?thesis unfolding run_events_def by (intro exI [of _ l] exI [of _ "nat (h - l + 1)"]) simp
  qed
  moreover have "v = JStr ''[REDACTED]''"
    if "ev \<in> set (st_events st)" "(k, v) \<in> set (entries (ev_payload ev))" "k \<in> set SENSITIVE" for ev k v
    using ok that redact_entries [of k v "ev_payload ev"] unfolding store_ok_def by metis
  ultimately show ?thesis using ok unfolding store_ok_def request_key_def [abs_def] by blast
qed

definition example_store :: store where
  "example_store = \<lparr>process_id = ''p'', max_operations = 100, max_events = 10, contract = \<lambda>op. operation_id op \<noteq> [],
     receipt_contract = \<lambda>_. True, st_operations = [], st_events = [], st_ownership = [], st_receipts = [], st_runs = []\<rparr>"

definition example_operation :: "string \<Rightarrow> operation" where
  "example_operation ident = Operation ident ''run'' ''cli'' ''semantic'' [(''pod_id'', JStr ''pod'')] ''f'' ident 0 0 30"

theorem journal_integrity_witness:
  "\<exists>st. add example_store (example_operation ''a'') None = Inr st \<and> length (st_operations st) \<le> 100 \<and>
     (\<exists>st'. save st ((example_operation ''a'')\<lparr>op_plan := None\<rparr>) [(''plan'', JDict [(''psk'', JStr ''secret'')])] = Inr st' \<and>
        distinct (map operation_id (st_operations st')))"
proof -
  let ?op = "example_operation ''a''" and ?payload = "[(''plan'', JDict [(''psk'', JStr ''secret'')])]"
  let ?st = "add_event (example_store\<lparr>st_operations := [?op]\<rparr>) ''run'' (Some ''a'') (Some ''pod'') ''REQUESTED'' []"
  have st: "add example_store ?op None = Inr ?st"
    by (simp add: add_eq_Inr prune_def RETAINED_RECENT_def example_store_def example_operation_def Operation_def op_pod_id_def pod_of_def add_event_def)
  have ops: "st_operations ?st = [?op]" "max_operations ?st = 100" "contract ?st (?op\<lparr>op_plan := None\<rparr>)"
    by (simp_all add: add_event_def Let_def example_store_def example_operation_def Operation_def)
  then obtain st' where st': "save ?st (?op\<lparr>op_plan := None\<rparr>) ?payload = Inr st'" by (simp add: save_eq_Inr)
  have "store_init example_store" by (simp add: store_init_def example_store_def)
  then have init: "reachable store_init store_step example_store" by (rule reachable_init)
  have r: "reachable store_init store_step ?st" using init step_add [OF st] by (rule reachable_step)
  have "same_request ?st (?op\<lparr>op_plan := None\<rparr>)"
    unfolding same_request_def ops by (simp add: request_key_def op_pod_id_def)
  then have "store_step ?st st'" using st' by (rule step_save)
  with r have r': "reachable store_init store_step st'" by (rule reachable_step)
  have "length (st_operations ?st) \<le> 100" using conjunct1 [OF conjunct2 [OF conjunct2 [OF journal_integrity [OF r]]]] ops(2) by simp
  moreover have "distinct (map operation_id (st_operations st'))" by (rule conjunct1 [OF journal_integrity [OF r']])
  ultimately show ?thesis using st st' by blast
qed

text \<open>C11. Retention is what the specification says: after pruning, the journal has, in order, exactly the
  operations that are among the sixteen most recent, or active, or still hold rows in their pod, or
  are their pod's latest one in a state reconciliation follows.\<close>

theorem retention_exact:
  assumes "distinct (map operation_id (st_operations st))"
  shows "st_operations (prune st) =
    map (\<lambda>i. st_operations st ! i) (filter (retained (st_operations st)) [0..<length (st_operations st)])"
  using assms by (rule prune_operations)

definition example_history :: store where
  "example_history = example_store\<lparr>st_operations :=
     map (\<lambda>n. (example_operation (int_digits n))\<lparr>state := (if n = 1 then OBSERVED_APPLIED else REJECTED)\<rparr>) [0..<18]\<rparr>"

theorem retention_exact_witness:
  "length (st_operations (prune example_history)) = 17"
proof -
  let ?ops = "st_operations example_history"
  have len: "length ?ops = 18" by (simp add: example_history_def)
  have nth: "?ops ! i = (example_operation (int_digits i))\<lparr>state := (if i = 1 then OBSERVED_APPLIED else REJECTED)\<rparr>" if "i < 18" for i
    using that by (simp add: example_history_def)
  have "inj int_digits" by (metis digits_int_digits injI)
  then have "distinct (map operation_id ?ops)"
    by (simp add: example_history_def example_operation_def Operation_def distinct_map inj_on_def inj_def comp_def)
  from retention_exact [OF this] have
    "st_operations (prune example_history) = map (\<lambda>i. ?ops ! i) (filter (retained ?ops) [0..<18])" unfolding len .
  moreover have "retained ?ops i \<longleftrightarrow> i \<noteq> 0" if "i < 18" for i
    using that by (auto simp: retained_def len nth RETAINED_RECENT_def ACTIVE_def RECONCILED_def holds_rows_def
        example_operation_def Operation_def dget_def)
  then have "filter (retained ?ops) [0..<18] = filter (\<lambda>i. i \<noteq> 0) [0..<18]" by (intro filter_cong) auto
  moreover have "length (filter (\<lambda>i :: nat. i \<noteq> 0) [0..<18]) = 17" by code_simp
  ultimately show ?thesis by simp
qed

text \<open>C12. One write per configuration change: when the configurations wanted one after the other on one start
  are each handed to the rule for the next write, a write is made exactly when the wanted
  configuration changes, going back to an earlier one included, and no two writes share a key.\<close>

theorem start_write_changes:
  assumes "\<And>k. idempotency_key (mk k) = k" "\<forall>tag \<in> set tags. key_base tag = tag"
  shows "length (write_keys mk None tags) = length (remdups_adj tags) \<and> distinct (write_keys mk None tags)"
  using assms by (rule write_keys_first)

theorem start_write_changes_witness:
  "length (write_keys example_operation None [''a'', ''a'', ''b'', ''a'']) = 3"
proof -
  have "idempotency_key (example_operation k) = k" for k by (simp add: example_operation_def Operation_def)
  moreover have "\<forall>tag \<in> set [''a'', ''a'', ''b'', ''a'']. key_base tag = tag" by (simp add: key_base_def rpartition_def)
  ultimately show ?thesis using start_write_changes [of example_operation "[''a'', ''a'', ''b'', ''a'']"] by simp
qed

end
