(* ===== verification/Engine.thy ===== *)
theory Engine
  imports Journal
begin

text \<open>
  The operation engine of \<open>emosa/reconcile.py\<close>: requests, execution against a pod, reconciliation with
  what the pod shows, recovery, cancellation and waiting. An engine operation is an action on the
  engine's state that returns or raises; the code between two awaits is one action, and a task
  suspended in \<open>execute\<close> is an entry of the state, so that everything else may run while it is
  suspended. What the awaited calls return or raise (the pod's snapshot, plan and submission, the WSC
  guard) are arguments, as are fresh identifiers; the clock readings are fields of the state. An intent
  is its record: what its type does to validate it and to compute its target, and the fingerprint of
  the vault, are fields of the engine.
\<close>

section \<open>Actions\<close>

type_synonym ('s, 'a) action = "'s \<Rightarrow> 's \<times> 'a result"

definition returnE :: "'a \<Rightarrow> ('s, 'a) action" where
  "returnE x e = (e, Inr x)"

definition raiseE :: "exn \<Rightarrow> ('s, 'a) action" where
  "raiseE x e = (e, Inl x)"

definition liftE :: "'a result \<Rightarrow> ('s, 'a) action" where
  "liftE r e = (e, r)"

definition bindE :: "('s, 'a) action \<Rightarrow> ('a \<Rightarrow> ('s, 'b) action) \<Rightarrow> ('s, 'b) action" where
  "bindE m f e = (case m e of (e', Inl x) \<Rightarrow> (e', Inl x) | (e', Inr y) \<Rightarrow> f y e')"

definition readE :: "('s \<Rightarrow> 'a) \<Rightarrow> ('s, 'a) action" where
  "readE f e = (e, Inr (f e))"

definition modifyE :: "('s \<Rightarrow> 's) \<Rightarrow> ('s, unit) action" where
  "modifyE f e = (f e, Inr ())"

fun eachE :: "('a \<Rightarrow> ('s, unit) action) \<Rightarrow> 'a list \<Rightarrow> ('s, unit) action" where
  "eachE f [] = returnE ()"
| "eachE f (x # xs) = bindE (f x) (\<lambda>_. eachE f xs)"

section \<open>Snapshots and results of a backend\<close>

record observation =
  obs_pod_id :: string
  resource_id :: string
  obs_values :: dict
  obs_source :: string
  backend_mode :: string
  session_generation :: int
  received_at :: string
  obs_fresh :: bool
  provenance :: string
  source_time :: "string option"
  revision :: int

definition satisfies :: "observation \<Rightarrow> dict \<Rightarrow> bool" where
  "satisfies obs target \<longleftrightarrow> obs_fresh obs \<and> (\<forall>(k, v) \<in> set target. map_of (obs_values obs) k = Some v)"

definition observation_dict :: "observation \<Rightarrow> dict" where
  "observation_dict obs =
     [(''pod_id'', JStr (obs_pod_id obs)), (''resource_id'', JStr (resource_id obs)), (''values'', JDict (obs_values obs)),
      (''source'', JStr (obs_source obs)), (''backend_mode'', JStr (backend_mode obs)),
      (''session_generation'', JInt (session_generation obs)), (''received_at'', JStr (received_at obs)),
      (''fresh'', JBool (obs_fresh obs)), (''provenance'', JStr (provenance obs)), (''source_time'', jstr (source_time obs)),
      (''revision'', JInt (revision obs))]"

record snapshot =
  sn_config :: dict
  observed :: observation
  ready :: bool
  generation :: int
  sn_schema_fingerprint :: string
  sn_instance :: "string option"

record submit_result =
  sr_status :: string
  sr_evidence :: dict
  sr_reason :: "string option"

section \<open>The engine's state\<close>

text \<open>Where a suspended \<open>execute\<close> waits.\<close>

datatype await = AtGuard | AtPlan | AtSnapshot | AtSecondGuard snapshot | AtSubmit

record task =
  tk_op :: operation
  tk_at :: await

record engine =
  en_store :: store
  en_backends :: "(string \<times> string option) list"
  en_validate :: "dict \<Rightarrow> unit result"
  en_target :: "dict \<Rightarrow> dict result"
  en_fingerprint :: "json \<Rightarrow> string"
  monotonic :: real
  utc :: real
  deadlines :: "(string \<times> real) list"
  busy :: "string list"
  quiesced :: bool
  instances :: "(string \<times> string) list"
  starts :: "(string \<times> real) list"
  last_observations :: "(string \<times> json) list"
  wsc_guards :: "string list"
  tasks :: "(string \<times> task) list"

definition Engine ::
  "store \<Rightarrow> (string \<times> string option) list \<Rightarrow> (dict \<Rightarrow> unit result) \<Rightarrow> (dict \<Rightarrow> dict result) \<Rightarrow> (json \<Rightarrow> string) \<Rightarrow> real \<Rightarrow> real \<Rightarrow> engine" where
  "Engine st backends validate target fingerprint now time =
     \<lparr>en_store = st, en_backends = backends, en_validate = validate, en_target = target, en_fingerprint = fingerprint,
      monotonic = now, utc = time, deadlines = [], busy = [], quiesced = False, instances = [], starts = [],
      last_observations = [], wsc_guards = [], tasks = []\<rparr>"

definition lift_store :: "(store \<Rightarrow> store result) \<Rightarrow> (engine, unit) action" where
  "lift_store f e = (case f (en_store e) of Inl x \<Rightarrow> (e, Inl x) | Inr st \<Rightarrow> (e\<lparr>en_store := st\<rparr>, Inr ()))"

text \<open>\<open>_save\<close>: the time of the update and of the first visit of the state, then the journal.\<close>

definition stamp :: "engine \<Rightarrow> operation \<Rightarrow> operation" where
  "stamp e op =
     (let op = op\<lparr>updated_at := utc e\<rparr>
      in case map_of (starts e) (operation_id op) of
           Some start \<Rightarrow>
             if state op \<notin> fst ` set (timings op)
             then op\<lparr>timings := timings op @ [(state op, monotonic e - start, process_id (en_store e))]\<rparr> else op
         | None \<Rightarrow> op)"

definition save_op :: "operation \<Rightarrow> dict \<Rightarrow> (engine, operation) action" where
  "save_op op payload =
     bindE (readE (\<lambda>e. stamp e op)) (\<lambda>op.
     bindE (lift_store (\<lambda>st. save st op payload)) (\<lambda>_. returnE op))"

section \<open>Starts of the pod's OpenSync\<close>

definition matches :: "dict \<Rightarrow> dict \<Rightarrow> bool" where
  "matches vals target \<longleftrightarrow> (\<forall>(k, v) \<in> set target. dget vals k = v)"

definition present :: "string option \<Rightarrow> bool" where
  "present s \<longleftrightarrow> s \<noteq> None \<and> s \<noteq> Some []"

definition evidence :: "snapshot \<Rightarrow> dict \<Rightarrow> dict" where
  "evidence snap extra =
     (let ev = AList.merge
        [(''fresh'', JBool (obs_fresh (observed snap))), (''predicate_satisfied'', JBool True),
         (''generation'', JInt (generation snap)), (''revision'', JInt (revision (observed snap))),
         (''received_at'', JStr (received_at (observed snap))), (''source'', JStr (obs_source (observed snap))),
         (''provenance'', JStr (provenance (observed snap)))] extra
      in if present (sn_instance snap) \<and> map_of ev ''instance'' = None
         then ev @ [(''instance'', jstr (sn_instance snap))] else ev)"

definition remember :: "string \<Rightarrow> snapshot \<Rightarrow> (engine, unit) action" where
  "remember pod snap = modifyE (\<lambda>e. case sn_instance snap of
     Some i \<Rightarrow> if i \<noteq> [] then e\<lparr>instances := AList.update pod i (instances e)\<rparr> else e | None \<Rightarrow> e)"

definition current_instance :: "engine \<Rightarrow> string \<Rightarrow> string option" where
  "current_instance e pod = map_of (instances e) pod"

text \<open>\<open>_owned\<close>: the recorded conflict, released when it was seen on an earlier start.\<close>

definition owned :: "string \<Rightarrow> string \<Rightarrow> (engine, dict option) action" where
  "owned pod run =
     bindE (readE (\<lambda>e. (ownership (en_store e) pod, current_instance e pod))) (\<lambda>(held, current).
       case held of
         None \<Rightarrow> returnE None
       | Some d \<Rightarrow>
           if d \<noteq> [] \<and> truthy (dget d ''instance'') \<and> present current \<and> dget d ''instance'' \<noteq> jstr current
           then bindE (lift_store (\<lambda>st. Inr (release st pod))) (\<lambda>_.
                bindE (if run = [] then returnE ()
                       else lift_store (\<lambda>st. Inr (store_event st run ''OWNERSHIP_RELEASED''
                         [(''reason'', JStr ''the pod's OpenSync started again''), (''instance'', jstr current)] None))) (\<lambda>_.
                  returnE None))
           else returnE (Some d))"

definition written_on_another_start :: "operation \<Rightarrow> string option \<Rightarrow> bool" where
  "written_on_another_start op current =
     (let a = dget (case application_evidence op of Some d \<Rightarrow> d | None \<Rightarrow> []) ''instance'';
          written = (if truthy a then a else dget (commit_evidence op) ''instance'')
      in truthy written \<and> present current \<and> written \<noteq> jstr current)"

definition settle_restarted :: "operation \<Rightarrow> string option \<Rightarrow> (engine, bool) action" where
  "settle_restarted op current =
     (if state op \<notin> set [CONFIG_COMMITTED, INDETERMINATE] then returnE False
      else if \<not> written_on_another_start op current then returnE False
      else bindE (liftE (transition op FAILED [])) (\<lambda>op.
           bindE (save_op (op\<lparr>op_reason := Some (reason_value NOT_READY)\<rparr>)
             [(''restarted'', JDict [(''instance'', jstr current)])]) (\<lambda>_. returnE True)))"

definition remapped :: "engine \<Rightarrow> operation \<Rightarrow> string \<Rightarrow> bool result" where
  "remapped e op pod =
     (case map_of (en_backends e) pod of
        None \<Rightarrow> Inl KeyError
      | Some mapping \<Rightarrow>
          let planned = dget (case op_plan op of Some d \<Rightarrow> d | None \<Rightarrow> []) ''mapping''
          in Inr (present mapping \<and> truthy planned \<and> planned \<noteq> jstr mapping))"

definition expired :: "operation \<Rightarrow> (engine, bool) action" where
  "expired op =
     bindE (modifyE (\<lambda>e. if map_of (deadlines e) (operation_id op) = None
       then e\<lparr>deadlines := AList.update (operation_id op) (monotonic e + max 0 (deadline_at op - utc e)) (deadlines e)\<rparr> else e)) (\<lambda>_.
     readE (\<lambda>e. case map_of (deadlines e) (operation_id op) of Some d \<Rightarrow> d \<le> monotonic e | None \<Rightarrow> False))"

section \<open>Requests\<close>

definition reject :: "operation \<Rightarrow> reason \<Rightarrow> (engine, operation) action" where
  "reject op code =
     bindE (liftE (transition op REJECTED [])) (\<lambda>op. save_op (op\<lparr>op_reason := Some (reason_value code)\<rparr>) [])"

text \<open>The admission of a stored request: what an earlier start wrote is settled first; a pod has one active
  operation.\<close>

definition admit :: "operation \<Rightarrow> (engine, operation) action" where
  "admit op =
     (let pod = op_pod_id op in
      bindE (readE (\<lambda>e. (current_instance e pod, operations (en_store e) None))) (\<lambda>(current, ops).
      bindE (eachE (\<lambda>p. if op_pod_id p = pod \<and> operation_id p \<noteq> operation_id op
               then bindE (settle_restarted p current) (\<lambda>_. returnE ()) else returnE ()) ops) (\<lambda>_.
      bindE (readE (\<lambda>e. quiesced e \<or> pod \<in> set (busy e) \<or>
          (\<exists>p \<in> set (operations (en_store e) None). op_pod_id p = pod \<and> state p \<in> set ACTIVE \<and> operation_id p \<noteq> operation_id op))) (\<lambda>refuse.
        if refuse then reject op BUSY
        else bindE (owned pod (run_id op)) (\<lambda>held.
          if held \<noteq> None \<and> held \<noteq> Some [] then reject op OWNERSHIP_CONFLICT_REASON else returnE op)))))"

text \<open>\<open>_request\<close>; \<open>ident\<close> is the new identifier.\<close>

definition request_internal ::
  "string \<Rightarrow> dict \<Rightarrow> string \<Rightarrow> string \<Rightarrow> string \<Rightarrow> real \<Rightarrow> string \<Rightarrow> dict option \<Rightarrow> (engine, operation) action" where
  "request_internal ident intent source key run deadline interface receipt =
     bindE (readE id) (\<lambda>e0.
     bindE (liftE (en_validate e0 intent)) (\<lambda>_.
     if interface \<noteq> ''semantic'' \<and> (interface \<noteq> ''wsc-component'' \<or> receipt = None)
     then raiseE (EmosaError MISSING_PREREQUISITE)
     else if source = [] \<or> key = [] \<or> length key > 128 \<or> \<not> (0 < deadline \<and> deadline \<le> 3600)
     then raiseE (EmosaError INVALID_INPUT)
     else if map_of (en_backends e0) (pod_of intent) = None then raiseE (EmosaError UNSUPPORTED_OPERATION)
     else bindE (liftE (en_target e0 intent)) (\<lambda>target.
     let fingerprint = en_fingerprint e0 (JDict (AList.update ''target'' (JDict target) intent)) in
     case lookup (en_store e0) source (pod_of intent) key of
       Some old \<Rightarrow> if intent_fingerprint old \<noteq> fingerprint then raiseE (EmosaError INVALID_INPUT) else returnE old
     | None \<Rightarrow>
         let op = Operation ident run source interface intent fingerprint key (utc e0) (utc e0) (utc e0 + deadline) in
         bindE (lift_store (\<lambda>st. add st op receipt)) (\<lambda>_.
         bindE (modifyE (\<lambda>e. e\<lparr>starts := AList.update ident (monotonic e) (starts e),
           deadlines := AList.update ident (monotonic e + deadline) (deadlines e)\<rparr>)) (\<lambda>_.
           admit op)))))"

definition request :: "string \<Rightarrow> dict \<Rightarrow> string \<Rightarrow> string \<Rightarrow> string \<Rightarrow> real \<Rightarrow> string \<Rightarrow> (engine, operation) action" where
  "request ident intent source key run deadline interface =
     (if interface \<noteq> ''semantic'' then raiseE (EmosaError MISSING_PREREQUISITE)
      else request_internal ident intent source key run deadline interface None)"

section \<open>Execution\<close>

text \<open>\<open>_check_wsc\<close> up to the guard: whether a guard has to be awaited.\<close>

definition check_wsc :: "engine \<Rightarrow> operation \<Rightarrow> bool result" where
  "check_wsc e op =
     (if initiating_interface op \<noteq> ''wsc-component'' then Inr False
      else case wsc_receipt (en_store e) (operation_id op) of
             None \<Rightarrow> Inl (EmosaError NOT_READY)
           | Some r \<Rightarrow> bindR (dict_item r ''process_id'') (\<lambda>process.
               if process \<noteq> JStr (process_id (en_store e)) \<or> operation_id op \<notin> set (wsc_guards e)
               then Inl (EmosaError NOT_READY) else Inr True))"

text \<open>The \<open>finally\<close> of \<open>execute\<close>, with what the body returned or raised.\<close>

definition leave :: "operation \<Rightarrow> operation result \<Rightarrow> (engine, operation option) action" where
  "leave op r e =
     (let e = e\<lparr>busy := removeAll (op_pod_id op) (busy e), tasks := AList.delete (operation_id op) (tasks e)\<rparr>
      in case store_get (en_store e) (operation_id op) of
           Inl x \<Rightarrow> (e, Inl x)
         | Inr p \<Rightarrow>
             ((if state p \<noteq> REQUESTED then e\<lparr>wsc_guards := removeAll (operation_id op) (wsc_guards e)\<rparr> else e),
              map_sum id Some r))"

definition leave_with :: "operation \<Rightarrow> (engine, operation) action \<Rightarrow> (engine, operation option) action" where
  "leave_with op m e = (let (e, r) = m e in leave op r e)"

text \<open>An exception while the operation is validated: the program's own rejects it.\<close>

definition failed_validation :: "operation \<Rightarrow> exn \<Rightarrow> (engine, operation option) action" where
  "failed_validation op x =
     leave_with op (case x of EmosaError code \<Rightarrow> reject op code | _ \<Rightarrow> raiseE x)"

definition suspend :: "operation \<Rightarrow> await \<Rightarrow> (engine, operation option) action" where
  "suspend op w = bindE (modifyE (\<lambda>e. e\<lparr>tasks := (operation_id op, \<lparr>tk_op = op, tk_at = w\<rparr>) # AList.delete (operation_id op) (tasks e)\<rparr>)) (\<lambda>_. returnE None)"

text \<open>\<open>plan\<close> up to the backend's own planning.\<close>

definition plan_checks :: "string \<Rightarrow> (engine, unit) action" where
  "plan_checks pod =
     bindE (readE en_backends) (\<lambda>backends.
     if map_of backends pod = None then raiseE (EmosaError UNSUPPORTED_OPERATION)
     else bindE (owned pod []) (\<lambda>held.
       if held \<noteq> None \<and> held \<noteq> Some [] then raiseE (EmosaError OWNERSHIP_CONFLICT_REASON) else returnE ()))"

definition start_plan :: "operation \<Rightarrow> (engine, operation option) action" where
  "start_plan op e =
     (case plan_checks (op_pod_id op) e of
        (e, Inl x) \<Rightarrow> failed_validation op x e
      | (e, Inr _) \<Rightarrow> suspend op AtPlan e)"

definition execute :: "string \<Rightarrow> (engine, operation option) action" where
  "execute ident =
     bindE (readE (\<lambda>e. e)) (\<lambda>e0.
     bindE (liftE (store_get (en_store e0) ident)) (\<lambda>op.
     if state op \<noteq> REQUESTED then returnE (Some op)
     else if op_pod_id op \<in> set (busy e0) then raiseE (EmosaError BUSY)
     else bindE (modifyE (\<lambda>e. e\<lparr>busy := op_pod_id op # busy e\<rparr>)) (\<lambda>_.
       if map_of (en_backends e0) (op_pod_id op) = None then leave op (Inl KeyError)
       else case check_wsc e0 op of
              Inl x \<Rightarrow> failed_validation op x
            | Inr True \<Rightarrow> suspend op AtGuard
            | Inr False \<Rightarrow> start_plan op)))"

text \<open>The code after the last await of the validation, up to the submission; the arguments are the identifiers
  of the attempt.\<close>

definition submit_start :: "operation \<Rightarrow> snapshot \<Rightarrow> string \<Rightarrow> string \<Rightarrow> (engine, operation option) action" where
  "submit_start op snap attempt_id transaction_id e =
     (case en_target e (op_intent op) of
        Inl x \<Rightarrow> leave op (Inl x) e
      | Inr target \<Rightarrow>
          if satisfies (observed snap) target \<and> matches (sn_config snap) target
          then let ev = evidence snap [(''observed_noop'', JBool True)]
               in leave_with op (bindE (liftE (transition op OBSERVED_APPLIED ev)) (\<lambda>op.
                    save_op (op\<lparr>op_changed := Some False, application_evidence := Some ev\<rparr>) [])) e
          else
            let attempt = [(''attempt_id'', JStr attempt_id), (''transaction_id'', JStr transaction_id),
                  (''session_generation'', JInt (generation snap)), (''prepared_at'', JReal (utc e))]
            in case bindE (liftE (transition (op\<lparr>attempts := attempts op @ [attempt]\<rparr>) SUBMITTED [])) (\<lambda>op.
                      save_op (op\<lparr>commit_evidence := [(''attribution'', JStr ''unknown'')]\<rparr>) [(''attempt'', JDict attempt)]) e of
                 (e, Inl x) \<Rightarrow> leave op (Inl x) e
               | (e, Inr op) \<Rightarrow> suspend op AtSubmit e)"

definition validated :: "operation \<Rightarrow> snapshot \<Rightarrow> string \<Rightarrow> string \<Rightarrow> (engine, operation option) action" where
  "validated op snap attempt_id transaction_id e =
     (case store_get (en_store e) (operation_id op) of
        Inl x \<Rightarrow> failed_validation op x e
      | Inr p \<Rightarrow>
          if state p \<noteq> REQUESTED then leave op (Inr p) e
          else case transition (op\<lparr>schema_fingerprint := Some (sn_schema_fingerprint snap)\<rparr>) VALIDATED [] of
                 Inl x \<Rightarrow> failed_validation op x e
               | Inr op \<Rightarrow>
                   (case save_op op [(''plan'', case op_plan op of Some d \<Rightarrow> JDict d | None \<Rightarrow> JNull)] e of
                      (e, Inl x) \<Rightarrow> failed_validation (stamp e op) x e
                    | (e, Inr op) \<Rightarrow> submit_start op snap attempt_id transaction_id e))"

text \<open>What runs when the awaited call of a suspended task returns or raises; nothing if no task waits there.\<close>

definition resume_guard :: "string \<Rightarrow> unit result \<Rightarrow> (engine, operation option) action" where
  "resume_guard ident r e =
     (case map_of (tasks e) ident of
        Some t \<Rightarrow> (if tk_at t = AtGuard then (case r of Inl x \<Rightarrow> failed_validation (tk_op t) x e | Inr _ \<Rightarrow> start_plan (tk_op t) e)
                   else (e, Inr None))
      | None \<Rightarrow> (e, Inr None))"

definition resume_plan :: "string \<Rightarrow> dict result \<Rightarrow> (engine, operation option) action" where
  "resume_plan ident r e =
     (case map_of (tasks e) ident of
        Some t \<Rightarrow> (if tk_at t = AtPlan then
                     (case r of Inl x \<Rightarrow> failed_validation (tk_op t) x e
                      | Inr d \<Rightarrow> suspend ((tk_op t)\<lparr>op_plan := Some d\<rparr>) AtSnapshot e)
                   else (e, Inr None))
      | None \<Rightarrow> (e, Inr None))"

definition resume_snapshot :: "string \<Rightarrow> snapshot result \<Rightarrow> string \<Rightarrow> string \<Rightarrow> (engine, operation option) action" where
  "resume_snapshot ident r attempt_id transaction_id e =
     (case map_of (tasks e) ident of
        Some t \<Rightarrow> (if tk_at t = AtSnapshot then
                     (case r of
                        Inl x \<Rightarrow> failed_validation (tk_op t) x e
                      | Inr snap \<Rightarrow>
                          let op = tk_op t; e = fst (remember (op_pod_id op) snap e)
                          in if \<not> ready snap then failed_validation op (EmosaError NOT_READY) e
                             else case check_wsc e op of
                                    Inl x \<Rightarrow> failed_validation op x e
                                  | Inr True \<Rightarrow> suspend op (AtSecondGuard snap) e
                                  | Inr False \<Rightarrow> validated op snap attempt_id transaction_id e)
                   else (e, Inr None))
      | None \<Rightarrow> (e, Inr None))"

definition resume_second_guard :: "string \<Rightarrow> unit result \<Rightarrow> string \<Rightarrow> string \<Rightarrow> (engine, operation option) action" where
  "resume_second_guard ident r attempt_id transaction_id e =
     (case map_of (tasks e) ident of
        Some t \<Rightarrow> (case tk_at t of
                     AtSecondGuard snap \<Rightarrow>
                       (case r of Inl x \<Rightarrow> failed_validation (tk_op t) x e
                        | Inr _ \<Rightarrow> validated (tk_op t) snap attempt_id transaction_id e)
                   | _ \<Rightarrow> (e, Inr None))
      | None \<Rightarrow> (e, Inr None))"

text \<open>\<open>_refused\<close>.\<close>

definition refused :: "operation \<Rightarrow> submit_result \<Rightarrow> operation" where
  "refused op r =
     (if dget (sr_evidence r) ''attribution'' = JStr ''reply'' \<and> truthy (dget (sr_evidence r) ''database_error'')
      then op\<lparr>commit_evidence := sr_evidence r\<rparr> else op)"

definition unknown_outcome :: "operation \<Rightarrow> operation result" where
  "unknown_outcome op = bindR (transition op INDETERMINATE []) (\<lambda>op. Inr (op\<lparr>op_reason := Some (reason_value OUTCOME_UNKNOWN)\<rparr>))"

definition submit_outcome :: "operation \<Rightarrow> submit_result result \<Rightarrow> (engine, operation) action" where
  "submit_outcome op r =
     (case r of
        Inl x \<Rightarrow>
          (case x of EmosaError _ \<Rightarrow> liftE (unknown_outcome op) | ConnectionError \<Rightarrow> liftE (unknown_outcome op)
           | TimeoutError \<Rightarrow> liftE (unknown_outcome op) | _ \<Rightarrow> raiseE x)
      | Inr res \<Rightarrow>
          if sr_status res = ''committed'' then
            bindE (liftE (transition op CONFIG_COMMITTED (sr_evidence res))) (\<lambda>op.
              returnE (op\<lparr>commit_evidence := sr_evidence res, op_changed := Some True\<rparr>))
          else if sr_status res = ''conflict'' then
            bindE (liftE (transition op OWNERSHIP_CONFLICT [])) (\<lambda>op.
            let op = refused (op\<lparr>op_reason := Some (reason_value OWNERSHIP_CONFLICT_REASON)\<rparr>) res in
            bindE (lift_store (\<lambda>st. Inr (conflict st (op_pod_id op)
              [(''operation_id'', JStr (operation_id op)), (''reason'', jstr (sr_reason res))]))) (\<lambda>_. returnE op))
          else if sr_status res = ''rejected'' then
            bindE (liftE (transition op FAILED [])) (\<lambda>op. returnE (refused (op\<lparr>op_reason := sr_reason res\<rparr>) res))
          else liftE (unknown_outcome op))"

definition resume_submit :: "string \<Rightarrow> submit_result result \<Rightarrow> (engine, operation option) action" where
  "resume_submit ident r e =
     (case map_of (tasks e) ident of
        Some t \<Rightarrow> (if tk_at t = AtSubmit
                   then leave_with (tk_op t) (bindE (submit_outcome (tk_op t) r) (\<lambda>op. save_op op [])) e
                   else (e, Inr None))
      | None \<Rightarrow> (e, Inr None))"

section \<open>Reconciliation\<close>

definition past_deadline :: "operation \<Rightarrow> bool \<Rightarrow> (operation \<times> bool) result" where
  "past_deadline op late =
     (if late \<and> state op \<in> set [CONFIG_COMMITTED, INDETERMINATE] then
        let (op, ch) = (if \<not> deadline_elapsed op
          then (op\<lparr>original_outcome := Some (state op), deadline_elapsed := True\<rparr>, True) else (op, False))
        in if state op = CONFIG_COMMITTED
           then bindR (transition op TIMED_OUT []) (\<lambda>op. Inr (op\<lparr>op_reason := Some (reason_value APPLY_TIMEOUT)\<rparr>, ch))
           else Inr (op, ch)
      else Inr (op, False))"

text \<open>\<open>json.dumps(..., sort_keys=True)\<close> of an observation, as the value with its keys in order.\<close>

fun string_le :: "string \<Rightarrow> string \<Rightarrow> bool" where
  "string_le [] _ = True"
| "string_le (_ # _) [] = False"
| "string_le (a # s) (b # t) = (let x = (of_char a :: nat); y = of_char b in x < y \<or> x = y \<and> string_le s t)"

fun insert_key :: "string \<times> json \<Rightarrow> dict \<Rightarrow> dict" where
  "insert_key kv [] = [kv]"
| "insert_key kv (x # xs) = (if string_le (fst kv) (fst x) then kv # x # xs else x # insert_key kv xs)"

fun sort_keys :: "json \<Rightarrow> json" where
  "sort_keys (JDict d) = JDict (foldr insert_key (map (\<lambda>(k, v). (k, sort_keys v)) d) [])"
| "sort_keys (JList xs) = JList (map sort_keys xs)"
| "sort_keys v = v"

definition signature :: "snapshot \<Rightarrow> json" where
  "signature snap = sort_keys (JDict
     [(''values'', JDict (obs_values (observed snap))), (''config'', JDict (sn_config snap)),
      (''generation'', JInt (generation snap)), (''fresh'', JBool (obs_fresh (observed snap)))])"

definition note_observation :: "string \<Rightarrow> snapshot \<Rightarrow> dict \<Rightarrow> operation \<Rightarrow> (engine, unit) action" where
  "note_observation pod snap target op =
     bindE (readE last_observations) (\<lambda>seen.
     if map_of seen (operation_id op) = Some (signature snap) then returnE ()
     else bindE (modifyE (\<lambda>e. e\<lparr>last_observations := AList.update (operation_id op) (signature snap) seen\<rparr>)) (\<lambda>_.
       lift_store (\<lambda>st. Inr (store_event st (run_id op) ''OBSERVATION''
         [(''operation_id'', JStr (operation_id op)), (''observation'', JDict (observation_dict (observed snap))),
          (''config'', JDict (sn_config snap)),
          (''desired_observed_diff'', JDict (map (\<lambda>(k, v). (k, JDict [(''desired'', v), (''observed'', dget (obs_values (observed snap)) k)]))
             (filter (\<lambda>(k, v). dget (obs_values (observed snap)) k \<noteq> v) target)))] (Some pod)))))"

definition time_out_unknown :: "snapshot \<Rightarrow> dict \<Rightarrow> operation \<Rightarrow> bool \<Rightarrow> (operation \<times> bool) result" where
  "time_out_unknown snap target op ch =
     (if ready snap \<and> state op = INDETERMINATE \<and> deadline_elapsed op \<and>
         \<not> (matches (sn_config snap) target \<and> obs_fresh (observed snap) \<and> satisfies (observed snap) target)
      then bindR (transition op TIMED_OUT []) (\<lambda>op. Inr (op\<lparr>op_reason := Some (reason_value APPLY_TIMEOUT)\<rparr>, True))
      else Inr (op, ch))"

definition lost_ownership :: "string \<Rightarrow> snapshot \<Rightarrow> operation \<Rightarrow> bool \<Rightarrow> (engine, operation \<times> bool) action" where
  "lost_ownership pod snap op ch =
     bindE (lift_store (\<lambda>st. Inr (conflict st pod
       ([(''operation_id'', JStr (operation_id op)), (''reason'', JStr ''owned configuration changed'')] @
        (if present (sn_instance snap) then [(''instance'', jstr (sn_instance snap))] else []))))) (\<lambda>_.
     bindE (liftE (if state op = CONFIG_COMMITTED then transition op OWNERSHIP_CONFLICT [] else Inr op)) (\<lambda>op.
       returnE (if op_reason op \<noteq> Some (reason_value OWNERSHIP_CONFLICT_REASON)
                then (op\<lparr>op_reason := Some (reason_value OWNERSHIP_CONFLICT_REASON)\<rparr>, True) else (op, ch))))"

definition applied_now :: "snapshot \<Rightarrow> operation \<Rightarrow> (operation \<times> bool) result" where
  "applied_now snap op =
     (let ev = evidence snap [];
          op = op\<lparr>application_evidence := Some ev\<rparr>;
          op = (if deadline_elapsed op then op\<lparr>late_resolution := Some ''applied_after_deadline''\<rparr> else op)
      in bindR (if state op \<noteq> TIMED_OUT then transition op OBSERVED_APPLIED ev else Inr op) (\<lambda>op.
         bindR (dict_item (commit_evidence op) ''attribution'') (\<lambda>attribution.
           Inr (if attribution = JStr ''unknown''
                then op\<lparr>application_evidence := Some (AList.update ''attribution'' (JStr ''current_condition_only'') ev)\<rparr>
                else op\<lparr>op_reason := if deadline_elapsed op then Some (reason_value APPLY_TIMEOUT) else None\<rparr>, True))))"

definition settle_observed :: "string \<Rightarrow> snapshot \<Rightarrow> dict \<Rightarrow> operation \<Rightarrow> bool \<Rightarrow> (engine, operation \<times> bool) action" where
  "settle_observed pod snap target op ch =
     (if \<not> (ready snap \<and> obs_fresh (observed snap)) then returnE (op, ch)
      else
        let config_matches = matches (sn_config snap) target; applied = satisfies (observed snap) target in
        bindE (readE (\<lambda>e. remapped e op pod)) (\<lambda>moved.
        bindE (liftE (if \<not> config_matches \<and> state op \<in> set [CONFIG_COMMITTED, OBSERVED_APPLIED, TIMED_OUT] \<and>
                         \<not> written_on_another_start op (sn_instance snap)
                      then bindR moved (\<lambda>m. Inr (\<not> m)) else Inr False)) (\<lambda>lost.
          if lost then lost_ownership pod snap op ch
          else if config_matches \<and> applied \<and> application_evidence op = None then liftE (applied_now snap op)
          else returnE (op, ch))))"

definition observe :: "string \<Rightarrow> snapshot \<Rightarrow> operation \<Rightarrow> bool \<Rightarrow> (engine, operation \<times> bool) action" where
  "observe pod snap op ch =
     bindE (readE (\<lambda>e. en_target e (op_intent op))) (\<lambda>target.
     case target of
       Inl (EmosaError _) \<Rightarrow>
         returnE (if \<not> blocked_for_resubmission op then (op\<lparr>blocked_for_resubmission := True\<rparr>, True) else (op, ch))
     | Inl x \<Rightarrow> raiseE x
     | Inr target \<Rightarrow>
         bindE (note_observation pod snap target op) (\<lambda>_.
         bindE (liftE (time_out_unknown snap target op ch)) (\<lambda>(op, ch). settle_observed pod snap target op ch)))"

definition reconcile_op :: "string \<Rightarrow> snapshot \<Rightarrow> operation list \<Rightarrow> operation \<Rightarrow> (engine, unit) action" where
  "reconcile_op pod snap later op =
     (if op_pod_id op \<noteq> pod \<or> state op \<notin> set [CONFIG_COMMITTED, INDETERMINATE, TIMED_OUT, OBSERVED_APPLIED] then returnE ()
      else if \<exists>p \<in> set later. op_pod_id p = pod \<and> state p \<in> set RECONCILED then returnE ()
      else bindE (settle_restarted op (sn_instance snap)) (\<lambda>settled.
        if settled then returnE ()
        else bindE (expired op) (\<lambda>late.
             bindE (liftE (past_deadline op late)) (\<lambda>(op, ch).
             bindE (observe pod snap op ch) (\<lambda>(op, ch).
               if ch then bindE (save_op op [(''observation'', JDict (observation_dict (observed snap)))]) (\<lambda>_. returnE ())
               else returnE ())))))"

fun reconcile_ops :: "string \<Rightarrow> snapshot \<Rightarrow> operation list \<Rightarrow> (engine, unit) action" where
  "reconcile_ops pod snap [] = returnE ()"
| "reconcile_ops pod snap (op # later) = bindE (reconcile_op pod snap later op) (\<lambda>_. reconcile_ops pod snap later)"

text \<open>\<open>reconcile\<close> after the snapshot was taken.\<close>

definition reconcile :: "string \<Rightarrow> snapshot \<Rightarrow> (engine, snapshot) action" where
  "reconcile pod snap =
     bindE (remember pod snap) (\<lambda>_.
     bindE (readE (\<lambda>e. operations (en_store e) None)) (\<lambda>ops.
     bindE (reconcile_ops pod snap ops) (\<lambda>_. returnE snap)))"

definition drifted :: "engine \<Rightarrow> string \<Rightarrow> snapshot \<Rightarrow> bool result" where
  "drifted e pod snap =
     (let ops = filter (\<lambda>op. op_pod_id op = pod) (operations (en_store e) None) in
      if ops = [] \<or> state (last ops) \<noteq> OBSERVED_APPLIED then Inr False
      else if \<not> ready snap then Inr False
      else case en_target e (op_intent (last ops)) of
             Inl (EmosaError _) \<Rightarrow> Inr False
           | Inl x \<Rightarrow> Inl x
           | Inr target \<Rightarrow> Inr (\<not> matches (sn_config snap) target))"

section \<open>Recovery, cancellation, waiting\<close>

definition recover_op :: "operation \<Rightarrow> (engine, unit) action" where
  "recover_op op =
     (if initiating_interface op = ''wsc-component'' \<and> state op = REQUESTED then
        bindE (liftE (transition op CANCELLED [])) (\<lambda>op.
        bindE (save_op op [(''recovery'', JStr ''unsent WSC component request; new exchange required'')]) (\<lambda>_. returnE ()))
      else if state op = SUBMITTED then
        bindE (liftE (transition op INDETERMINATE [])) (\<lambda>op.
        bindE (save_op (op\<lparr>commit_evidence := [(''attribution'', JStr ''unknown'')], op_reason := Some (reason_value OUTCOME_UNKNOWN)\<rparr>)
          [(''recovery'', JStr ''possibly sent; observation required before action'')]) (\<lambda>_. returnE ()))
      else if state op = VALIDATED then
        bindE (liftE (transition op CANCELLED [])) (\<lambda>op.
        bindE (save_op op [(''recovery'', JStr ''unsent intent; explicit new request required'')]) (\<lambda>_. returnE ()))
      else returnE ())"

definition recover :: "(engine, unit) action" where
  "recover = bindE (readE (\<lambda>e. operations (en_store e) None)) (\<lambda>ops. eachE recover_op ops)"

definition cancel :: "string \<Rightarrow> (engine, operation) action" where
  "cancel ident =
     bindE (readE (\<lambda>e. store_get (en_store e) ident)) (\<lambda>r.
     bindE (liftE r) (\<lambda>op. bindE (liftE (transition op CANCELLED [])) (\<lambda>op. save_op op [])))"

text \<open>The loop of \<open>wait\<close>: \<open>poll i\<close> is what the journal and then the clock give in the \<open>i\<close>-th round.\<close>

partial_function (option) wait_loop :: "(nat \<Rightarrow> operation result \<times> real) \<Rightarrow> real \<Rightarrow> nat \<Rightarrow> operation result option" where
  "wait_loop poll stop i =
     (case poll i of
        (Inl x, _) \<Rightarrow> Some (Inl x)
      | (Inr op, now) \<Rightarrow>
          if state op \<notin> set ACTIVE then Some (Inr op)
          else if stop \<le> now then Some (Inl (EmosaError NOT_READY))
          else wait_loop poll stop (Suc i))"

definition wait :: "(nat \<Rightarrow> operation result \<times> real) \<Rightarrow> real \<Rightarrow> real \<Rightarrow> operation result option" where
  "wait poll start timeout = wait_loop poll (start + min (max timeout 0) 60) 0"

end
