(* ===== verification/Engine_Lifecycle.thy ===== *)
theory Engine_Lifecycle
  imports Engine
begin

text \<open>
  What the engine does to operations, whatever runs in what order: the specification machine of
  operations, the refinement of it by every operation of the engine, and its consequences.
\<close>

section \<open>The specification: what happens to operations\<close>

text \<open>An entry is an operation's identifier, pod and state.\<close>

type_synonym entry = "string \<times> string \<times> op_state"

inductive spec_step :: "entry list \<Rightarrow> entry list \<Rightarrow> bool" where
  spec_create: "i \<notin> fst ` set xs \<Longrightarrow> \<forall>(_, p, s) \<in> set xs. p = pod \<longrightarrow> s \<notin> set ACTIVE \<Longrightarrow> spec_step xs (xs @ [(i, pod, REQUESTED)])"
| spec_refuse: "i \<notin> fst ` set xs \<Longrightarrow> spec_step xs (xs @ [(i, pod, REJECTED)])"
| spec_advance: "t \<in> set (TRANSITIONS s) \<Longrightarrow> spec_step (xs @ [(i, pod, s)] @ ys) (xs @ [(i, pod, t)] @ ys)"
| spec_overwrite: "spec_step (xs @ [(i, pod, CANCELLED)] @ ys) (xs @ [(i, pod, REJECTED)] @ ys)"
| spec_forget: "s \<notin> set ACTIVE \<Longrightarrow> spec_step (xs @ [(i, pod, s)] @ ys) (xs @ ys)"

definition settled_after :: "entry \<Rightarrow> entry \<Rightarrow> bool" where
  "settled_after x y \<longleftrightarrow> (fst (snd x) = fst (snd y) \<and> snd (snd x) \<in> set ACTIVE \<longrightarrow> snd (snd y) = REJECTED)"

definition spec_ok :: "entry list \<Rightarrow> bool" where
  "spec_ok xs \<longleftrightarrow> distinct (map fst xs) \<and> sorted_wrt settled_after xs"

lemma active_transitions: "t \<in> set (TRANSITIONS s) \<Longrightarrow> s \<in> set ACTIVE \<and> s \<noteq> REJECTED"
  by (cases s) (auto simp: ACTIVE_def)

lemma spec_step_ok: "spec_step xs ys \<Longrightarrow> spec_ok xs \<Longrightarrow> spec_ok ys"
proof (induction rule: spec_step.induct)
  case (spec_create i xs pod)
  then show ?case by (auto simp: spec_ok_def sorted_wrt_append settled_after_def)
next
  case (spec_refuse i xs pod)
  then show ?case by (auto simp: spec_ok_def sorted_wrt_append settled_after_def)
next
  case (spec_advance t s xs i pod ys)
  then show ?case using active_transitions [OF spec_advance(1)]
    by (auto simp: spec_ok_def sorted_wrt_append settled_after_def)
next
  case (spec_overwrite xs i pod ys)
  then show ?case by (auto simp: spec_ok_def sorted_wrt_append settled_after_def ACTIVE_def)
next
  case (spec_forget s xs i pod ys)
  then show ?case by (auto simp: spec_ok_def sorted_wrt_append)
qed

lemma spec_steps_ok: "spec_step\<^sup>*\<^sup>* xs ys \<Longrightarrow> spec_ok xs \<Longrightarrow> spec_ok ys"
  by (induction rule: rtranclp_induct) (auto intro: spec_step_ok)

text \<open>The changes of state: the guarded transitions, and the one write that is not guarded.\<close>

definition edge :: "op_state \<Rightarrow> op_state \<Rightarrow> bool" where
  "edge s t \<longleftrightarrow> t \<in> set (TRANSITIONS s) \<or> s = CANCELLED \<and> t = REJECTED"

lemma spec_edges: "edge\<^sup>*\<^sup>* s t \<Longrightarrow> spec_step\<^sup>*\<^sup>* (xs @ [(i, pod, s)] @ ys) (xs @ [(i, pod, t)] @ ys)"
proof (induction rule: rtranclp_induct)
  case (step t u)
  then have "spec_step (xs @ [(i, pod, t)] @ ys) (xs @ [(i, pod, u)] @ ys)"
    using spec_advance spec_overwrite by (auto simp: edge_def)
  with step.IH show ?case by (rule rtranclp.rtrancl_into_rtrancl)
qed simp

section \<open>Steps of the engine\<close>

abbreviation ops :: "engine \<Rightarrow> operation list" where
  "ops e \<equiv> st_operations (en_store e)"

definition entry_of :: "operation \<Rightarrow> entry" where
  "entry_of op = (operation_id op, op_pod_id op, state op)"

definition entries_of :: "engine \<Rightarrow> entry list" where
  "entries_of e = map entry_of (ops e)"

text \<open>A later version of an operation.\<close>

definition advanced :: "operation \<Rightarrow> operation \<Rightarrow> bool" where
  "advanced op op' \<longleftrightarrow> operation_id op' = operation_id op \<and> request_key op' = request_key op \<and> edge\<^sup>*\<^sup>* (state op) (state op')"

lemma advanced_refl [simp]: "advanced op op"
  by (simp add: advanced_def)

lemma advanced_trans: "advanced op op' \<Longrightarrow> advanced op' op'' \<Longrightarrow> advanced op op''"
  unfolding advanced_def by (metis rtranclp_trans)

lemma spec_advanced: "list_all2 advanced xs ys \<Longrightarrow> spec_step\<^sup>*\<^sup>* (zs @ map entry_of xs) (zs @ map entry_of ys)"
proof (induction xs ys arbitrary: zs rule: list_all2_induct)
  case (Cons x xs y ys)
  then have "spec_step\<^sup>*\<^sup>* (zs @ [entry_of x] @ map entry_of xs) (zs @ [entry_of y] @ map entry_of xs)"
    using spec_edges [of "state x" "state y" zs "operation_id x" "op_pod_id x" "map entry_of xs"]
    by (simp add: advanced_def entry_of_def request_key_def)
  moreover have "spec_step\<^sup>*\<^sup>* (zs @ [entry_of y] @ map entry_of xs) (zs @ [entry_of y] @ map entry_of ys)"
    using Cons.IH [of "zs @ [entry_of y]"] by simp
  ultimately show ?case by simp
qed simp

text \<open>How an action may change the journal, when it only touches stored operations that satisfy \<open>Q\<close>.\<close>

definition touches :: "(operation \<Rightarrow> bool) \<Rightarrow> operation list \<Rightarrow> operation list \<Rightarrow> bool" where
  "touches Q xs ys \<longleftrightarrow>
     (\<forall>p \<in> set xs. \<not> Q p \<longrightarrow> p \<in> set ys) \<and>
     (\<forall>p \<in> set ys. p \<in> set xs \<or> (\<exists>q \<in> set xs. operation_id q = operation_id p \<and> Q q \<and> request_key q = request_key p))"

text \<open>The journal with every record accepted by the schema, and what only a few operations change.\<close>

definition journal_ok :: "store \<Rightarrow> bool" where
  "journal_ok st \<longleftrightarrow> store_ok st \<and> list_all (contract st) (st_operations st)"

definition still :: "engine \<Rightarrow> engine \<Rightarrow> bool" where
  "still e e' \<longleftrightarrow> contract (en_store e') = contract (en_store e) \<and> process_id (en_store e') = process_id (en_store e) \<and>
     tasks e' = tasks e \<and> busy e' = busy e \<and> starts e' = starts e \<and> monotonic e' = monotonic e \<and>
     en_validate e' = en_validate e \<and> en_target e' = en_target e \<and> en_fingerprint e' = en_fingerprint e \<and> en_backends e' = en_backends e"

definition evolves :: "(operation \<Rightarrow> bool) \<Rightarrow> engine \<Rightarrow> engine \<Rightarrow> bool" where
  "evolves Q e e' \<longleftrightarrow> (journal_ok (en_store e) \<longrightarrow>
     journal_ok (en_store e') \<and> list_all2 advanced (ops e) (ops e') \<and> touches Q (ops e) (ops e') \<and> still e e')"

lemma still_refl [simp]: "still e e"
  by (simp add: still_def)

lemma touches_refl [simp]: "touches Q xs xs"
  by (simp add: touches_def)

lemma touches_trans: "touches Q xs ys \<Longrightarrow> touches Q ys zs \<Longrightarrow> touches Q xs zs"
  unfolding touches_def by (intro conjI ballI impI) (blast, metis)

lemma evolves_refl [simp]: "evolves Q e e"
  by (simp add: evolves_def list_all2_refl)

lemma list_advanced_trans: "list_all2 advanced xs ys \<Longrightarrow> list_all2 advanced ys zs \<Longrightarrow> list_all2 advanced xs zs"
  by (rule list_all2_trans [of advanced advanced advanced]) (rule advanced_trans)

lemma evolves_trans:
  assumes "evolves Q e e'" "evolves Q e' e''"
  shows "evolves Q e e''"
proof (cases "journal_ok (en_store e)")
  case True
  note one = assms(1) [unfolded evolves_def, rule_format, OF True]
  note two = assms(2) [unfolded evolves_def, rule_format, OF conjunct1 [OF one]]
  have "list_all2 advanced (ops e) (ops e'')" using one two by (blast intro: list_advanced_trans)
  moreover have "touches Q (ops e) (ops e'')" using one two by (blast intro: touches_trans)
  moreover have "still e e''" using one two by (simp add: still_def)
  ultimately show ?thesis using two by (simp add: evolves_def)
qed (simp add: evolves_def)

lemma evolves_bind:
  assumes "evolves Q e (fst (m e))" "\<And>e' y. m e = (e', Inr y) \<Longrightarrow> evolves Q e' (fst (f y e'))"
  shows "evolves Q e (fst (bindE m f e))"
proof (cases "m e")
  case (Pair e' r)
  with assms show ?thesis by (cases r) (auto simp: bindE_def intro: evolves_trans)
qed

lemma run_bind [simp]:
  "bindE (readE f) k e = k (f e) e" "bindE (returnE x) k2 e = k2 x e" "bindE (raiseE y) k3 e = (e, Inl y)"
  "bindE (modifyE g) k4 e = k4 () (g e)" "bindE (liftE (Inr z)) k5 e = k5 z e" "bindE (liftE (Inl y)) k6 e = (e, Inl y)"
  by (simp_all add: bindE_def readE_def returnE_def raiseE_def modifyE_def liftE_def)

lemma evolves_same: "en_store e' = en_store e \<Longrightarrow> still e e' \<Longrightarrow> evolves Q e e'"
  by (simp add: evolves_def list_all2_refl)

lemma evolves_return [simp]: "evolves Q e (fst (returnE x e))" "evolves Q e (fst (raiseE y e))" "evolves Q e (fst (liftE r e))"
  "evolves Q e (fst (readE f e))"
  by (simp_all add: returnE_def raiseE_def liftE_def readE_def)

lemma evolves_lift_store:
  assumes "\<And>st. f (en_store e) = Inr st \<Longrightarrow> store_step (en_store e) st \<and> st_operations st = ops e \<and> contract st = contract (en_store e) \<and>
      process_id st = process_id (en_store e)"
  shows "evolves Q e (fst (lift_store f e))"
proof (cases "f (en_store e)")
  case (Inr st)
  with assms [OF Inr] store_step_ok [of "en_store e" st] show ?thesis
    by (simp add: lift_store_def evolves_def list_all2_refl journal_ok_def still_def)
qed (simp add: lift_store_def)

lemma store_fields [simp]:
  "st_operations (store_event st run phase payload pod) = st_operations st" "contract (store_event st run phase payload pod) = contract st"
  "st_operations (conflict st pod' info) = st_operations st" "contract (conflict st pod' info) = contract st"
  "st_operations (release st pod') = st_operations st" "contract (release st pod') = contract st"
  "process_id (store_event st run phase payload pod) = process_id st" "process_id (conflict st pod' info) = process_id st"
  "process_id (release st pod') = process_id st"
  by (simp_all add: store_event_def add_event_def Let_def conflict_def release_def)

lemma evolves_store [simp]:
  "evolves Q e (fst (lift_store (\<lambda>st. Inr (store_event st run phase payload pod)) e))"
  "evolves Q e (fst (lift_store (\<lambda>st. Inr (conflict st pod' info)) e))"
  "evolves Q e (fst (lift_store (\<lambda>st. Inr (release st pod')) e))"
  by (rule evolves_lift_store; auto intro: store_step.intros)+

lemma stamp_fields [simp]:
  "operation_id (stamp e op) = operation_id op" "state (stamp e op) = state op" "op_intent (stamp e op) = op_intent op"
  "request_key (stamp e op) = request_key op" "op_pod_id (stamp e op) = op_pod_id op" "run_id (stamp e op) = run_id op" "attempts (stamp e op) = attempts op"
  "intent_fingerprint (stamp e op) = intent_fingerprint op"
  by (auto simp: stamp_def Let_def request_key_def op_pod_id_def split: option.splits)

text \<open>A write of an operation along the edges, if it is stored.\<close>

definition writes :: "engine \<Rightarrow> operation \<Rightarrow> bool" where
  "writes e op \<longleftrightarrow> (\<forall>p \<in> set (ops e). operation_id p = operation_id op \<longrightarrow> advanced p op)"

lemma unique_stored: "store_ok (en_store e) \<Longrightarrow> p \<in> set (ops e) \<Longrightarrow> q \<in> set (ops e) \<Longrightarrow> operation_id p = operation_id q \<Longrightarrow> p = q"
  using get_stored [of "en_store e" p] get_stored [of "en_store e" q] by (metis sum.inject(2))

lemma put_operation_split:
  assumes "distinct (map operation_id (xs @ [p] @ ys))" "operation_id p = operation_id op"
  shows "put_operation op (xs @ [p] @ ys) = xs @ [op] @ ys"
proof -
  have "operation_id p \<notin> operation_id ` (set xs \<union> set ys)" using assms(1) by auto
  then have "operation_id q \<noteq> operation_id op" if "q \<in> set xs \<union> set ys" for q
    using assms(2) that by (metis imageI)
  then have "map (\<lambda>p. if operation_id p = operation_id op then op else p) xs = xs"
    "map (\<lambda>p. if operation_id p = operation_id op then op else p) ys = ys" by (auto intro: map_idI)
  then show ?thesis using assms(2) by (simp add: put_operation_def)
qed

lemma evolves_put:
  assumes w: "writes e op" and Q: "\<And>p. p \<in> set (ops e) \<Longrightarrow> operation_id p = operation_id op \<Longrightarrow> Q p"
  shows "list_all2 advanced (ops e) (put_operation op (ops e)) \<and> touches Q (ops e) (put_operation op (ops e)) \<and> same_request (en_store e) op"
proof -
  have "list_all2 advanced (ops e) (put_operation op (ops e))"
    using w by (simp add: put_operation_def list_all2_map2 list_all2_same writes_def)
  moreover have "touches Q (ops e) (put_operation op (ops e))"
    using w Q by (force simp: touches_def put_operation_def writes_def advanced_def)
  moreover have "same_request (en_store e) op"
    using w by (simp add: same_request_def writes_def advanced_def)
  ultimately show ?thesis by blast
qed

lemma put_operation_all: "list_all P xs \<Longrightarrow> P op \<Longrightarrow> list_all P (put_operation op xs)"
  by (auto simp: list_all_iff put_operation_def)

lemma save_fields:
  assumes "save st op payload = Inr st'"
  shows "contract st op \<and> st_operations st' = put_operation op (st_operations st) \<and> contract st' = contract st \<and> process_id st' = process_id st"
  using assms by (auto simp: save_eq_Inr add_event_def Let_def)

lemma save_op_run:
  "save_op op payload e = (case save (en_store e) (stamp e op) payload of
     Inl x \<Rightarrow> (e, Inl x) | Inr st \<Rightarrow> (e\<lparr>en_store := st\<rparr>, Inr (stamp e op)))"
  by (simp add: save_op_def lift_store_def bindE_def [of "lift_store _"] returnE_def split: sum.split)

lemma evolves_save:
  assumes "journal_ok (en_store e) \<Longrightarrow> writes e op"
    and "\<And>p. journal_ok (en_store e) \<Longrightarrow> p \<in> set (ops e) \<Longrightarrow> operation_id p = operation_id op \<Longrightarrow> Q p"
  shows "evolves Q e (fst (save_op op payload e))"
proof (cases "journal_ok (en_store e) \<and> (\<exists>st. save (en_store e) (stamp e op) payload = Inr st)")
  case True
  let ?op = "stamp e op"
  obtain st where st: "save (en_store e) ?op payload = Inr st" using True by blast
  have ok: "store_ok (en_store e)" using True by (simp add: journal_ok_def)
  have "writes e ?op" using assms(1) True by (simp add: writes_def advanced_def)
  then have put: "list_all2 advanced (ops e) (put_operation ?op (ops e))" "touches Q (ops e) (put_operation ?op (ops e))" "same_request (en_store e) ?op"
    using evolves_put [of e ?op Q] assms(2) True by auto
  have "journal_ok st"
    using True save_ok [OF ok put(3) st] save_fields [OF st] by (simp add: journal_ok_def put_operation_all)
  with put save_fields [OF st] show ?thesis by (simp add: evolves_def save_op_run st still_def)
next
  case False
  then show ?thesis by (cases "save (en_store e) (stamp e op) payload") (auto simp: save_op_run evolves_def)
qed

text \<open>The parts of the operations.\<close>

lemma evolves_owned: "evolves Q e (fst (owned pod run e))"
  unfolding owned_def
  by (rule evolves_bind, simp, simp split: prod.splits option.splits, intro allI impI conjI)
    (auto intro!: evolves_bind)

lemma edge_transition: "transition op t ev = Inr op' \<Longrightarrow> edge (state op) (state op') \<and> operation_id op' = operation_id op \<and>
    request_key op' = request_key op \<and> state op' = t"
  by (auto simp: edge_def request_key_def op_pod_id_def dest!: transition_target)

lemma request_key_update [simp]:
  "request_key (op\<lparr>op_reason := a\<rparr>) = request_key op" "request_key (op\<lparr>state := s\<rparr>) = request_key op"
  "request_key (op\<lparr>commit_evidence := b\<rparr>) = request_key op" "request_key (op\<lparr>application_evidence := c\<rparr>) = request_key op"
  "request_key (op\<lparr>op_changed := d\<rparr>) = request_key op" "request_key (op\<lparr>attempts := f\<rparr>) = request_key op"
  "request_key (op\<lparr>schema_fingerprint := g\<rparr>) = request_key op" "request_key (op\<lparr>op_plan := h\<rparr>) = request_key op"
  "request_key (op\<lparr>original_outcome := i\<rparr>) = request_key op" "request_key (op\<lparr>deadline_elapsed := j\<rparr>) = request_key op"
  "request_key (op\<lparr>late_resolution := k\<rparr>) = request_key op" "request_key (op\<lparr>blocked_for_resubmission := l\<rparr>) = request_key op"
  by (simp_all add: request_key_def op_pod_id_def)

lemma advanced_transition: "transition op t ev = Inr op' \<Longrightarrow> advanced op op'"
  using edge_transition [of op t ev op'] by (auto simp: advanced_def)

lemma advanced_update [simp]:
  "advanced op (op'\<lparr>op_reason := a\<rparr>) = advanced op op'"
  "advanced op (op'\<lparr>commit_evidence := b\<rparr>) = advanced op op'" "advanced op (op'\<lparr>application_evidence := c\<rparr>) = advanced op op'"
  "advanced op (op'\<lparr>op_changed := d\<rparr>) = advanced op op'" "advanced op (op'\<lparr>attempts := f\<rparr>) = advanced op op'"
  "advanced op (op'\<lparr>schema_fingerprint := g\<rparr>) = advanced op op'" "advanced op (op'\<lparr>op_plan := h\<rparr>) = advanced op op'"
  "advanced op (op'\<lparr>original_outcome := i\<rparr>) = advanced op op'" "advanced op (op'\<lparr>deadline_elapsed := j\<rparr>) = advanced op op'"
  "advanced op (op'\<lparr>late_resolution := k\<rparr>) = advanced op op'" "advanced op (op'\<lparr>blocked_for_resubmission := l\<rparr>) = advanced op op'"
  by (simp_all add: advanced_def)

lemma advanced_update_left [simp]:
  "advanced (op\<lparr>deadline_elapsed := j\<rparr>) op' = advanced op op'" "advanced (op\<lparr>original_outcome := i\<rparr>) op' = advanced op op'"
  "advanced (op\<lparr>application_evidence := c\<rparr>) op' = advanced op op'" "advanced (op\<lparr>late_resolution := k\<rparr>) op' = advanced op op'"
  "advanced (op\<lparr>attempts := f\<rparr>) op' = advanced op op'" "advanced (op\<lparr>schema_fingerprint := g\<rparr>) op' = advanced op op'"
  by (simp_all add: advanced_def)

lemma evolves_save_stored:
  assumes "op \<in> set (ops e)" "Q op" "advanced op op'"
  shows "evolves Q e (fst (save_op op' payload e))"
proof (rule evolves_save)
  show "writes e op'" if "journal_ok (en_store e)"
    using assms unique_stored [OF _ _ assms(1)] that by (auto simp: writes_def journal_ok_def advanced_def)
  show "Q p" if "journal_ok (en_store e)" "p \<in> set (ops e)" "operation_id p = operation_id op'" for p
    using assms unique_stored [OF _ that(2) assms(1)] that(1,3) by (simp add: advanced_def journal_ok_def)
qed

lemma evolves_settle:
  assumes "op \<in> set (ops e)" "state op \<in> set [CONFIG_COMMITTED, INDETERMINATE] \<Longrightarrow> Q op"
  shows "evolves Q e (fst (settle_restarted op current e))"
proof -
  have "evolves Q e (fst (save_op (op'\<lparr>op_reason := r\<rparr>) payload e))"
    if "state op \<in> set [CONFIG_COMMITTED, INDETERMINATE]" "transition op FAILED [] = Inr op'" for op' r payload
    using assms that advanced_transition [OF that(2)] by (intro evolves_save_stored [of op]) simp_all
  then show ?thesis
    unfolding settle_restarted_def
    by (simp only: if_distrib [of "\<lambda>m. m e"] if_distrib [of fst] split: if_split)
      (auto simp: liftE_def intro!: evolves_bind)
qed

text \<open>Actions that leave the operations of the journal alone.\<close>

definition quiet :: "(engine, 'a) action \<Rightarrow> bool" where
  "quiet m \<longleftrightarrow> (\<forall>e. ops (fst (m e)) = ops e \<and> (\<forall>Q. evolves Q e (fst (m e))))"

lemma quiet_intros [simp]: "quiet (returnE x)" "quiet (raiseE y)" "quiet (liftE r)" "quiet (readE f)"
  "quiet (lift_store (\<lambda>st. Inr (store_event st run phase payload pod)))"
  "quiet (lift_store (\<lambda>st. Inr (conflict st pod' info)))" "quiet (lift_store (\<lambda>st. Inr (release st pod')))"
  by (simp_all add: quiet_def returnE_def raiseE_def liftE_def readE_def) (simp_all add: lift_store_def)

lemma quiet_modify: "(\<And>e. en_store (f e) = en_store e \<and> still e (f e)) \<Longrightarrow> quiet (modifyE f)"
  by (simp add: quiet_def modifyE_def evolves_same)

lemma quiet_bind: "quiet m \<Longrightarrow> (\<And>y. quiet (f y)) \<Longrightarrow> quiet (bindE m f)"
  unfolding quiet_def
proof (intro allI conjI)
  fix e Q
  assume m: "\<forall>e. ops (fst (m e)) = ops e \<and> (\<forall>Q. evolves Q e (fst (m e)))"
    and f: "\<And>y. \<forall>e. ops (fst (f y e)) = ops e \<and> (\<forall>Q. evolves Q e (fst (f y e)))"
  show "ops (fst (bindE m f e)) = ops e"
    using m [rule_format, of e] f by (cases "m e"; cases "snd (m e)") (auto simp: bindE_def)
  show "evolves Q e (fst (bindE m f e))" using m f by (intro evolves_bind) auto
qed

lemma evolves_quiet_bind:
  assumes "quiet m" "\<And>e' y. m e = (e', Inr y) \<Longrightarrow> ops e' = ops e \<Longrightarrow> evolves Q e' (fst (f y e'))"
  shows "evolves Q e (fst (bindE m f e))"
  using assms by (intro evolves_bind) (auto simp: quiet_def, metis fst_conv)

lemma quiet_expired: "quiet (expired op)"
  unfolding expired_def by (intro quiet_bind quiet_modify quiet_intros) (auto simp: still_def)

lemma quiet_remember: "quiet (remember pod snap)"
  unfolding remember_def by (intro quiet_modify) (auto simp: still_def split: option.splits)

lemma quiet_owned: "quiet (owned pod run)"
  unfolding owned_def by (intro quiet_bind) (auto split: option.splits intro!: quiet_bind)

lemma quiet_note: "quiet (note_observation pod snap target op)"
  unfolding note_observation_def by (intro quiet_bind quiet_intros) (auto simp: still_def intro!: quiet_bind quiet_modify)

section \<open>Reconciliation refines the specification\<close>

lemma past_deadline_advanced: "past_deadline op late = Inr (op', ch) \<Longrightarrow> advanced op op'"
  by (auto simp: past_deadline_def Let_def bindR_eq_Inr split: if_splits dest!: advanced_transition)

lemma time_out_advanced: "time_out_unknown snap target op ch = Inr (op', ch') \<Longrightarrow> advanced op op'"
  by (auto simp: time_out_unknown_def bindR_eq_Inr split: if_splits dest!: advanced_transition)

lemma applied_advanced: "applied_now snap op = Inr (op', ch) \<Longrightarrow> advanced op op'"
  by (auto simp: applied_now_def Let_def bindR_eq_Inr split: if_splits dest!: advanced_transition)

text \<open>The result of an action, when it returns.\<close>

definition returns :: "(engine, 'a) action \<Rightarrow> ('a \<Rightarrow> bool) \<Rightarrow> bool" where
  "returns m P \<longleftrightarrow> (\<forall>e e' x. m e = (e', Inr x) \<longrightarrow> P x)"

lemma returns_bind: "(\<And>y. returns (f y) P) \<Longrightarrow> returns (bindE m f) P"
  by (auto simp: returns_def bindE_def split: prod.splits sum.splits)

lemma returns_bind_result: "returns m R \<Longrightarrow> (\<And>y. R y \<Longrightarrow> returns (f y) P) \<Longrightarrow> returns (bindE m f) P"
  unfolding returns_def bindE_def by (auto split: prod.splits sum.splits) blast

lemma returns_mono: "returns m P \<Longrightarrow> (\<And>x. P x \<Longrightarrow> R x) \<Longrightarrow> returns m R"
  by (auto simp: returns_def)

lemma returns_simps [simp]: "returns (returnE x) P \<longleftrightarrow> P x" "returns (raiseE y) P" "returns (liftE r) P \<longleftrightarrow> (\<forall>x. r = Inr x \<longrightarrow> P x)"
  by (auto simp: returns_def returnE_def raiseE_def liftE_def)

lemma lost_quiet: "quiet (lost_ownership pod snap op ch)"
  unfolding lost_ownership_def by (intro quiet_bind quiet_intros)

lemma lost_advanced: "returns (lost_ownership pod snap op ch) (\<lambda>(op', ch'). advanced op op')"
  unfolding lost_ownership_def
proof (rule returns_bind)
  show "returns (bindE (liftE (if state op = CONFIG_COMMITTED then transition op OWNERSHIP_CONFLICT [] else Inr op))
     (\<lambda>op. returnE (if op_reason op \<noteq> Some (reason_value OWNERSHIP_CONFLICT_REASON)
       then (op\<lparr>op_reason := Some (reason_value OWNERSHIP_CONFLICT_REASON)\<rparr>, True) else (op, ch)))) (\<lambda>(op', ch'). advanced op op')"
    by (rule returns_bind_result [where R = "advanced op"]) (auto split: if_splits dest: advanced_transition)
qed

lemma settle_observed_quiet: "quiet (settle_observed pod snap target op ch)"
  unfolding settle_observed_def Let_def
  by (auto intro!: quiet_bind lost_quiet)

lemma settle_observed_advanced: "returns (settle_observed pod snap target op ch) (\<lambda>(op', ch'). advanced op op')"
  unfolding settle_observed_def Let_def
  by (auto intro!: returns_bind lost_advanced dest: applied_advanced)

lemma observe_quiet: "quiet (observe pod snap op ch)"
  unfolding observe_def
  by (intro quiet_bind quiet_intros) (auto split: sum.splits exn.splits prod.splits intro!: quiet_bind quiet_note settle_observed_quiet)

lemma observe_advanced: "returns (observe pod snap op ch) (\<lambda>(op', ch'). advanced op op')"
proof -
  have later: "returns (settle_observed pod snap target op1 ch1) (\<lambda>(op', ch'). advanced op op')" if "advanced op op1" for target op1 ch1
    by (rule returns_mono [OF settle_observed_advanced]) (use that advanced_trans in auto)
  have "returns (bindE (liftE (time_out_unknown snap target op ch)) (\<lambda>(op, ch). settle_observed pod snap target op ch))
      (\<lambda>(op', ch'). advanced op op')" for target
    by (rule returns_bind_result [where R = "\<lambda>(op1, ch1). advanced op op1"]) (auto dest: time_out_advanced intro: later)
  note timed = returns_bind [OF this]
  show ?thesis
    unfolding observe_def by (rule returns_bind) (auto simp: timed split: sum.splits exn.splits)
qed

abbreviation reconcilable :: "op_state list" where
  "reconcilable \<equiv> [CONFIG_COMMITTED, INDETERMINATE, TIMED_OUT, OBSERVED_APPLIED]"

lemma evolves_reconcile_op:
  assumes op: "op \<in> set (ops e)" and Q: "state op \<in> set reconcilable \<Longrightarrow> Q op"
  shows "evolves Q e (fst (reconcile_op pod snap later op e))"
proof (cases "op_pod_id op \<noteq> pod \<or> state op \<notin> set reconcilable \<or> (\<exists>p \<in> set later. op_pod_id p = pod \<and> state p \<in> set RECONCILED)")
  case True
  then show ?thesis by (auto simp: reconcile_op_def)
next
  case False
  then have Q: "Q op" using Q by auto
  have finish: "evolves Q e' (fst ((if ch then bindE (save_op op' payload) (\<lambda>_. returnE ()) else returnE ()) e'))"
    if "ops e' = ops e" "advanced op op'" for e' op' ch payload
    using that op Q by (auto intro!: evolves_bind evolves_save_stored [of op])
  have "evolves Q e1 (fst (bindE (expired op) (\<lambda>late. bindE (liftE (past_deadline op late)) (\<lambda>(op, ch).
      bindE (observe pod snap op ch) (\<lambda>(op, ch).
        if ch then bindE (save_op op payload) (\<lambda>_. returnE ()) else returnE ()))) e1))" if e1: "ops e1 = ops e" for e1 payload
  proof (rule evolves_quiet_bind [OF quiet_expired])
    fix e2 late assume e2: "ops e2 = ops e1"
    show "evolves Q e2 (fst (bindE (liftE (past_deadline op late)) (\<lambda>(op, ch). bindE (observe pod snap op ch) (\<lambda>(op, ch).
        if ch then bindE (save_op op payload) (\<lambda>_. returnE ()) else returnE ())) e2))"
    proof (rule evolves_quiet_bind [OF quiet_intros(3)])
      fix e3 y assume y: "liftE (past_deadline op late) e2 = (e3, Inr y)" and e3: "ops e3 = ops e2"
      obtain op1 ch1 where y': "y = (op1, ch1)" by (cases y)
      have adv: "advanced op op1" using y past_deadline_advanced [of op late op1 ch1] by (simp add: liftE_def y')
      have "evolves Q e3 (fst (bindE (observe pod snap op1 ch1) (\<lambda>(op, ch).
          if ch then bindE (save_op op payload) (\<lambda>_. returnE ()) else returnE ()) e3))"
      proof (rule evolves_quiet_bind [OF observe_quiet])
        fix e4 z assume z: "observe pod snap op1 ch1 e3 = (e4, Inr z)" and e4: "ops e4 = ops e3"
        obtain op2 ch2 where z': "z = (op2, ch2)" by (cases z)
        have "advanced op1 op2" using observe_advanced [of pod snap op1 ch1] z by (auto simp: returns_def z')
        with finish [of e4 op2 ch2 payload] adv e1 e2 e3 e4 show "evolves Q e4 (fst ((case z of (op, ch) \<Rightarrow>
            if ch then bindE (save_op op payload) (\<lambda>_. returnE ()) else returnE ()) e4))"
          by (simp add: z' advanced_trans)
      qed
      then show "evolves Q e3 (fst ((case y of (op, ch) \<Rightarrow> bindE (observe pod snap op ch) (\<lambda>(op, ch).
          if ch then bindE (save_op op payload) (\<lambda>_. returnE ()) else returnE ())) e3))" by (simp add: y')
    qed
  qed
  note rest = this
  have settled: "ops e1 = ops e" if "settle_restarted op c e = (e1, Inr False)" for c e1
    using that by (auto simp: settle_restarted_def bindE_def liftE_def save_op_def readE_def returnE_def split: if_splits prod.splits sum.splits)
  have "evolves Q e (fst (bindE (settle_restarted op (sn_instance snap)) (\<lambda>settled.
      if settled then returnE () else bindE (expired op) (\<lambda>late. bindE (liftE (past_deadline op late)) (\<lambda>(op, ch).
      bindE (observe pod snap op ch) (\<lambda>(op, ch).
        if ch then bindE (save_op op payload) (\<lambda>_. returnE ()) else returnE ())))) e))" for payload
    using rest settled by (intro evolves_bind evolves_settle) (use op Q in auto)
  then show ?thesis using False unfolding reconcile_op_def by auto
qed

lemma evolves_mono: "evolves Q e e' \<Longrightarrow> (\<And>p. p \<in> set (ops e) \<Longrightarrow> Q p \<Longrightarrow> R p) \<Longrightarrow> evolves R e e'"
  unfolding evolves_def touches_def by blast

text \<open>Two actions in sequence, the first on \<open>x\<close> and the second on \<open>xs\<close>.\<close>

lemma evolves_sequence:
  assumes first: "evolves (\<lambda>p. p = x \<and> R p) e (fst (m e))"
    and rest: "\<And>e'. set xs \<subseteq> set (ops e') \<Longrightarrow> evolves (\<lambda>p. p \<in> set xs \<and> R p) e' (fst (k e'))"
    and stored: "set (x # xs) \<subseteq> set (ops e)" "x \<notin> set xs"
  shows "evolves (\<lambda>p. p \<in> set (x # xs) \<and> R p) e (fst (bindE m (\<lambda>_. k) e))"
proof (cases "journal_ok (en_store e)")
  case True
  let ?Q = "\<lambda>p. p \<in> set (x # xs) \<and> R p"
  have one: "evolves ?Q e (fst (m e))" using first by (rule evolves_mono) auto
  have "evolves ?Q e' (fst (k e'))" if "m e = (e', Inr y)" for e' y
  proof -
    have t: "touches (\<lambda>p. p = x \<and> R p) (ops e) (ops e')" using first True that by (simp add: evolves_def)
    then have "set xs \<subseteq> set (ops e')" using stored unfolding touches_def by (metis (mono_tags, lifting) set_subset_Cons subset_iff)
    from rest [OF this] show ?thesis by (rule evolves_mono) auto
  qed
  with one show ?thesis by (intro evolves_bind) auto
qed (simp add: evolves_def)

lemma evolves_each:
  assumes "\<And>e x. x \<in> set xs \<Longrightarrow> x \<in> set (ops e) \<Longrightarrow> evolves (\<lambda>p. p = x \<and> R p) e (fst (f x e))"
    and "set xs \<subseteq> set (ops e)" "distinct xs"
  shows "evolves (\<lambda>p. p \<in> set xs \<and> R p) e (fst (eachE f xs e))"
  using assms
proof (induction xs arbitrary: e)
  case (Cons x xs)
  show ?case unfolding eachE.simps
    by (rule evolves_sequence) (use Cons in auto)
qed simp

lemma evolves_reconcile_ops:
  assumes "set xs \<subseteq> set (ops e)" "distinct xs"
  shows "evolves (\<lambda>p. p \<in> set xs \<and> state p \<in> set reconcilable) e (fst (reconcile_ops pod snap xs e))"
  using assms
proof (induction xs arbitrary: e)
  case (Cons x xs)
  show ?case unfolding reconcile_ops.simps
    by (rule evolves_sequence) (use Cons in \<open>auto intro!: evolves_reconcile_op\<close>)
qed simp

lemma ops_distinct: "journal_ok (en_store e) \<Longrightarrow> distinct (ops e)"
  by (simp add: journal_ok_def store_ok_def distinct_map)

lemma evolves_reconcile: "evolves (\<lambda>p. state p \<in> set reconcilable) e (fst (reconcile pod snap e))"
proof -
  let ?Q = "\<lambda>p. state p \<in> set reconcilable"
  have "evolves ?Q e1 (fst (reconcile_ops pod snap (ops e1) e1))" for e1
  proof (cases "journal_ok (en_store e1)")
    case True
    from evolves_reconcile_ops [OF order_refl ops_distinct [OF True], of pod snap] show ?thesis by (rule evolves_mono) auto
  qed (simp add: evolves_def)
  then have "evolves ?Q e1 (fst (bindE (reconcile_ops pod snap (ops e1)) (\<lambda>_. returnE snap) e1))" for e1
    by (intro evolves_bind) auto
  then show ?thesis
    unfolding reconcile_def
    using quiet_remember [of pod snap] by (intro evolves_bind [of _ _ "remember pod snap"]) (simp_all add: operations_def quiet_def)
qed

lemma evolves_recover_op: "op \<in> set (ops e) \<Longrightarrow> evolves (\<lambda>p. p = op \<and> True) e (fst (recover_op op e))"
  unfolding recover_op_def
  by (simp only: if_distrib [of "\<lambda>m. m e"] if_distrib [of fst] split: if_split)
    (auto simp: liftE_def intro!: evolves_bind evolves_save_stored [of op] dest: advanced_transition)

lemma evolves_recover: "evolves (\<lambda>_. True) e (fst (recover e))"
proof (cases "journal_ok (en_store e)")
  case True
  have "evolves (\<lambda>_. True) e (fst (eachE recover_op (ops e) e))"
    using evolves_each [of "ops e" "\<lambda>_. True" recover_op e] evolves_recover_op ops_distinct [OF True]
    by (auto intro: evolves_mono)
  then show ?thesis unfolding recover_def by (simp add: operations_def)
qed (simp add: evolves_def)

lemma evolves_cancel: "evolves (\<lambda>p. operation_id p = ident \<and> state p \<in> set [REQUESTED, VALIDATED]) e (fst (cancel ident e))"
proof -
  let ?Q = "\<lambda>p. operation_id p = ident \<and> state p \<in> set [REQUESTED, VALIDATED]"
  have "evolves ?Q e (fst (bindE (liftE (transition op CANCELLED [])) (\<lambda>op. save_op op []) e))" if "store_get (en_store e) ident = Inr op" for op
  proof (rule evolves_bind)
    fix e' op' assume *: "liftE (transition op CANCELLED []) e = (e', Inr op')"
    then have t: "transition op CANCELLED [] = Inr op'" and e': "e' = e" by (auto simp: liftE_def)
    have "state op \<in> set [REQUESTED, VALIDATED]" using transition_target [OF t] by (cases "state op") auto
    then show "evolves ?Q e' (fst (save_op op' [] e'))"
      unfolding e' using get_in [OF that] advanced_transition [OF t] by (intro evolves_save_stored [of op]) auto
  qed simp
  then show ?thesis
    unfolding cancel_def by (cases "store_get (en_store e) ident") simp_all
qed

section \<open>Requests refine the specification\<close>

text \<open>What the schema of the journal's operations promises: it constrains only what identifies a request, the
  attempts, the recorded durations and the attribution of the commit evidence.\<close>

definition durations_ok :: "operation \<Rightarrow> bool" where
  "durations_ok op \<longleftrightarrow> (\<forall>(_, seconds, process) \<in> set (timings op). 0 \<le> seconds \<and> process \<noteq> [])"

definition attributed :: "operation \<Rightarrow> bool" where
  "attributed op \<longleftrightarrow> map_of (commit_evidence op) ''attribution'' \<in> {Some (JStr ''not_submitted''), Some (JStr ''unknown''), Some (JStr ''reply'')}"

definition identifies :: "operation \<Rightarrow> operation \<Rightarrow> bool" where
  "identifies op op' \<longleftrightarrow> operation_id op' = operation_id op \<and> run_id op' = run_id op \<and> request_source op' = request_source op \<and>
     initiating_interface op' = initiating_interface op \<and> op_intent op' = op_intent op \<and>
     intent_fingerprint op' = intent_fingerprint op \<and> idempotency_key op' = idempotency_key op \<and> attempts op' = attempts op"

definition schema_like :: "(operation \<Rightarrow> bool) \<Rightarrow> bool" where
  "schema_like c \<longleftrightarrow> (\<forall>op op'. c op \<and> identifies op op' \<and> durations_ok op' \<and> attributed op' \<longrightarrow> c op') \<and>
     (\<forall>op. c op \<longrightarrow> durations_ok op \<and> attributed op)"

lemma identifies_update [simp]:
  "identifies op (op'\<lparr>op_reason := a\<rparr>) = identifies op op'" "identifies op (op'\<lparr>state := s\<rparr>) = identifies op op'"
  "identifies op (op'\<lparr>updated_at := u\<rparr>) = identifies op op'" "identifies op (op'\<lparr>timings := t\<rparr>) = identifies op op'"
  "identifies op op"
  by (simp_all add: identifies_def)

lemma attributed_update [simp]:
  "attributed (op\<lparr>op_reason := a\<rparr>) = attributed op" "attributed (op\<lparr>state := s\<rparr>) = attributed op"
  by (simp_all add: attributed_def)

lemma stamp_keeps [simp]: "identifies op (stamp e op') = identifies op op'" "attributed (stamp e op) = attributed op"
  by (simp_all add: stamp_def Let_def identifies_def attributed_def split: option.split)

lemma stamp_durations:
  assumes "durations_ok op" "map_of (starts e) (operation_id op) = Some t" "t \<le> monotonic e" "process_id (en_store e) \<noteq> []"
  shows "durations_ok (stamp e op)"
  using assms by (simp add: stamp_def Let_def durations_ok_def ball_Un)

text \<open>The state in which the engine's own writes are accepted.\<close>

definition accepts :: "engine \<Rightarrow> bool" where
  "accepts e \<longleftrightarrow> journal_ok (en_store e) \<and> schema_like (contract (en_store e)) \<and> process_id (en_store e) \<noteq> [] \<and>
     (\<forall>(_, t) \<in> set (starts e). t \<le> monotonic e)"

lemma accepts_save:
  assumes "accepts e" "contract (en_store e) op" "identifies op op'" "timings op' = timings op" "attributed op'"
  shows "\<exists>st. save (en_store e) (stamp e op') payload = Inr st"
proof -
  have schema: "schema_like (contract (en_store e))" and "process_id (en_store e) \<noteq> []" and starts: "\<forall>(_, t) \<in> set (starts e). t \<le> monotonic e"
    using assms(1) by (auto simp: accepts_def)
  have "durations_ok op" using schema [unfolded schema_like_def, THEN conjunct2] assms(2) by blast
  then have d: "durations_ok op'" using assms(4) by (simp add: durations_ok_def)
  have "durations_ok (stamp e op')"
  proof (cases "map_of (starts e) (operation_id op')")
    case None
    with d show ?thesis by (simp add: stamp_def Let_def durations_ok_def)
  next
    case (Some t)
    then have "t \<le> monotonic e" using starts map_of_SomeD by fastforce
    with d Some \<open>process_id (en_store e) \<noteq> []\<close> show ?thesis by (intro stamp_durations)
  qed
  then have "contract (en_store e) (stamp e op')"
    using schema [unfolded schema_like_def, THEN conjunct1, rule_format, of op "stamp e op'"] assms(2,3,5) by simp
  then show ?thesis by (simp add: save_def ensure_def)
qed

lemma accepts_evolves: "evolves Q e e' \<Longrightarrow> accepts e \<Longrightarrow> accepts e'"
  unfolding evolves_def accepts_def still_def by metis

lemma accepts_stored:
  assumes "accepts e" "op \<in> set (ops e)"
  shows "contract (en_store e) op" "attributed op"
proof -
  show c: "contract (en_store e) op" using assms by (simp add: accepts_def journal_ok_def list_all_iff)
  have "schema_like (contract (en_store e))" using assms(1) by (simp add: accepts_def)
  from this [unfolded schema_like_def, THEN conjunct2] c show "attributed op" by blast
qed

lemma settle_accepted:
  assumes "accepts e" "op \<in> set (ops e)"
  shows "\<exists>b. snd (settle_restarted op current e) = Inr b"
proof (cases "state op \<in> set [CONFIG_COMMITTED, INDETERMINATE] \<and> written_on_another_start op current")
  case True
  then have t: "transition op FAILED [] = Inr (op\<lparr>state := FAILED\<rparr>)" by (auto simp: transition_def)
  let ?op = "op\<lparr>state := FAILED, op_reason := Some (reason_value NOT_READY)\<rparr>"
  note c = accepts_stored [OF assms]
  obtain st where "save (en_store e) (stamp e ?op) [(''restarted'', JDict [(''instance'', jstr current)])] = Inr st"
    using accepts_save [OF assms(1) c(1), of ?op] c(2) by auto
  then show ?thesis using True
    by (intro exI [of _ True]) (simp add: settle_restarted_def t save_op_run bindE_def [of "save_op _ _"] returnE_def)
next
  case False
  then show ?thesis by (auto simp: settle_restarted_def returnE_def)
qed

lemma each_returns:
  assumes "\<And>e x. x \<in> set xs \<Longrightarrow> x \<in> set (ops e) \<Longrightarrow> accepts e \<Longrightarrow> evolves (\<lambda>p. p = x \<and> R p) e (fst (f x e)) \<and> snd (f x e) = Inr ()"
    and "set xs \<subseteq> set (ops e)" "distinct xs" "accepts e"
  shows "snd (eachE f xs e) = Inr ()"
  using assms
proof (induction xs arbitrary: e)
  case (Cons x xs)
  have f: "evolves (\<lambda>p. p = x \<and> R p) e (fst (f x e))" "snd (f x e) = Inr ()" using Cons.prems by auto
  have acc: "accepts (fst (f x e))" using f(1) Cons.prems(4) by (rule accepts_evolves)
  have "journal_ok (en_store e)" using Cons.prems(4) by (simp add: accepts_def)
  then have "touches (\<lambda>p. p = x \<and> R p) (ops e) (ops (fst (f x e)))" using f(1) by (simp add: evolves_def)
  then have "set xs \<subseteq> set (ops (fst (f x e)))" using Cons.prems(2,3) unfolding touches_def by auto
  from Cons.IH [OF _ this _ acc] Cons.prems(1,3) have "snd (eachE f xs (fst (f x e))) = Inr ()" by auto
  with f(2) show ?case by (cases "f x e") (simp add: bindE_def)
qed (simp add: returnE_def)

text \<open>The settling of what earlier starts wrote, in the admission of \<open>op\<close>.\<close>

definition settle_others :: "operation \<Rightarrow> string option \<Rightarrow> operation \<Rightarrow> (engine, unit) action" where
  "settle_others op current p = (if op_pod_id p = op_pod_id op \<and> operation_id p \<noteq> operation_id op
     then bindE (settle_restarted p current) (\<lambda>_. returnE ()) else returnE ())"

abbreviation settleable :: "operation \<Rightarrow> operation \<Rightarrow> bool" where
  "settleable op p \<equiv> operation_id p \<noteq> operation_id op \<and> state p \<in> set [CONFIG_COMMITTED, INDETERMINATE]"

lemma settle_others_step:
  assumes "p \<in> set (ops e)"
  shows "evolves (\<lambda>q. q = p \<and> settleable op q) e (fst (settle_others op current p e))"
    and "accepts e \<Longrightarrow> snd (settle_others op current p e) = Inr ()"
proof -
  show "evolves (\<lambda>q. q = p \<and> settleable op q) e (fst (settle_others op current p e))"
    using assms by (auto simp: settle_others_def intro!: evolves_bind evolves_settle)
  show "snd (settle_others op current p e) = Inr ()" if "accepts e"
    using settle_accepted [OF that assms, of current]
    by (cases "settle_restarted p current e") (auto simp: settle_others_def bindE_def returnE_def)
qed

lemma settle_all:
  assumes "accepts e" "ops e = xs @ [op]"
  shows "snd (eachE (settle_others op current) (ops e) e) = Inr () \<and>
    (\<exists>ys. ops (fst (eachE (settle_others op current) (ops e) e)) = ys @ [op] \<and> list_all2 advanced xs ys \<and>
       touches (settleable op) xs ys) \<and>
    evolves (settleable op) e (fst (eachE (settle_others op current) (ops e) e))"
proof -
  let ?e = "fst (eachE (settle_others op current) (ops e) e)"
  have ok: "journal_ok (en_store e)" using assms(1) by (simp add: accepts_def)
  have ev: "evolves (\<lambda>p. p \<in> set (ops e) \<and> settleable op p) e ?e"
    by (rule evolves_each) (use ops_distinct [OF ok] settle_others_step in auto)
  then have ev': "evolves (settleable op) e ?e" by (rule evolves_mono) simp
  then have *: "journal_ok (en_store ?e)" "list_all2 advanced (xs @ [op]) (ops ?e)" "touches (settleable op) (xs @ [op]) (ops ?e)"
    using ok assms(2) by (simp_all add: evolves_def)
  obtain ys q where ys: "ops ?e = ys @ [q]" "list_all2 advanced xs ys" "advanced op q"
    using *(2) by (auto simp: list_all2_append1 list_all2_Cons1)
  have "op \<in> set (ops ?e)" using *(3) by (auto simp: touches_def)
  then have "op = q" using unique_stored [of ?e op q] *(1) ys(1,3) by (simp add: journal_ok_def advanced_def)
  moreover have "touches (settleable op) xs ys"
  proof -
    have "op \<notin> set xs" "op \<notin> set ys"
      using ops_distinct [OF ok] ops_distinct [OF *(1)] assms(2) ys(1) \<open>op = q\<close> by simp_all
    with *(3) show ?thesis unfolding ys(1) \<open>op = q\<close> [symmetric] touches_def by fastforce
  qed
  moreover have "snd (eachE (settle_others op current) (ops e) e) = Inr ()"
    by (rule each_returns [where R = "settleable op"]) (use ops_distinct [OF ok] settle_others_step assms(1) in auto)
  ultimately show ?thesis using ys ev' by auto
qed

lemma reject_last:
  assumes acc: "accepts e" and ops: "ops e = ys @ [op]" and req: "state op = REQUESTED"
  shows "\<exists>op'. ops (fst (reject op code e)) = ys @ [op'] \<and> operation_id op' = operation_id op \<and> request_key op' = request_key op \<and> intent_fingerprint op' = intent_fingerprint op \<and>
    snd (reject op code e) = Inr op' \<and> state op' = REJECTED \<and> accepts (fst (reject op code e)) \<and> still e (fst (reject op code e))"
proof -
  let ?op = "op\<lparr>state := REJECTED, op_reason := Some (reason_value code)\<rparr>"
  have t: "transition op REJECTED [] = Inr (op\<lparr>state := REJECTED\<rparr>)" using req by (simp add: transition_def)
  have mem: "op \<in> set (ops e)" using ops by simp
  note c = accepts_stored [OF acc mem]
  obtain st where st: "save (en_store e) (stamp e ?op) [] = Inr st"
    using accepts_save [OF acc c(1), of ?op] c(2) by auto
  have run: "reject op code e = (e\<lparr>en_store := st\<rparr>, Inr (stamp e ?op))" by (simp add: reject_def t save_op_run st)
  have "evolves (\<lambda>_. True) e (fst (save_op ?op [] e))"
    using advanced_transition [OF t] by (intro evolves_save_stored [OF mem]) simp_all
  then have ev: "evolves (\<lambda>_. True) e (e\<lparr>en_store := st\<rparr>)" by (simp add: save_op_run st)
  have "distinct (map operation_id (ys @ [op] @ []))"
    using acc ops by (simp add: accepts_def journal_ok_def store_ok_def)
  from put_operation_split [OF this, of "stamp e ?op"] have "ops (e\<lparr>en_store := st\<rparr>) = ys @ [stamp e ?op]"
    using save_fields [OF st] ops by simp
  moreover have "still e (e\<lparr>en_store := st\<rparr>)" using ev acc by (simp add: evolves_def accepts_def)
  ultimately show ?thesis unfolding run using accepts_evolves [OF ev acc] by (intro exI [of _ "stamp e ?op"]) simp
qed

lemma owned_returns: "\<exists>held. snd (owned pod run e) = Inr held"
  by (simp add: owned_def returnE_def bindE_def [of "lift_store _"] lift_store_def split: option.split)

text \<open>What follows the settling in the admission.\<close>

definition decide :: "operation \<Rightarrow> (engine, operation) action" where
  "decide op e =
     (if quiesced e \<or> op_pod_id op \<in> set (busy e) \<or>
         (\<exists>p \<in> set (ops e). op_pod_id p = op_pod_id op \<and> state p \<in> set ACTIVE \<and> operation_id p \<noteq> operation_id op)
      then reject op BUSY e
      else bindE (owned (op_pod_id op) (run_id op)) (\<lambda>held.
        if held \<noteq> None \<and> held \<noteq> Some [] then reject op OWNERSHIP_CONFLICT_REASON else returnE op) e)"

lemma admit_eq:
  "admit op e = bindE (eachE (settle_others op (current_instance e (op_pod_id op))) (ops e)) (\<lambda>_. decide op) e"
proof -
  have "decide op = bindE (readE (\<lambda>e. quiesced e \<or> op_pod_id op \<in> set (busy e) \<or>
      (\<exists>p \<in> set (operations (en_store e) None). op_pod_id p = op_pod_id op \<and> state p \<in> set ACTIVE \<and> operation_id p \<noteq> operation_id op)))
    (\<lambda>refuse. if refuse then reject op BUSY else bindE (owned (op_pod_id op) (run_id op)) (\<lambda>held.
        if held \<noteq> None \<and> held \<noteq> Some [] then reject op OWNERSHIP_CONFLICT_REASON else returnE op))"
    by (rule ext) (simp only: decide_def operations_def option.case run_bind if_distrib [of "\<lambda>m. m _"])
  then show ?thesis unfolding admit_def Let_def settle_others_def [abs_def] by (simp add: operations_def)
qed

lemma decide_result:
  assumes acc: "accepts e" and ops: "ops e = ys @ [op]" and req: "state op = REQUESTED"
  shows "\<exists>op'. ops (fst (decide op e)) = ys @ [op'] \<and> operation_id op' = operation_id op \<and> request_key op' = request_key op \<and> intent_fingerprint op' = intent_fingerprint op \<and>
    snd (decide op e) = Inr op' \<and> accepts (fst (decide op e)) \<and> still e (fst (decide op e)) \<and>
    (state op' = REJECTED \<or> op' = op \<and> (\<forall>p \<in> set ys. op_pod_id p = op_pod_id op \<longrightarrow> state p \<notin> set ACTIVE))"
    (is "?goal (decide op e)")
proof (cases "quiesced e \<or> op_pod_id op \<in> set (busy e) \<or>
    (\<exists>p \<in> set (ops e). op_pod_id p = op_pod_id op \<and> state p \<in> set ACTIVE \<and> operation_id p \<noteq> operation_id op)")
  case True
  then have "decide op e = reject op BUSY e" by (simp add: decide_def)
  with reject_last [OF assms, of BUSY] show ?thesis by metis
next
  case False
  have "operation_id p \<noteq> operation_id op" if "p \<in> set ys" for p
  proof -
    have "distinct (map operation_id (ys @ [op]))" using acc ops by (simp add: accepts_def journal_ok_def store_ok_def)
    then have "operation_id op \<notin> operation_id ` set ys" by simp
    with that show ?thesis by (metis imageI)
  qed
  then have idle: "\<forall>p \<in> set ys. op_pod_id p = op_pod_id op \<longrightarrow> state p \<notin> set ACTIVE" using False ops by auto
  let ?e = "fst (owned (op_pod_id op) (run_id op) e)"
  obtain held where held: "snd (owned (op_pod_id op) (run_id op) e) = Inr held" using owned_returns by blast
  have q: "ops ?e = ops e" "evolves (\<lambda>_. False) e ?e" using quiet_owned [of "op_pod_id op" "run_id op"] by (simp_all add: quiet_def)
  have acc': "accepts ?e" using q(2) acc by (rule accepts_evolves)
  have still': "still e ?e" using q(2) acc by (simp add: evolves_def accepts_def)
  have eq: "decide op e = (if held \<noteq> None \<and> held \<noteq> Some [] then reject op OWNERSHIP_CONFLICT_REASON else returnE op) ?e"
    unfolding decide_def if_not_P [OF False] using held by (cases "owned (op_pod_id op) (run_id op) e") (simp add: bindE_def)
  show ?thesis
  proof (cases "held \<noteq> None \<and> held \<noteq> Some []")
    case True
    then have "decide op e = reject op OWNERSHIP_CONFLICT_REASON ?e" using eq by simp
    moreover obtain op' where *: "ops (fst (reject op OWNERSHIP_CONFLICT_REASON ?e)) = ys @ [op']" "operation_id op' = operation_id op"
      "request_key op' = request_key op" "intent_fingerprint op' = intent_fingerprint op" "snd (reject op OWNERSHIP_CONFLICT_REASON ?e) = Inr op'" "state op' = REJECTED"
      "accepts (fst (reject op OWNERSHIP_CONFLICT_REASON ?e))" "still ?e (fst (reject op OWNERSHIP_CONFLICT_REASON ?e))"
      using reject_last [OF acc' _ req] q(1) ops by metis
    moreover have "still e (fst (reject op OWNERSHIP_CONFLICT_REASON ?e))" using still' *(8) by (simp add: still_def)
    ultimately show ?thesis by (intro exI [of _ op']) simp
  next
    case False
    then have "decide op e = (?e, Inr op)" unfolding eq if_not_P [OF False] by (simp add: returnE_def)
    with q(1) ops idle acc' still' show ?thesis by (intro exI [of _ op]) simp
  qed
qed

lemma still_trans: "still e e' \<Longrightarrow> still e' e'' \<Longrightarrow> still e e''"
  by (simp add: still_def)

lemma admit_result:
  assumes acc: "accepts e" and ops: "ops e = xs @ [op]" and req: "state op = REQUESTED"
  shows "\<exists>ys op'. ops (fst (admit op e)) = ys @ [op'] \<and> list_all2 advanced xs ys \<and> touches (settleable op) xs ys \<and>
    operation_id op' = operation_id op \<and> request_key op' = request_key op \<and> intent_fingerprint op' = intent_fingerprint op \<and> snd (admit op e) = Inr op' \<and>
    accepts (fst (admit op e)) \<and> still e (fst (admit op e)) \<and>
    (state op' = REJECTED \<or> op' = op \<and> (\<forall>p \<in> set ys. op_pod_id p = op_pod_id op \<longrightarrow> state p \<notin> set ACTIVE))"
proof -
  let ?loop = "eachE (settle_others op (current_instance e (op_pod_id op))) (ops e)"
  obtain ys where r: "snd (?loop e) = Inr ()" and ys: "ops (fst (?loop e)) = ys @ [op]" "list_all2 advanced xs ys"
    "touches (settleable op) xs ys" and ev: "evolves (settleable op) e (fst (?loop e))"
    using settle_all [OF acc ops] by blast
  have acc': "accepts (fst (?loop e))" using ev acc by (rule accepts_evolves)
  have still': "still e (fst (?loop e))" using ev acc by (simp add: evolves_def accepts_def)
  have eq: "admit op e = decide op (fst (?loop e))"
    unfolding admit_eq using r by (cases "?loop e") (simp add: bindE_def)
  show ?thesis unfolding eq using decide_result [OF acc' ys(1) req] ys(2,3) still_trans [OF still'] by blast
qed

lemma add_operations_filter:
  assumes "add st op receipt = Inr st'"
  shows "(\<exists>P. st_operations st' = filter P (st_operations st) @ [op] \<and> (\<forall>p \<in> set (st_operations st). state p \<in> set ACTIVE \<longrightarrow> P p)) \<and>
    contract st' = contract st \<and> process_id st' = process_id st \<and> contract st op"
proof -
  let ?ops = "st_operations st @ [op]"
  let ?P = "\<lambda>p. length ?ops \<le> RETAINED_RECENT \<or> operation_id p \<in> set (kept_ids ?ops)"
  obtain st1 where st1: "st' = prune st1" "st_operations st1 = ?ops" "contract st1 = contract st" "process_id st1 = process_id st" "contract st op"
    using assms unfolding add_eq_Inr by (auto simp: add_event_def Let_def)
  have "st_operations st' = filter ?P ?ops" unfolding st1(1) by (simp add: prune_def Let_def st1(2))
  moreover have "drop (length ?ops - RETAINED_RECENT) ?ops = drop (length ?ops - RETAINED_RECENT) (st_operations st) @ [op]"
    by (simp add: RETAINED_RECENT_def)
  then have "?P op" by (simp add: kept_ids_def)
  ultimately have "st_operations st' = filter ?P (st_operations st) @ [op]" by simp
  moreover have "\<forall>p \<in> set (st_operations st). state p \<in> set ACTIVE \<longrightarrow> ?P p" by (simp add: kept_ids_def)
  ultimately show ?thesis using st1 by (auto simp: prune_def Let_def intro!: exI [of _ ?P])
qed

lemma request_cases:
  "fst (request_internal ident intent source key run deadline interface receipt e) = e \<or>
   (\<exists>op st. add (en_store e) op receipt = Inr st \<and> operation_id op = ident \<and> op_intent op = intent \<and> state op = REQUESTED \<and>
      request_source op = source \<and> idempotency_key op = key \<and>
      request_internal ident intent source key run deadline interface receipt e =
        admit op (e\<lparr>en_store := st, starts := AList.update ident (monotonic e) (starts e),
          deadlines := AList.update ident (monotonic e + deadline) (deadlines e)\<rparr>))"
proof -
  let ?op = "\<lambda>target. Operation ident run source interface intent (en_fingerprint e (JDict (AList.update ''target'' (JDict target) intent))) key
    (utc e) (utc e) (utc e + deadline)"
  let ?e = "\<lambda>st. e\<lparr>en_store := st, starts := AList.update ident (monotonic e) (starts e),
          deadlines := AList.update ident (monotonic e + deadline) (deadlines e)\<rparr>"
  have fields: "operation_id (?op t) = ident" "op_intent (?op t) = intent" "state (?op t) = REQUESTED" "request_source (?op t) = source"
    "idempotency_key (?op t) = key" for t by (simp_all add: Operation_def)
  have "fst (request_internal ident intent source key run deadline interface receipt e) = e \<or>
     (\<exists>target st. add (en_store e) (?op target) receipt = Inr st \<and>
        request_internal ident intent source key run deadline interface receipt e = admit (?op target) (?e st))"
    by (cases "en_validate e intent"; cases "en_target e intent")
      (auto simp: request_internal_def Let_def raiseE_def returnE_def bindE_def [of "lift_store _"] lift_store_def split: option.split sum.split)
  then show ?thesis using fields by blast
qed

lemma accepts_add:
  assumes acc: "accepts e" and add: "add (en_store e) op receipt = Inr st"
  shows "accepts (e\<lparr>en_store := st, starts := AList.update ident (monotonic e) (starts e), deadlines := ds\<rparr>)"
proof -
  from add_operations_filter [OF add] obtain P where P: "st_operations st = filter P (ops e) @ [op]" "contract st = contract (en_store e)"
    "process_id st = process_id (en_store e)" "contract (en_store e) op" by blast
  have "store_ok st" using acc add_ok [OF _ add] by (simp add: accepts_def journal_ok_def)
  moreover have "list_all (contract st) (st_operations st)" using acc P by (auto simp: accepts_def journal_ok_def list_all_iff)
  moreover have "\<forall>(_, t) \<in> set (AList.update ident (monotonic e) (starts e)). t \<le> monotonic e"
    using acc set_update_alist [of ident "monotonic e" "starts e"] by (auto simp: accepts_def)
  ultimately show ?thesis using acc P by (simp add: accepts_def journal_ok_def)
qed

text \<open>A request leaves the engine as it was, or stores one new operation last.\<close>

lemma request_result:
  assumes acc: "accepts e"
  shows "fst (request_internal ident intent source key run deadline interface receipt e) = e \<or>
    (\<exists>P ys op'. ops (fst (request_internal ident intent source key run deadline interface receipt e)) = ys @ [op'] \<and>
       (\<forall>p \<in> set (ops e). state p \<in> set ACTIVE \<longrightarrow> P p) \<and>
       list_all2 advanced (filter P (ops e)) ys \<and> touches (settleable op') (filter P (ops e)) ys \<and>
       operation_id op' = ident \<and> ident \<notin> set (map operation_id (ops e)) \<and> op_pod_id op' = pod_of intent \<and>
       (state op' = REJECTED \<or> state op' = REQUESTED \<and> (\<forall>p \<in> set ys. op_pod_id p = op_pod_id op' \<longrightarrow> state p \<notin> set ACTIVE)) \<and>
       accepts (fst (request_internal ident intent source key run deadline interface receipt e)) \<and>
       tasks (fst (request_internal ident intent source key run deadline interface receipt e)) = tasks e \<and>
       busy (fst (request_internal ident intent source key run deadline interface receipt e)) = busy e)"
    (is "?same \<or> ?new")
proof (cases ?same)
  case False
  then obtain op st where op: "add (en_store e) op receipt = Inr st" "operation_id op = ident" "op_intent op = intent" "state op = REQUESTED"
    and run: "request_internal ident intent source key run deadline interface receipt e =
        admit op (e\<lparr>en_store := st, starts := AList.update ident (monotonic e) (starts e),
          deadlines := AList.update ident (monotonic e + deadline) (deadlines e)\<rparr>)" (is "_ = admit op ?e")
    using request_cases by blast
  obtain P where P: "st_operations st = filter P (ops e) @ [op]" "\<forall>p \<in> set (ops e). state p \<in> set ACTIVE \<longrightarrow> P p"
    using add_operations_filter [OF op(1)] by blast
  have ops: "ops ?e = filter P (ops e) @ [op]" using P(1) by simp
  from admit_result [OF accepts_add [OF acc op(1)] ops op(4)] obtain ys op' where
    *: "ops (fst (admit op ?e)) = ys @ [op']" "list_all2 advanced (filter P (ops e)) ys" "touches (settleable op) (filter P (ops e)) ys"
    "operation_id op' = operation_id op" "request_key op' = request_key op"
    "accepts (fst (admit op ?e))" "still ?e (fst (admit op ?e))"
    "state op' = REJECTED \<or> op' = op \<and> (\<forall>p \<in> set ys. op_pod_id p = op_pod_id op \<longrightarrow> state p \<notin> set ACTIVE)" by blast
  have "touches (settleable op') (filter P (ops e)) ys" using *(3,4) by simp
  moreover have "op_pod_id op' = op_pod_id op" "op_pod_id op = pod_of intent" using *(5) op(3) by (simp_all add: request_key_def op_pod_id_def)
  moreover have "ident \<notin> set (map operation_id (ops e))" using op(1,2) unfolding add_eq_Inr by blast
  moreover have "tasks (fst (admit op ?e)) = tasks e" "busy (fst (admit op ?e)) = busy e" using *(7) by (simp_all add: still_def)
  ultimately have ?new unfolding run using * op(2,4) P(2) by (intro exI [of _ P] exI [of _ ys] exI [of _ op']) auto
  then show ?thesis ..
qed simp

end
