(* ===== verification/Engine_Tasks.thy ===== *)
theory Engine_Tasks
  imports Engine_Lifecycle
begin

text \<open>The execution of operations (\<open>Engine.execute\<close> of src/src/emosa/reconcile.py) between its awaits: what holds of the
  suspended tasks, and that every section of the code, whatever the awaited call gave, keeps the engine in order and is
  followed by the specification of Engine_Lifecycle.\<close>

section \<open>Execution and the suspended tasks\<close>

definition task_ok :: "engine \<Rightarrow> string \<Rightarrow> task \<Rightarrow> bool" where
  "task_ok e ident t \<longleftrightarrow> operation_id (tk_op t) = ident \<and> op_pod_id (tk_op t) \<in> set (busy e) \<and>
     (if tk_at t = AtSubmit then tk_op t \<in> set (ops e) \<and> state (tk_op t) = SUBMITTED \<and> attempts (tk_op t) \<noteq> []
      else state (tk_op t) = REQUESTED \<and>
        (\<forall>p \<in> set (ops e). operation_id p = ident \<longrightarrow> request_key p = request_key (tk_op t) \<and> state p \<in> set [REQUESTED, CANCELLED]))"

abbreviation task_pod :: "string \<times> task \<Rightarrow> string" where
  "task_pod x \<equiv> op_pod_id (tk_op (snd x))"

definition engine_ok :: "engine \<Rightarrow> bool" where
  "engine_ok e \<longleftrightarrow> accepts e \<and> spec_ok (entries_of e) \<and> distinct (map fst (tasks e)) \<and> distinct (map task_pod (tasks e)) \<and>
     (\<forall>(ident, t) \<in> set (tasks e). task_ok e ident t)"

text \<open>The state while the code of one task runs: everything but that task is in order.\<close>

definition working :: "string \<Rightarrow> string \<Rightarrow> engine \<Rightarrow> bool" where
  "working ident pod e \<longleftrightarrow> accepts e \<and> spec_ok (entries_of e) \<and> pod \<in> set (busy e) \<and>
     distinct (map fst (tasks e)) \<and> distinct (map task_pod (tasks e)) \<and>
     (\<forall>(i, t) \<in> set (tasks e). i \<noteq> ident \<longrightarrow> task_ok e i t \<and> op_pod_id (tk_op t) \<noteq> pod)"

lemma evolves_spec: "evolves Q e e' \<Longrightarrow> journal_ok (en_store e) \<Longrightarrow> spec_step\<^sup>*\<^sup>* (entries_of e) (entries_of e')"
  using spec_advanced [of "ops e" "ops e'" "[]"] by (simp add: evolves_def entries_of_def)

lemma evolves_spec_ok: "evolves Q e e' \<Longrightarrow> accepts e \<Longrightarrow> spec_ok (entries_of e) \<Longrightarrow> spec_ok (entries_of e')"
  using evolves_spec [of Q e e'] spec_steps_ok [of "entries_of e" "entries_of e'"] by (simp add: accepts_def)

lemma touched_task:
  assumes "task_ok e i t" "touches Q (ops e) (ops e')" "busy e' = busy e" "\<And>p. p \<in> set (ops e) \<Longrightarrow> operation_id p = i \<Longrightarrow> \<not> Q p"
  shows "task_ok e' i t"
proof -
  have id: "operation_id (tk_op t) = i" using assms(1) by (simp add: task_ok_def)
  have "p \<in> set (ops e)" if "p \<in> set (ops e')" "operation_id p = i" for p
    using assms(2,4) that unfolding touches_def by metis
  moreover have "p \<in> set (ops e')" if "p \<in> set (ops e)" "operation_id p = i" for p
    using assms(2,4) that unfolding touches_def by blast
  ultimately have "\<forall>p. operation_id p = i \<longrightarrow> p \<in> set (ops e') \<longleftrightarrow> p \<in> set (ops e)" by blast
  then show ?thesis using assms(1,3) id unfolding task_ok_def by metis
qed

lemma engine_ok_evolves:
  assumes ok: "engine_ok e" and ev: "evolves Q e e'"
    and free: "\<And>ident t p. (ident, t) \<in> set (tasks e) \<Longrightarrow> p \<in> set (ops e) \<Longrightarrow> operation_id p = ident \<Longrightarrow> \<not> Q p"
  shows "engine_ok e'"
proof -
  have acc: "accepts e" using ok by (simp add: engine_ok_def)
  then have *: "touches Q (ops e) (ops e')" "tasks e' = tasks e" "busy e' = busy e" using ev by (auto simp: evolves_def accepts_def still_def)
  have "task_ok e' i t" if "(i, t) \<in> set (tasks e)" for i t
    using touched_task [OF _ *(1,3)] ok that free by (auto simp: engine_ok_def)
  then show ?thesis
    using ok accepts_evolves [OF ev acc] evolves_spec_ok [OF ev acc] * by (auto simp: engine_ok_def)
qed

lemma working_evolves:
  assumes w: "working ident pod e" and ev: "evolves (\<lambda>p. operation_id p = ident) e e'"
  shows "working ident pod e'"
proof -
  have acc: "accepts e" using w by (simp add: working_def)
  then have *: "touches (\<lambda>p. operation_id p = ident) (ops e) (ops e')" "tasks e' = tasks e" "busy e' = busy e"
    using ev by (auto simp: evolves_def accepts_def still_def)
  have "task_ok e' i t" if "(i, t) \<in> set (tasks e)" "i \<noteq> ident" for i t
    using touched_task [OF _ *(1,3)] w that by (auto simp: working_def)
  then show ?thesis
    using w accepts_evolves [OF ev acc] evolves_spec_ok [OF ev acc] * by (auto simp: working_def)
qed

lemma accepts_more: "accepts e \<Longrightarrow> accepts (e\<lparr>busy := b, tasks := ts\<rparr>)" "accepts e \<Longrightarrow> accepts (e\<lparr>tasks := ts\<rparr>)"
  "accepts e \<Longrightarrow> accepts (e\<lparr>wsc_guards := g\<rparr>)" "accepts e \<Longrightarrow> accepts (e\<lparr>busy := b\<rparr>)"
  by (simp_all add: accepts_def)

lemma entries_more [simp]: "entries_of (e\<lparr>busy := b\<rparr>) = entries_of e" "entries_of (e\<lparr>tasks := ts\<rparr>) = entries_of e"
  "entries_of (e\<lparr>wsc_guards := g\<rparr>) = entries_of e" "task_ok (e\<lparr>tasks := ts\<rparr>) i t = task_ok e i t"
  "task_ok (e\<lparr>wsc_guards := g\<rparr>) i t = task_ok e i t"
  by (simp_all add: entries_of_def task_ok_def)

lemma engine_ok_guards [simp]: "engine_ok (e\<lparr>wsc_guards := g\<rparr>) = engine_ok e"
  by (simp add: engine_ok_def accepts_def entries_of_def task_ok_def)

lemma delete_filter: "AList.delete k al = filter (\<lambda>x. fst x \<noteq> k) al"
  unfolding AList.delete_eq by (intro filter_cong) auto

lemma leave_ok:
  assumes w: "working (operation_id op) (op_pod_id op) e"
  shows "engine_ok (fst (leave op r e))"
proof -
  let ?e = "e\<lparr>busy := removeAll (op_pod_id op) (busy e), tasks := AList.delete (operation_id op) (tasks e)\<rparr>"
  have t: "task_ok ?e i t" if "(i, t) \<in> set (tasks e)" "i \<noteq> operation_id op" for i t
  proof -
    have "task_ok e i t" "op_pod_id (tk_op t) \<noteq> op_pod_id op" using w that by (auto simp: working_def)
    then show ?thesis by (cases "tk_at t = AtSubmit") (simp_all add: task_ok_def)
  qed
  have "engine_ok ?e"
    unfolding engine_ok_def using w t
    by (auto simp: working_def delete_filter accepts_more distinct_map_filter accepts_def entries_of_def)
  then show ?thesis by (auto simp: leave_def Let_def split: sum.split)
qed

lemma leave_with_ok:
  assumes "working (operation_id op) (op_pod_id op) e" "evolves (\<lambda>p. operation_id p = operation_id op) e (fst (m e))"
  shows "engine_ok (fst (leave_with op m e))"
  using working_evolves [OF assms] leave_ok [of op "fst (m e)"] by (simp add: leave_with_def case_prod_beta)

lemma suspend_ok:
  assumes w: "working (operation_id op) (op_pod_id op) e" and t: "task_ok e (operation_id op) \<lparr>tk_op = op, tk_at = a\<rparr>"
  shows "engine_ok (fst (suspend op a e))"
proof -
  let ?ts = "(operation_id op, \<lparr>tk_op = op, tk_at = a\<rparr>) # filter (\<lambda>x. fst x \<noteq> operation_id op) (tasks e)"
  have run: "fst (suspend op a e) = e\<lparr>tasks := ?ts\<rparr>"
    by (simp add: suspend_def returnE_def delete_filter)
  have "distinct (map fst ?ts)" using w by (auto simp: working_def distinct_map_filter)
  moreover have "distinct (map task_pod ?ts)" using w by (force simp: working_def distinct_map_filter)
  moreover have "\<forall>(i, x) \<in> set ?ts. task_ok e i x" using w t by (auto simp: working_def)
  ultimately show ?thesis unfolding run engine_ok_def using w by (auto simp: working_def accepts_more)
qed

text \<open>An engine step in order: the invariant holds after it, and the specification can follow.\<close>

definition follows :: "engine \<Rightarrow> engine \<Rightarrow> bool" where
  "follows e e' \<longleftrightarrow> engine_ok e' \<and> spec_step\<^sup>*\<^sup>* (entries_of e) (entries_of e')"

lemma entries_leave [simp]: "entries_of (fst (leave op r e)) = entries_of e"
  by (auto simp: leave_def Let_def entries_of_def split: sum.split)

lemma entries_suspend [simp]: "entries_of (fst (suspend op a e)) = entries_of e"
  by (simp add: suspend_def returnE_def)

lemma follows_leave: "working (operation_id op) (op_pod_id op) e \<Longrightarrow> follows e (fst (leave op r e))"
  by (simp add: follows_def leave_ok)

lemma follows_trans_evolves: "evolves Q e e1 \<Longrightarrow> accepts e \<Longrightarrow> follows e1 e' \<Longrightarrow> follows e e'"
  using evolves_spec [of Q e e1] by (auto simp: follows_def accepts_def intro: rtranclp_trans)

lemma follows_leave_with:
  assumes w: "working (operation_id op) (op_pod_id op) e" and ev: "evolves (\<lambda>p. operation_id p = operation_id op) e (fst (m e))"
  shows "follows e (fst (leave_with op m e))"
proof -
  have "follows (fst (m e)) (fst (leave op (snd (m e)) (fst (m e))))" using follows_leave [OF working_evolves [OF w ev]] .
  then show ?thesis
    using follows_trans_evolves [OF ev] w by (simp add: leave_with_def case_prod_beta working_def)
qed

text \<open>A task that is still being validated: its operation may have been cancelled meanwhile.\<close>

definition validating :: "engine \<Rightarrow> operation \<Rightarrow> bool" where
  "validating e op \<longleftrightarrow> working (operation_id op) (op_pod_id op) e \<and> state op \<in> set [REQUESTED, VALIDATED] \<and>
     (\<forall>p \<in> set (ops e). operation_id p = operation_id op \<longrightarrow> request_key p = request_key op \<and> state p \<in> set [REQUESTED, CANCELLED])"

lemma validating_quiet: "quiet m \<Longrightarrow> validating e op \<Longrightarrow> validating (fst (m e)) op"
  using working_evolves [of "operation_id op" "op_pod_id op" e "fst (m e)"] by (simp add: validating_def quiet_def)

lemma evolves_reject:
  assumes "validating e op"
  shows "evolves (\<lambda>p. operation_id p = operation_id op) e (fst (reject op code e))"
proof -
  have t: "transition op REJECTED [] = Inr (op\<lparr>state := REJECTED\<rparr>)"
    using assms by (auto simp: validating_def transition_def)
  have "advanced p (op\<lparr>state := REJECTED\<rparr>)" if "p \<in> set (ops e)" "operation_id p = operation_id op" for p
  proof -
    have "request_key p = request_key op" "state p \<in> set [REQUESTED, CANCELLED]" using assms that by (auto simp: validating_def)
    then show ?thesis using that(2) by (auto simp: advanced_def edge_def)
  qed
  then show ?thesis
    unfolding reject_def t run_bind by (intro evolves_save) (auto simp: writes_def)
qed

lemma follows_failed: "validating e op \<Longrightarrow> follows e (fst (failed_validation op x e))"
proof -
  assume v: "validating e op"
  then have "evolves (\<lambda>p. operation_id p = operation_id op) e (fst ((case x of EmosaError code \<Rightarrow> reject op code | _ \<Rightarrow> raiseE x) e))"
    using evolves_reject [OF v] by (cases x) simp_all
  with v show ?thesis unfolding failed_validation_def by (intro follows_leave_with) (simp_all add: validating_def)
qed

lemma follows_suspend:
  assumes v: "validating e op" and "state op = REQUESTED" "a \<noteq> AtSubmit"
  shows "follows e (fst (suspend op a e))"
proof -
  have "task_ok e (operation_id op) \<lparr>tk_op = op, tk_at = a\<rparr>"
    using assms by (auto simp: validating_def task_ok_def working_def)
  then show ?thesis using suspend_ok [of op e a] v by (simp add: follows_def validating_def)
qed

lemma quiet_plan_checks: "quiet (plan_checks pod)"
  unfolding plan_checks_def by (intro quiet_bind) (auto intro!: quiet_bind quiet_owned)

lemma follows_quiet: "quiet m \<Longrightarrow> accepts e \<Longrightarrow> follows (fst (m e)) e' \<Longrightarrow> follows e e'"
  using follows_trans_evolves [of "\<lambda>_. True" e "fst (m e)" e'] by (simp add: quiet_def)

lemma validating_accepts: "validating e op \<Longrightarrow> accepts e"
  by (simp add: validating_def working_def)

lemma follows_start_plan:
  assumes v: "validating e op" and r: "state op = REQUESTED"
  shows "follows e (fst (start_plan op e))"
proof -
  let ?m = "plan_checks (op_pod_id op)"
  note v' = validating_quiet [OF quiet_plan_checks v, of "op_pod_id op"]
  have "follows (fst (?m e)) (fst (start_plan op e))"
    using follows_failed [OF v'] follows_suspend [OF v' r, of AtPlan]
    by (cases "?m e"; cases "snd (?m e)") (auto simp: start_plan_def)
  then show ?thesis by (rule follows_quiet [OF quiet_plan_checks validating_accepts [OF v]])
qed

lemma validating_update [simp]:
  "validating e (op\<lparr>op_plan := d\<rparr>) = validating e op" "validating e (op\<lparr>schema_fingerprint := f\<rparr>) = validating e op"
  by (simp_all add: validating_def op_pod_id_def)

text \<open>A task that submits: the journal holds the record the task works on.\<close>

definition submitting :: "engine \<Rightarrow> operation \<Rightarrow> bool" where
  "submitting e op \<longleftrightarrow> working (operation_id op) (op_pod_id op) e \<and> op \<in> set (ops e)"

lemma submitting_working: "submitting e op \<Longrightarrow> working (operation_id op) (op_pod_id op) e"
  by (simp add: submitting_def)

lemma put_operation_in: "p \<in> set xs \<Longrightarrow> operation_id p = operation_id op \<Longrightarrow> op \<in> set (put_operation op xs)"
  by (force simp: put_operation_def)

lemma advanced_same: "advanced p op \<Longrightarrow> operation_id op = operation_id p \<and> op_pod_id op = op_pod_id p"
  by (simp add: advanced_def request_key_def)

text \<open>A write by the task that works: it evolves the journal, and if it succeeds the record is stored.\<close>

lemma save_working:
  assumes w: "working (operation_id op) (op_pod_id op) e" and wr: "writes e op" and p: "p \<in> set (ops e)" "operation_id p = operation_id op"
  shows "evolves (\<lambda>p. operation_id p = operation_id op) e (fst (save_op op payload e))"
    "save_op op payload e = (e', Inr op') \<Longrightarrow> op' = stamp e op \<and> submitting e' op'"
proof -
  show ev: "evolves (\<lambda>p. operation_id p = operation_id op) e (fst (save_op op payload e))"
    using wr by (intro evolves_save) simp_all
  assume s: "save_op op payload e = (e', Inr op')"
  then obtain st where st: "save (en_store e) (stamp e op) payload = Inr st" "e' = e\<lparr>en_store := st\<rparr>" "op' = stamp e op"
    by (auto simp: save_op_run split: sum.splits)
  have "op' \<in> set (ops e')" using save_fields [OF st(1)] st(2,3) put_operation_in [OF p(1), of op'] p(2) by simp
  moreover have "working (operation_id op) (op_pod_id op) e'" using working_evolves [OF w ev] s by simp
  ultimately show "op' = stamp e op \<and> submitting e' op'" using st(3) by (simp add: submitting_def)
qed

lemma writes_stored: "journal_ok (en_store e) \<Longrightarrow> op \<in> set (ops e) \<Longrightarrow> advanced op op' \<Longrightarrow> writes e op'"
  using unique_stored [of e _ op] by (auto simp: writes_def journal_ok_def advanced_def)

lemma submitting_journal: "submitting e op \<Longrightarrow> journal_ok (en_store e)"
  by (simp add: submitting_def working_def accepts_def)

text \<open>The last section of the validation.\<close>

lemma evolves_submitting:
  "submitting e op \<Longrightarrow> advanced op op' \<Longrightarrow> evolves (\<lambda>p. operation_id p = operation_id op) e (fst (save_op op' payload e))"
  using evolves_save_stored [of op e "\<lambda>p. operation_id p = operation_id op" op' payload] by (simp add: submitting_def)

lemma follows_save_suspend:
  assumes s: "submitting e op" and adv: "advanced op op1" and st: "state op1 = SUBMITTED" "attempts op1 \<noteq> []"
  shows "follows e (fst (case save_op op1 payload e of (e, Inl x) \<Rightarrow> leave op (Inl x) e | (e, Inr op) \<Rightarrow> suspend op AtSubmit e))"
proof -
  obtain e' r where sv: "save_op op1 payload e = (e', r)" by (cases "save_op op1 payload e")
  have acc: "accepts e" using s by (simp add: submitting_def working_def)
  have ev: "evolves (\<lambda>p. operation_id p = operation_id op) e e'" using evolves_submitting [OF s adv, of payload] sv by simp
  note w = working_evolves [OF submitting_working [OF s] ev]
  show ?thesis
  proof (cases r)
    case (Inl x)
    then show ?thesis using follows_trans_evolves [OF ev acc follows_leave [OF w]] sv by simp
  next
    case (Inr op2)
    have op: "op \<in> set (ops e)" "operation_id op = operation_id op1" "op_pod_id op = op_pod_id op1"
      using s advanced_same [OF adv] by (simp_all add: submitting_def)
    have w1: "working (operation_id op1) (op_pod_id op1) e" using submitting_working [OF s] op by simp
    have s2: "op2 = stamp e op1 \<and> submitting e' op2"
      using sv Inr by (intro save_working(2) [OF w1 writes_stored [OF submitting_journal [OF s] op(1) adv] op(1,2)]) simp
    have "state op2 = SUBMITTED" "attempts op2 \<noteq> []" using s2 st by simp_all
    moreover have "op2 \<in> set (ops e')" "op_pod_id op2 \<in> set (busy e')" using conjunct2 [OF s2] by (simp_all add: submitting_def working_def)
    ultimately have "task_ok e' (operation_id op2) \<lparr>tk_op = op2, tk_at = AtSubmit\<rparr>" by (simp add: task_ok_def)
    then have "follows e' (fst (suspend op2 AtSubmit e'))" using suspend_ok [OF submitting_working [OF conjunct2 [OF s2]]] by (simp add: follows_def)
    then show ?thesis using follows_trans_evolves [OF ev acc] sv Inr by simp
  qed
qed

lemma follows_submit_start:
  assumes s: "submitting e op"
  shows "follows e (fst (submit_start op snap a t e))"
proof (cases "en_target e (op_intent op)")
  case (Inl x)
  then show ?thesis using follows_leave [OF submitting_working [OF s]] by (simp add: submit_start_def)
next
  case target: (Inr target)
  let ?ev = "evidence snap [(''observed_noop'', JBool True)]"
  let ?noop = "bindE (liftE (transition op OBSERVED_APPLIED ?ev)) (\<lambda>op. save_op (op\<lparr>op_changed := Some False, application_evidence := Some ?ev\<rparr>) [])"
  let ?at = "[(''attempt_id'', JStr a), (''transaction_id'', JStr t), (''session_generation'', JInt (generation snap)), (''prepared_at'', JReal (utc e))]"
  show ?thesis
  proof (cases "satisfies (observed snap) target \<and> matches (sn_config snap) target")
    case True
    have "evolves (\<lambda>p. operation_id p = operation_id op) e (fst (?noop e))"
      by (cases "transition op OBSERVED_APPLIED ?ev") (simp_all add: evolves_submitting [OF s] advanced_transition)
    then show ?thesis using follows_leave_with [of op e ?noop] submitting_working [OF s] True target by (simp add: submit_start_def Let_def)
  next
    case False
    show ?thesis
    proof (cases "transition (op\<lparr>attempts := attempts op @ [?at]\<rparr>) SUBMITTED []")
      case (Inl x)
      then show ?thesis using follows_leave [OF submitting_working [OF s]] target by (simp add: submit_start_def Let_def if_not_P [OF False])
    next
      case (Inr op1)
      then have "advanced op (op1\<lparr>commit_evidence := [(''attribution'', JStr ''unknown'')]\<rparr>)" "state op1 = SUBMITTED" "attempts op1 \<noteq> []"
        using advanced_transition [OF Inr] transition_target [OF Inr] by simp_all
      with follows_save_suspend [OF s this(1)] show ?thesis using target Inr by (simp add: submit_start_def Let_def if_not_P [OF False])
    qed
  qed
qed

lemma follows_validated:
  assumes v: "validating e op" and r: "state op = REQUESTED"
  shows "follows e (fst (validated op snap a t e))"
proof (cases "store_get (en_store e) (operation_id op)")
  case (Inl x)
  then show ?thesis using follows_failed [OF v] by (simp add: validated_def)
next
  case (Inr p)
  then have p: "p \<in> set (ops e)" "operation_id p = operation_id op" using get_in by blast+
  let ?op = "op\<lparr>schema_fingerprint := Some (sn_schema_fingerprint snap), state := VALIDATED\<rparr>"
  let ?pl = "[(''plan'', case op_plan ?op of Some d \<Rightarrow> JDict d | None \<Rightarrow> JNull)]"
  have tr: "transition (op\<lparr>schema_fingerprint := Some (sn_schema_fingerprint snap)\<rparr>) VALIDATED [] = Inr ?op"
    using r by (simp add: transition_def)
  show ?thesis
  proof (cases "state p = REQUESTED")
    case False
    then show ?thesis using follows_leave [of op e] v Inr by (simp add: validated_def validating_def)
  next
    case True
    have j: "store_ok (en_store e)" using validating_accepts [OF v] by (simp add: accepts_def journal_ok_def)
    have "advanced q ?op" if "q \<in> set (ops e)" "operation_id q = operation_id op" for q
    proof -
      have "q = p" using unique_stored [OF j that(1) p(1)] that(2) p(2) by simp
      moreover have "request_key p = request_key op" using v p by (simp add: validating_def)
      ultimately show ?thesis using True p(2) by (auto simp: advanced_def edge_def)
    qed
    then have wr: "writes e ?op" by (simp add: writes_def)
    have w: "working (operation_id ?op) (op_pod_id ?op) e" using v by (simp add: validating_def op_pod_id_def)
    have id: "operation_id p = operation_id ?op" using p(2) by simp
    obtain e' s where sv: "save_op ?op ?pl e = (e', s)" by (cases "save_op ?op ?pl e")
    have run: "validated op snap a t e = (case s of Inl x \<Rightarrow> failed_validation (stamp e' ?op) x e' | Inr op \<Rightarrow> submit_start op snap a t e')"
      using Inr True tr sv by (cases s) (simp_all add: validated_def)
    show ?thesis
    proof (cases s)
      case (Inl x)
      then have "e' = e" using sv by (auto simp: save_op_run split: sum.splits)
      moreover have "validating e (stamp e ?op)" using v by (simp add: validating_def op_pod_id_def)
      ultimately show ?thesis using follows_failed run Inl by simp
    next
      case (Inr op')
      have "submitting e' op'" using save_working(2) [OF w wr p(1) id] sv Inr by blast
      from follows_submit_start [OF this] follows_trans_evolves [OF save_working(1) [OF w wr p(1) id, of ?pl] validating_accepts [OF v]]
      show ?thesis using run Inr sv by simp
    qed
  qed
qed

text \<open>A task is resumed.\<close>

lemma resumed_task:
  assumes ok: "engine_ok e" and t: "map_of (tasks e) ident = Some t"
  shows "task_ok e ident t" "working (operation_id (tk_op t)) (op_pod_id (tk_op t)) e"
proof -
  have i: "(ident, t) \<in> set (tasks e)" using t by (rule map_of_SomeD)
  then show *: "task_ok e ident t" using ok by (auto simp: engine_ok_def)
  have "op_pod_id (tk_op s) \<noteq> op_pod_id (tk_op t)" if "(j, s) \<in> set (tasks e)" "j \<noteq> ident" for j s
  proof
    assume "op_pod_id (tk_op s) = op_pod_id (tk_op t)"
    moreover have "inj_on task_pod (set (tasks e))" using ok by (simp add: engine_ok_def distinct_map)
    ultimately have "(j, s) = (ident, t)" using that(1) i by (intro inj_onD [of task_pod "set (tasks e)"]) simp_all
    then show False using that(2) by simp
  qed
  then show "working (operation_id (tk_op t)) (op_pod_id (tk_op t)) e"
    using ok * i by (simp add: engine_ok_def working_def task_ok_def [of e ident]) blast
qed

lemma resumed_validating:
  assumes "engine_ok e" "map_of (tasks e) ident = Some t" "tk_at t \<noteq> AtSubmit"
  shows "validating e (tk_op t) \<and> state (tk_op t) = REQUESTED"
  using resumed_task [OF assms(1,2)] assms(3) by (auto simp: validating_def task_ok_def)

lemma follows_refl: "engine_ok e \<Longrightarrow> follows e e"
  by (simp add: follows_def)

lemma follows_resume_guard: "engine_ok e \<Longrightarrow> follows e (fst (resume_guard ident r e))"
  using resumed_validating [of e ident]
  by (auto simp: resume_guard_def follows_refl follows_failed follows_start_plan split: option.split sum.split)

lemma follows_resume_plan: "engine_ok e \<Longrightarrow> follows e (fst (resume_plan ident r e))"
  using resumed_validating [of e ident]
  by (auto simp: resume_plan_def follows_refl follows_failed intro!: follows_suspend split: option.split sum.split)

lemma follows_resume_second_guard: "engine_ok e \<Longrightarrow> follows e (fst (resume_second_guard ident r a t e))"
  using resumed_validating [of e ident]
  by (auto simp: resume_second_guard_def follows_refl follows_failed follows_validated split: option.split sum.split await.split)

lemma follows_resume_snapshot:
  assumes ok: "engine_ok e"
  shows "follows e (fst (resume_snapshot ident r a t e))"
proof (cases "\<exists>tk snap. map_of (tasks e) ident = Some tk \<and> tk_at tk = AtSnapshot \<and> r = Inr snap")
  case False
  then show ?thesis
    using resumed_validating [OF ok, of ident] follows_refl [OF ok]
    by (auto simp: resume_snapshot_def follows_failed split: option.split sum.split)
next
  case True
  then obtain tk snap where tk: "map_of (tasks e) ident = Some tk" "tk_at tk = AtSnapshot" "r = Inr snap" by blast
  let ?op = "tk_op tk" and ?e = "fst (remember (op_pod_id (tk_op tk)) snap e)"
  have v: "validating e ?op" "state ?op = REQUESTED" using resumed_validating [OF ok tk(1)] tk(2) by simp_all
  note v' = validating_quiet [OF quiet_remember v(1), of "op_pod_id ?op" snap]
  have "follows ?e (fst (resume_snapshot ident r a t e))"
    using follows_failed [OF v'] follows_suspend [OF v' v(2), of "AtSecondGuard snap"] follows_validated [OF v' v(2)] tk
    by (auto simp: resume_snapshot_def Let_def split: sum.split bool.split)
  then show ?thesis by (rule follows_quiet [OF quiet_remember validating_accepts [OF v(1)]])
qed

lemma submit_outcome_quiet: "quiet (submit_outcome op r)"
  unfolding submit_outcome_def by (auto intro!: quiet_bind simp: Let_def split: sum.split exn.split)

lemma refused_advanced [simp]: "advanced op (refused op' r) = advanced op op'"
  by (simp add: refused_def)

lemma returns_transition:
  "(\<And>op'. advanced op op' \<Longrightarrow> returns (f op') P) \<Longrightarrow> returns (bindE (liftE (transition op t ev)) f) P"
  by (rule returns_bind_result [of _ "advanced op"]) (simp_all add: advanced_transition)

lemma returns_last: "P x \<Longrightarrow> returns (bindE m (\<lambda>_. returnE x)) P"
  by (rule returns_bind) simp

lemma submit_outcome_advanced: "returns (submit_outcome op r) (advanced op)"
  unfolding submit_outcome_def unknown_outcome_def
  by (auto simp: Let_def advanced_transition bindR_eq_Inr intro!: returns_transition returns_last split: sum.split exn.split)

lemma follows_resume_submit:
  assumes ok: "engine_ok e"
  shows "follows e (fst (resume_submit ident r e))"
proof (cases "\<exists>tk. map_of (tasks e) ident = Some tk \<and> tk_at tk = AtSubmit")
  case False
  then show ?thesis using follows_refl [OF ok] by (auto simp: resume_submit_def split: option.split)
next
  case True
  then obtain tk where tk: "map_of (tasks e) ident = Some tk" "tk_at tk = AtSubmit" by blast
  let ?op = "tk_op tk" and ?m = "submit_outcome (tk_op tk) r"
  have st: "?op \<in> set (ops e)" using resumed_task(1) [OF ok tk(1)] tk(2) by (simp add: task_ok_def)
  have "?op \<in> set (ops (fst (?m e)))" using submit_outcome_quiet [of ?op r] st by (simp add: quiet_def)
  then have "evolves (\<lambda>p. operation_id p = operation_id ?op) e (fst (bindE ?m (\<lambda>op. save_op op []) e))"
    using submit_outcome_quiet [of ?op r] submit_outcome_advanced [of ?op r]
    by (intro evolves_bind) (auto simp: quiet_def returns_def intro!: evolves_save_stored)
  then show ?thesis using follows_leave_with [of ?op e "bindE ?m (\<lambda>op. save_op op [])"] resumed_task(2) [OF ok tk(1)] tk by (simp add: resume_submit_def)
qed

text \<open>An execution begins.\<close>

lemma follows_execute:
  assumes ok: "engine_ok e"
  shows "follows e (fst (execute ident e))"
proof (cases "\<exists>op. store_get (en_store e) ident = Inr op \<and> state op = REQUESTED \<and> op_pod_id op \<notin> set (busy e)")
  case False
  then show ?thesis using follows_refl [OF ok]
    by (cases "store_get (en_store e) ident") (auto simp: execute_def returnE_def raiseE_def)
next
  case True
  then obtain op where op: "store_get (en_store e) ident = Inr op" "state op = REQUESTED" "op_pod_id op \<notin> set (busy e)" by blast
  let ?e = "e\<lparr>busy := op_pod_id op # busy e\<rparr>"
  have p: "op \<in> set (ops e)" "operation_id op = ident" using get_in [OF op(1)] by blast+
  have acc: "accepts e" using ok by (simp add: engine_ok_def)
  have t: "task_ok ?e i t \<and> op_pod_id (tk_op t) \<noteq> op_pod_id op" if "(i, t) \<in> set (tasks e)" for i t
  proof -
    have "task_ok e i t" using ok that by (auto simp: engine_ok_def)
    then show ?thesis using op(3) by (cases "tk_at t = AtSubmit") (auto simp: task_ok_def)
  qed
  then have "working (operation_id op) (op_pod_id op) ?e"
    using ok by (auto simp: engine_ok_def working_def accepts_more)
  moreover have "q = op" if "q \<in> set (ops e)" "operation_id q = operation_id op" for q
    using unique_stored [OF _ that(1) p(1) that(2)] acc by (simp add: accepts_def journal_ok_def)
  ultimately have v: "validating ?e op" using op(2) by (auto simp: validating_def)
  have "follows ?e (fst (execute ident e))"
    using follows_failed [OF v] follows_suspend [OF v op(2), of AtGuard] follows_start_plan [OF v op(2)] follows_leave [of op ?e] v op
    by (auto simp: execute_def modifyE_def validating_def split: sum.split bool.split)
  then show ?thesis by (simp add: follows_def)
qed

section \<open>Requests, cancellations and reconciliations beside the tasks\<close>

lemma follows_evolves:
  assumes "engine_ok e" "evolves Q e e'" "\<And>ident t p. (ident, t) \<in> set (tasks e) \<Longrightarrow> p \<in> set (ops e) \<Longrightarrow> operation_id p = ident \<Longrightarrow> \<not> Q p"
  shows "follows e e'"
  using engine_ok_evolves [OF assms] evolves_spec [OF assms(2)] assms(1) by (simp add: follows_def engine_ok_def accepts_def)

lemma task_states:
  assumes ok: "engine_ok e" and t: "(ident, t) \<in> set (tasks e)" and p: "p \<in> set (ops e)" "operation_id p = ident"
  shows "state p \<in> set [REQUESTED, CANCELLED, SUBMITTED] \<and> (state p \<noteq> SUBMITTED \<longrightarrow> tk_at t \<noteq> AtSubmit) \<and> (tk_at t = AtSubmit \<longrightarrow> p = tk_op t)"
proof (cases "tk_at t = AtSubmit")
  case True
  have "task_ok e ident t" using ok t by (auto simp: engine_ok_def)
  then have *: "tk_op t \<in> set (ops e)" "operation_id (tk_op t) = ident" "state (tk_op t) = SUBMITTED" using True by (simp_all add: task_ok_def)
  moreover have "store_ok (en_store e)" using ok by (simp add: engine_ok_def accepts_def journal_ok_def)
  ultimately have "p = tk_op t" using unique_stored [of e p "tk_op t"] p by simp
  then show ?thesis using *(3) by simp
next
  case False
  have "task_ok e ident t" using ok t by (auto simp: engine_ok_def)
  then show ?thesis using False p by (auto simp: task_ok_def)
qed

lemma follows_reconcile: "engine_ok e \<Longrightarrow> follows e (fst (reconcile pod snap e))"
  using task_states [of e] by (intro follows_evolves [OF _ evolves_reconcile]) fastforce+

lemma follows_release: "engine_ok e \<Longrightarrow> follows e (fst (lift_store (\<lambda>st. Inr (release st pod)) e))"
  by (intro follows_evolves [of e "\<lambda>_. False"]) simp_all

lemma cancelled_run:
  assumes "store_get (en_store e) ident = Inr op" "transition op CANCELLED [] = Inr op'"
  shows "cancel ident e = save_op op' [] e"
  using assms by (simp add: cancel_def)

lemma saved_new:
  assumes "p \<in> set (ops (fst (save_op op payload e)))"
  shows "p \<in> set (ops e) \<or> p = stamp e op"
proof (cases "save (en_store e) (stamp e op) payload")
  case (Inr st)
  then show ?thesis using assms save_fields [OF Inr] by (auto simp: save_op_run put_operation_def)
qed (use assms in \<open>simp add: save_op_run\<close>)

lemma cancel_new:
  assumes "p \<in> set (ops (fst (cancel ident e)))" "p \<notin> set (ops e)"
  shows "state p = CANCELLED"
proof (cases "store_get (en_store e) ident")
  case (Inl x)
  then show ?thesis using assms by (simp add: cancel_def)
next
  case op: (Inr op)
  show ?thesis
  proof (cases "transition op CANCELLED []")
    case (Inl x)
    then show ?thesis using assms op by (simp add: cancel_def)
  next
    case (Inr op')
    then have "state op' = CANCELLED" using edge_transition by blast
    then show ?thesis using saved_new [of p op' "[]" e] assms cancelled_run [OF op Inr] by auto
  qed
qed

lemma follows_cancel:
  assumes ok: "engine_ok e"
  shows "follows e (fst (cancel ident e))"
proof (cases "\<exists>t. (ident, t) \<in> set (tasks e)")
  case False
  then show ?thesis using follows_evolves [OF ok evolves_cancel [of ident e]] by blast
next
  case True
  let ?e = "fst (cancel ident e)"
  have acc: "accepts e" using ok by (simp add: engine_ok_def)
  then have touched: "touches (\<lambda>p. operation_id p = ident \<and> state p \<in> set [REQUESTED, VALIDATED]) (ops e) (ops ?e)"
    and still: "still e ?e" using evolves_cancel [of ident e] by (auto simp: evolves_def accepts_def)
  have "task_ok ?e i s" if "(i, s) \<in> set (tasks e)" for i s
  proof (cases "i = ident \<and> tk_at s \<noteq> AtSubmit")
    case False
    then have "\<not> (operation_id p = ident \<and> state p \<in> set [REQUESTED, VALIDATED])" if "p \<in> set (ops e)" "operation_id p = i" for p
      using task_states [OF ok \<open>(i, s) \<in> set (tasks e)\<close> that] that(2) by (auto simp: task_ok_def)
    moreover have "task_ok e i s" using ok that by (auto simp: engine_ok_def)
    ultimately show ?thesis using touched_task [OF _ touched, of i s] still by (simp add: still_def)
  next
    case True
    have s: "task_ok e i s" using ok that by (auto simp: engine_ok_def)
    have "request_key p = request_key (tk_op s) \<and> state p \<in> set [REQUESTED, CANCELLED]" if p: "p \<in> set (ops ?e)" "operation_id p = i" for p
    proof (cases "p \<in> set (ops e)")
      case False
      then obtain q where "q \<in> set (ops e)" "operation_id q = operation_id p" "request_key q = request_key p"
        using touched p unfolding touches_def by blast
      then show ?thesis using s True p(2) cancel_new [OF p(1) False] by (auto simp: task_ok_def)
    qed (use s True p(2) in \<open>simp add: task_ok_def\<close>)
    then show ?thesis using s True still by (simp add: task_ok_def still_def)
  qed
  then have "engine_ok ?e"
    using ok still accepts_evolves [OF evolves_cancel acc] evolves_spec_ok [OF evolves_cancel acc]
    by (auto simp: engine_ok_def still_def)
  then show ?thesis using evolves_spec [OF evolves_cancel, of e ident] acc by (simp add: follows_def accepts_def)
qed

lemma spec_forget_operations:
  "\<forall>p \<in> set xs. state p \<in> set ACTIVE \<longrightarrow> P p \<Longrightarrow> spec_step\<^sup>*\<^sup>* (zs @ map entry_of xs) (zs @ map entry_of (filter P xs))"
proof (induction xs arbitrary: zs)
  case (Cons x xs)
  show ?case
  proof (cases "P x")
    case True
    then show ?thesis using Cons.IH [of "zs @ [entry_of x]"] Cons.prems by simp
  next
    case False
    then have "spec_step (zs @ map entry_of (x # xs)) (zs @ map entry_of xs)"
      using spec_forget [of "state x" zs "operation_id x" "op_pod_id x" "map entry_of xs"] Cons.prems by (auto simp: entry_of_def)
    moreover have "spec_step\<^sup>*\<^sup>* (zs @ map entry_of xs) (zs @ map entry_of (filter P xs))" using Cons by simp
    ultimately show ?thesis using False by (simp add: converse_rtranclp_into_rtranclp)
  qed
qed simp

lemma spec_request:
  assumes keep: "\<forall>p \<in> set xs. state p \<in> set ACTIVE \<longrightarrow> P p" and adv: "list_all2 advanced (filter P xs) ys"
    and new: "operation_id op \<notin> set (map operation_id xs)"
    and st: "state op = REJECTED \<or> state op = REQUESTED \<and> (\<forall>p \<in> set ys. op_pod_id p = op_pod_id op \<longrightarrow> state p \<notin> set ACTIVE)"
  shows "spec_step\<^sup>*\<^sup>* (map entry_of xs) (map entry_of (ys @ [op]))"
proof -
  have ids: "map operation_id ys = map operation_id (filter P xs)"
    using adv by (induction rule: list_all2_induct) (simp_all add: advanced_def)
  have "set (map operation_id ys) \<subseteq> set (map operation_id xs)" unfolding ids by auto
  then have i: "operation_id op \<notin> fst ` set (map entry_of ys)" using new by (auto simp: entry_of_def)
  have "spec_step\<^sup>*\<^sup>* (map entry_of xs) (map entry_of (filter P xs))" using spec_forget_operations [OF keep, of "[]"] by simp
  moreover have "spec_step\<^sup>*\<^sup>* (map entry_of (filter P xs)) (map entry_of ys)" using spec_advanced [OF adv, of "[]"] by simp
  moreover have "spec_step (map entry_of ys) (map entry_of (ys @ [op]))"
    using st spec_create [OF i, of "op_pod_id op"] spec_refuse [OF i, of "op_pod_id op"] by (auto simp: entry_of_def)
  ultimately show ?thesis by (meson rtranclp.rtrancl_into_rtrancl rtranclp_trans)
qed

lemma follows_request:
  assumes ok: "engine_ok e" and i: "ident \<notin> fst ` set (tasks e)"
  shows "follows e (fst (request_internal ident intent source key run deadline interface receipt e))" (is "follows e ?e")
proof (cases "?e = e")
  case True
  then show ?thesis using follows_refl [OF ok] by simp
next
  case False
  have acc: "accepts e" using ok by (simp add: engine_ok_def)
  from request_result [OF acc, of ident intent source key run deadline interface receipt] False obtain P ys op where
    *: "ops ?e = ys @ [op]" "\<forall>p \<in> set (ops e). state p \<in> set ACTIVE \<longrightarrow> P p" "list_all2 advanced (filter P (ops e)) ys"
    "touches (settleable op) (filter P (ops e)) ys" "operation_id op = ident" "ident \<notin> set (map operation_id (ops e))"
    "state op = REJECTED \<or> state op = REQUESTED \<and> (\<forall>p \<in> set ys. op_pod_id p = op_pod_id op \<longrightarrow> state p \<notin> set ACTIVE)"
    "accepts ?e" "tasks ?e = tasks e" "busy ?e = busy e" by blast
  have spec: "spec_step\<^sup>*\<^sup>* (entries_of e) (entries_of ?e)"
    unfolding entries_of_def *(1) using *(2,3,6,7) *(5) by (intro spec_request) simp_all
  have "task_ok ?e j t" if t: "(j, t) \<in> set (tasks e)" for j t
  proof -
    have tk: "task_ok e j t" using ok t by (auto simp: engine_ok_def)
    have no: "\<not> settleable op p" if "p \<in> set (ops e)" "operation_id p = j" for p using task_states [OF ok t that] by auto
    have j: "j \<noteq> ident" using i t by force
    have old: "p \<in> set (ops e)" if "p \<in> set (ops ?e)" "operation_id p = j" for p
      using that *(1,4,5) j no unfolding touches_def by auto
    have sub: "tk_op t \<in> set (ops ?e)" if "tk_at t = AtSubmit"
      using that tk no *(1,2,4) unfolding touches_def by (auto simp: task_ok_def ACTIVE_def)
    show ?thesis using tk old sub *(10) by (cases "tk_at t = AtSubmit") (simp_all add: task_ok_def)
  qed
  then have "engine_ok ?e" using ok *(8,9) spec_steps_ok [OF spec] by (auto simp: engine_ok_def)
  then show ?thesis using spec by (simp add: follows_def)
qed

text \<open>A restart of the process: the journal is all that is left, and \<open>recover\<close> goes over it.\<close>

lemma follows_restart:
  assumes ok: "engine_ok e" and pid: "pid \<noteq> []"
  shows "follows e (fst (recover (Engine ((en_store e)\<lparr>process_id := pid\<rparr>) backends validate target fingerprint now time)))"
proof -
  let ?e = "Engine ((en_store e)\<lparr>process_id := pid\<rparr>) backends validate target fingerprint now time"
  have e: "entries_of ?e = entries_of e" by (simp add: Engine_def entries_of_def)
  have "store_ok ((en_store e)\<lparr>process_id := pid\<rparr>) = store_ok (en_store e)"
    by (simp add: store_ok_def run_events_def)
  then have "engine_ok ?e" using ok pid e by (simp add: engine_ok_def accepts_def journal_ok_def Engine_def)
  from follows_evolves [OF this evolves_recover] e show ?thesis by (simp add: follows_def Engine_def)
qed

end
