(* ===== verification/Engine_Records.thy ===== *)
theory Engine_Records
  imports Engine_Tasks
begin

text \<open>What the records of operations hold by state (src/src/emosa/reconcile.py, src/src/emosa/store.py): an
  operation that is still open has no evidence that it was applied, its deadline is marked as elapsed only while
  its outcome is unknown, and while it is sent or its outcome is unknown its commit evidence says just that. Every action of the engine keeps this for the journal and for the copies that
  suspended executions hold.\<close>

section \<open>Records in order\<close>

definition tidy :: "operation \<Rightarrow> bool" where
  "tidy op \<longleftrightarrow> (state op \<in> set ACTIVE \<longrightarrow> application_evidence op = None) \<and>
     (state op \<in> set ACTIVE \<and> state op \<noteq> INDETERMINATE \<longrightarrow> \<not> deadline_elapsed op) \<and>
     (state op \<in> set [SUBMITTED, INDETERMINATE] \<longrightarrow> commit_evidence op = [(''attribution'', JStr ''unknown'')])"

definition early :: "operation \<Rightarrow> bool" where
  "early op \<longleftrightarrow> state op \<in> set [REQUESTED, VALIDATED, SUBMITTED] \<and> application_evidence op = None \<and> \<not> deadline_elapsed op \<and>
     (state op = SUBMITTED \<longrightarrow> commit_evidence op = [(''attribution'', JStr ''unknown'')])"

definition records_ok :: "engine \<Rightarrow> bool" where
  "records_ok e \<longleftrightarrow> (\<forall>op \<in> set (ops e). tidy op) \<and> (\<forall>(_, t) \<in> set (tasks e). early (tk_op t))"

lemma early_tidy: "early op \<Longrightarrow> tidy op"
  by (auto simp: early_def tidy_def ACTIVE_def)

lemma tidy_early: "tidy op \<Longrightarrow> state op = REQUESTED \<Longrightarrow> early op"
  by (simp add: early_def tidy_def ACTIVE_def)

lemma settled_tidy: "state op \<notin> set ACTIVE \<Longrightarrow> tidy op"
  by (auto simp: tidy_def ACTIVE_def)

lemma early_update [simp]:
  "early (op\<lparr>op_plan := a\<rparr>) = early op" "early (op\<lparr>schema_fingerprint := b\<rparr>) = early op" "early (op\<lparr>attempts := c\<rparr>) = early op" "early (stamp e op) = early op" "tidy (stamp e op) = tidy op"
  by (simp_all add: early_def tidy_def stamp_def Let_def split: option.split)

lemma tidy_update [simp]:
  "tidy (op\<lparr>op_reason := a\<rparr>) = tidy op" "tidy (op\<lparr>op_changed := c\<rparr>) = tidy op"
  "tidy (op\<lparr>blocked_for_resubmission := d\<rparr>) = tidy op"
  by (simp_all add: tidy_def)

lemma tidy_refused: "state op \<notin> set ACTIVE \<Longrightarrow> tidy (refused (op\<lparr>op_reason := a\<rparr>) r)"
  by (auto simp: refused_def intro: settled_tidy)

lemma tidy_committed: "tidy op \<Longrightarrow> state op = CONFIG_COMMITTED \<Longrightarrow> tidy (op\<lparr>commit_evidence := b\<rparr>)"
  by (simp add: tidy_def)

lemma transition_early: "transition op t ev = Inr op' \<Longrightarrow> early op \<Longrightarrow>
    state op' = t \<and> (t \<noteq> SUBMITTED \<longrightarrow> tidy op') \<and> (t = VALIDATED \<longrightarrow> early op') \<and>
    (t = SUBMITTED \<longrightarrow> early (op'\<lparr>commit_evidence := [(''attribution'', JStr ''unknown'')]\<rparr>))"
  by (auto dest!: transition_target simp: early_def tidy_def)

lemma transition_settled: "transition op t ev = Inr op' \<Longrightarrow> t \<notin> set ACTIVE \<Longrightarrow> tidy op'"
  by (auto dest!: transition_target simp: tidy_def ACTIVE_def)

text \<open>An action that keeps the records in order and whose result, when it returns, satisfies \<open>R\<close>.\<close>

definition keeps :: "(engine, 'a) action \<Rightarrow> ('a \<Rightarrow> bool) \<Rightarrow> bool" where
  "keeps m R \<longleftrightarrow> (\<forall>e. records_ok e \<longrightarrow> records_ok (fst (m e)) \<and> (\<forall>x. snd (m e) = Inr x \<longrightarrow> R x))"

abbreviation anything :: "'a \<Rightarrow> bool" where
  "anything \<equiv> \<lambda>_. True"

lemma keeps_return: "R x \<Longrightarrow> keeps (returnE x) R"
  by (simp add: keeps_def returnE_def)

lemma keeps_raise: "keeps (raiseE y) R"
  by (simp add: keeps_def raiseE_def)

lemma keeps_lift: "(\<And>x. r = Inr x \<Longrightarrow> R x) \<Longrightarrow> keeps (liftE r) R"
  by (simp add: keeps_def liftE_def)

lemma keeps_read: "(\<And>e. records_ok e \<Longrightarrow> R (f e)) \<Longrightarrow> keeps (readE f) R"
  by (simp add: keeps_def readE_def)

lemma keeps_modify: "(\<And>e. records_ok e \<Longrightarrow> records_ok (f e)) \<Longrightarrow> keeps (modifyE f) anything"
  by (simp add: keeps_def modifyE_def)

lemma keeps_bind:
  assumes "keeps m R" "\<And>x. R x \<Longrightarrow> keeps (f x) S"
  shows "keeps (bindE m f) S"
  unfolding keeps_def
proof (intro allI impI)
  fix e assume "records_ok e"
  then have *: "records_ok (fst (m e))" "\<And>x. snd (m e) = Inr x \<Longrightarrow> R x" using assms(1) by (auto simp: keeps_def)
  show "records_ok (fst (bindE m f e)) \<and> (\<forall>x. snd (bindE m f e) = Inr x \<longrightarrow> S x)"
  proof (cases "m e")
    case (Pair e' r)
    then show ?thesis using * assms(2) by (cases r) (auto simp: bindE_def keeps_def)
  qed
qed

lemma keeps_mono: "keeps m R \<Longrightarrow> (\<And>x. R x \<Longrightarrow> S x) \<Longrightarrow> keeps m S"
  by (auto simp: keeps_def)

lemma keeps_then: "keeps m R \<Longrightarrow> (\<And>x. R x \<Longrightarrow> keeps (f x) S) \<Longrightarrow> (\<And>y. keeps (g y) S) \<Longrightarrow>
    keeps (\<lambda>e. case m e of (e, Inl y) \<Rightarrow> g y e | (e, Inr x) \<Rightarrow> f x e) S"
  unfolding keeps_def by (auto split: prod.split sum.split)

lemma keeps_fields [simp]: "records_ok (e\<lparr>wsc_guards := g\<rparr>) = records_ok e" "records_ok (e\<lparr>quiesced := b\<rparr>) = records_ok e"
  "records_ok (e\<lparr>monotonic := now, utc := time\<rparr>) = records_ok e" "records_ok (e\<lparr>busy := p\<rparr>) = records_ok e"
  "records_ok (e\<lparr>deadlines := d\<rparr>) = records_ok e" "records_ok (e\<lparr>starts := s\<rparr>) = records_ok e"
  "records_ok (e\<lparr>instances := i\<rparr>) = records_ok e" "records_ok (e\<lparr>last_observations := l\<rparr>) = records_ok e"
  by (simp_all add: records_ok_def)

lemma keeps_lift_store:
  assumes "\<And>e st. records_ok e \<Longrightarrow> f (en_store e) = Inr st \<Longrightarrow> \<forall>op \<in> set (st_operations st). tidy op"
  shows "keeps (lift_store f) anything"
  using assms by (auto simp: keeps_def lift_store_def records_ok_def split: sum.split)

lemma keeps_store:
  "keeps (lift_store (\<lambda>st. Inr (store_event st run phase payload pod))) anything"
  "keeps (lift_store (\<lambda>st. Inr (conflict st pod' info))) anything" "keeps (lift_store (\<lambda>st. Inr (release st pod'))) anything"
  by (rule keeps_lift_store, auto simp: records_ok_def)+

lemma keeps_save: "tidy op \<Longrightarrow> keeps (save_op op payload) (\<lambda>op'. \<exists>e. op' = stamp e op)"
  unfolding keeps_def save_op_run
  by (auto simp: records_ok_def put_operation_def dest!: save_fields split: sum.split)

lemma keeps_add: "tidy op \<Longrightarrow> keeps (lift_store (\<lambda>st. add st op receipt)) anything"
  by (rule keeps_lift_store) (auto simp: records_ok_def dest!: add_operations_filter)

lemma keeps_each: "(\<And>x. x \<in> set xs \<Longrightarrow> keeps (f x) anything) \<Longrightarrow> keeps (eachE f xs) anything"
  by (induction xs) (auto intro!: keeps_return keeps_bind)

lemmas keeps_intros = keeps_return keeps_raise keeps_lift keeps_read keeps_store

section \<open>The parts of the actions\<close>

lemma keeps_owned: "keeps (owned pod run) anything"
  unfolding owned_def
  by (rule keeps_bind [of _ anything]) (auto intro!: keeps_intros keeps_bind [of _ anything] split: option.split prod.split)

lemma keeps_settle: "keeps (settle_restarted op current) anything"
  unfolding settle_restarted_def
  by (auto intro!: keeps_intros keeps_bind [of "liftE _" tidy] keeps_bind [of "save_op _ _", OF keeps_save]
      elim: transition_settled simp: ACTIVE_def)

lemma keeps_reject: "keeps (reject op code) anything"
  unfolding reject_def
  by (rule keeps_bind [of _ tidy], rule keeps_lift, erule transition_settled, simp add: ACTIVE_def)
    (rule keeps_mono [OF keeps_save], simp_all)

lemma keeps_remember: "keeps (remember pod snap) anything"
  unfolding remember_def by (rule keeps_modify) (simp split: option.split)

lemma keeps_expired: "keeps (expired op) anything"
  unfolding expired_def by (rule keeps_bind [of _ anything]) (auto intro!: keeps_modify keeps_intros)

lemma keeps_note: "keeps (note_observation pod snap target op) anything"
  unfolding note_observation_def
  by (rule keeps_bind [of _ anything]) (auto intro!: keeps_intros keeps_bind [of _ anything] keeps_modify)

section \<open>The actions\<close>

lemma keeps_admit: "keeps (admit op) anything"
  unfolding admit_def Let_def
  by (rule keeps_bind [of _ anything])
    (auto intro!: keeps_intros keeps_bind [of _ anything] keeps_each keeps_settle keeps_reject keeps_owned split: prod.split)

lemma keeps_request: "keeps (request_internal ident intent source key run deadline interface receipt) anything"
proof -
  have "tidy (Operation ident run source interface intent f key c u d)" for f c u d by (simp add: Operation_def tidy_def)
  then show ?thesis unfolding request_internal_def Let_def
    by (auto intro!: keeps_intros keeps_bind [of _ anything] keeps_add keeps_modify keeps_admit split: option.split)
qed

lemma keeps_leave: "keeps (leave op r) anything"
  by (auto simp: keeps_def leave_def Let_def records_ok_def delete_filter split: sum.split)

lemma keeps_leave_with: "keeps m R \<Longrightarrow> keeps (leave_with op m) anything"
  using keeps_leave by (simp add: keeps_def leave_with_def case_prod_beta)

lemma keeps_failed: "keeps (failed_validation op x) anything"
  unfolding failed_validation_def by (rule keeps_leave_with [of _ anything]) (auto intro: keeps_reject keeps_raise split: exn.split)

lemma keeps_suspend: "early op \<Longrightarrow> keeps (suspend op w) anything"
  unfolding suspend_def
  by (auto intro!: keeps_bind [of _ anything] keeps_modify keeps_return simp: records_ok_def delete_filter)

lemma keeps_plan_checks: "keeps (plan_checks pod) anything"
  unfolding plan_checks_def by (auto intro!: keeps_intros keeps_bind [of _ anything] keeps_owned)

lemma keeps_start_plan: "early op \<Longrightarrow> keeps (start_plan op) anything"
  unfolding start_plan_def by (rule keeps_then [OF keeps_plan_checks keeps_suspend keeps_failed])

lemma keeps_execute: "keeps (execute ident) anything"
proof -
  have stored: "keeps (bindE (liftE (store_get (en_store e) ident)) f) anything"
    if "records_ok e" "\<And>op. tidy op \<Longrightarrow> keeps (f op) anything" for e and f :: "operation \<Rightarrow> (engine, operation option) action"
    by (rule keeps_bind [of _ tidy]) (use that in \<open>auto intro!: keeps_lift dest: get_in simp: records_ok_def\<close>)
  show ?thesis
    unfolding execute_def
    by (rule keeps_bind [of _ records_ok], simp add: keeps_read, erule stored)
      (auto intro!: keeps_intros keeps_bind [of _ anything] keeps_modify keeps_leave keeps_failed keeps_suspend keeps_start_plan tidy_early
        split: sum.split bool.split)
qed

lemma keeps_submit_start:
  assumes "early op"
  shows "keeps (submit_start op snap attempt_id transaction_id) anything"
proof -
  have noop: "keeps (bindE (liftE (transition op OBSERVED_APPLIED ev)) (\<lambda>op. save_op (op\<lparr>op_changed := c, application_evidence := a\<rparr>) pl)) anything"
    for ev c a pl
    by (rule keeps_bind [of _ "\<lambda>op. state op = OBSERVED_APPLIED"])
      (auto intro!: keeps_lift keeps_mono [OF keeps_save] settled_tidy dest!: transition_target simp: ACTIVE_def)
  have sent: "keeps (bindE (liftE (transition (op\<lparr>attempts := x\<rparr>) SUBMITTED []))
      (\<lambda>op. save_op (op\<lparr>commit_evidence := [(''attribution'', JStr ''unknown'')]\<rparr>) pl)) early" for x pl
    by (rule keeps_bind [of _ "\<lambda>op. early (op\<lparr>commit_evidence := [(''attribution'', JStr ''unknown'')]\<rparr>)"])
      (use assms in \<open>auto intro!: keeps_lift keeps_mono [OF keeps_save] early_tidy dest: transition_early\<close>)
  show ?thesis unfolding keeps_def submit_start_def Let_def
    using keeps_leave [of op] keeps_leave_with [OF noop, of op] keeps_then [OF sent keeps_suspend keeps_leave]
    by (auto simp: keeps_def split: sum.split)
qed

lemma keeps_validated:
  assumes "early op"
  shows "keeps (validated op snap attempt_id transaction_id) anything"
proof -
  have *: "keeps (\<lambda>e. case save_op op1 pl e of (e, Inl x) \<Rightarrow> failed_validation (stamp e op1) x e
      | (e, Inr op) \<Rightarrow> submit_start op snap attempt_id transaction_id e) anything" if "early op1" for op1 pl
  proof (rule keeps_then [OF keeps_save [OF early_tidy [OF that]]])
    show "keeps (submit_start op2 snap attempt_id transaction_id) anything" if "\<exists>e. op2 = stamp e op1" for op2
      using that \<open>early op1\<close> by (auto intro: keeps_submit_start)
    show "keeps (\<lambda>e. failed_validation (stamp e op1) x e) anything" for x using keeps_failed by (simp add: keeps_def)
  qed
  have "early op1" if "transition (op\<lparr>schema_fingerprint := f\<rparr>) VALIDATED [] = Inr op1" for f op1
    using transition_early [OF that] assms by simp
  then show ?thesis unfolding keeps_def validated_def
    using * keeps_failed keeps_leave by (auto simp: keeps_def split: sum.split)
qed
text \<open>A resumed task finds its own copy of the operation.\<close>

lemma keeps_task:
  assumes "\<And>t. early (tk_op t) \<Longrightarrow> keeps (f t) anything"
  shows "keeps (\<lambda>e. case map_of (tasks e) ident of Some t \<Rightarrow> f t e | None \<Rightarrow> (e, Inr None)) anything"
  unfolding keeps_def
proof (intro allI impI conjI)
  fix e assume ok: "records_ok e"
  have "early (tk_op t)" if "map_of (tasks e) ident = Some t" for t using map_of_SomeD [OF that] ok by (auto simp: records_ok_def)
  then show "records_ok (fst (case map_of (tasks e) ident of Some t \<Rightarrow> f t e | None \<Rightarrow> (e, Inr None)))"
    using ok assms by (auto simp: keeps_def split: option.split)
qed simp

lemma keeps_idle: "keeps (\<lambda>e. (e, Inr None)) anything"
  by (simp add: keeps_def)

lemma keeps_if: "(b \<Longrightarrow> keeps f R) \<Longrightarrow> (\<not> b \<Longrightarrow> keeps g R) \<Longrightarrow> keeps (\<lambda>e. if b then f e else g e) R"
  by (cases b) simp_all

lemma keeps_resume_guard: "keeps (resume_guard ident r) anything"
  unfolding resume_guard_def
  by (rule keeps_task, rule keeps_if) (cases r; simp add: keeps_failed keeps_start_plan keeps_idle)+

lemma keeps_resume_plan: "keeps (resume_plan ident r) anything"
  unfolding resume_plan_def
  by (rule keeps_task, rule keeps_if) (cases r; simp add: keeps_failed keeps_suspend keeps_idle)+

lemma keeps_decide:
  assumes "early op"
  shows "keeps (\<lambda>e. if \<not> ready snap then failed_validation op (EmosaError NOT_READY) e
     else case check_wsc e op of Inl x \<Rightarrow> failed_validation op x e | Inr True \<Rightarrow> suspend op (AtSecondGuard snap) e
          | Inr False \<Rightarrow> validated op snap attempt_id transaction_id e) anything"
  unfolding keeps_def
proof (intro allI impI conjI)
  fix e assume ok: "records_ok e"
  note * = keeps_failed keeps_suspend [OF assms, of "AtSecondGuard snap"] keeps_validated [OF assms, of snap attempt_id transaction_id]
  show "records_ok (fst (if \<not> ready snap then failed_validation op (EmosaError NOT_READY) e
     else case check_wsc e op of Inl x \<Rightarrow> failed_validation op x e | Inr True \<Rightarrow> suspend op (AtSecondGuard snap) e
          | Inr False \<Rightarrow> validated op snap attempt_id transaction_id e))"
    using *[unfolded keeps_def, rule_format, OF ok] by (simp split: sum.split bool.split)
qed simp

lemma keeps_result: "(\<And>x. r = Inl x \<Longrightarrow> keeps (f x) R) \<Longrightarrow> (\<And>y. r = Inr y \<Longrightarrow> keeps (g y) R) \<Longrightarrow>
    keeps (\<lambda>e. case r of Inl x \<Rightarrow> f x e | Inr y \<Rightarrow> g y e) R"
  by (cases r) simp_all

lemma keeps_resume_snapshot: "keeps (resume_snapshot ident r attempt_id transaction_id) anything"
  unfolding resume_snapshot_def Let_def
proof (rule keeps_task, rule keeps_if [OF keeps_result [OF keeps_failed] keeps_idle])
  fix t snap assume "early (tk_op t)"
  from keeps_decide [OF this, of snap attempt_id transaction_id] keeps_remember [of "op_pod_id (tk_op t)" snap]
  show "keeps (\<lambda>e. if \<not> ready snap then failed_validation (tk_op t) (EmosaError NOT_READY) (fst (remember (op_pod_id (tk_op t)) snap e))
     else case check_wsc (fst (remember (op_pod_id (tk_op t)) snap e)) (tk_op t) of
            Inl x \<Rightarrow> failed_validation (tk_op t) x (fst (remember (op_pod_id (tk_op t)) snap e))
          | Inr True \<Rightarrow> suspend (tk_op t) (AtSecondGuard snap) (fst (remember (op_pod_id (tk_op t)) snap e))
          | Inr False \<Rightarrow> validated (tk_op t) snap attempt_id transaction_id (fst (remember (op_pod_id (tk_op t)) snap e))) anything"
    unfolding keeps_def by blast
qed

lemma keeps_resume_second_guard: "keeps (resume_second_guard ident r attempt_id transaction_id) anything"
  unfolding resume_second_guard_def
proof (rule keeps_task)
  fix t assume "early (tk_op t)"
  then show "keeps (\<lambda>e. case tk_at t of AtSecondGuard snap \<Rightarrow>
      (case r of Inl x \<Rightarrow> failed_validation (tk_op t) x e | Inr _ \<Rightarrow> validated (tk_op t) snap attempt_id transaction_id e)
    | _ \<Rightarrow> (e, Inr None)) anything"
    by (cases "tk_at t"; cases r) (simp_all add: keeps_failed keeps_validated keeps_idle)
qed

lemma keeps_submit_outcome:
  assumes "early op"
  shows "keeps (submit_outcome op r) tidy"
proof -
  have u: "keeps (liftE (unknown_outcome op)) tidy"
    using assms by (auto intro!: keeps_lift simp: unknown_outcome_def bindR_eq_Inr dest!: transition_early)
  have t: "keeps (liftE (transition op s ev)) (\<lambda>op'. state op' = s \<and> (s \<noteq> SUBMITTED \<longrightarrow> tidy op'))" for s ev
    using assms by (auto intro!: keeps_lift dest: transition_early)
  show ?thesis unfolding submit_outcome_def Let_def
    by (auto intro!: keeps_return keeps_raise u keeps_bind [OF t] keeps_bind [OF keeps_store(2)] tidy_refused tidy_committed
        simp: ACTIVE_def split: sum.split exn.split)
qed

lemma keeps_resume_submit: "keeps (resume_submit ident r) anything"
  unfolding resume_submit_def
  by (intro keeps_task keeps_if keeps_idle keeps_leave_with [of _ anything] keeps_bind [OF keeps_submit_outcome])
    (auto intro: keeps_mono [OF keeps_save])

lemma past_deadline_tidy: "past_deadline op late = Inr (op', ch) \<Longrightarrow> tidy op \<Longrightarrow> tidy op'"
  by (auto simp: past_deadline_def Let_def bindR_eq_Inr tidy_def ACTIVE_def split: if_splits dest!: transition_target)

lemma time_out_tidy: "time_out_unknown snap target op ch = Inr (op', ch') \<Longrightarrow> tidy op \<Longrightarrow> tidy op'"
  by (auto simp: time_out_unknown_def bindR_eq_Inr tidy_def ACTIVE_def split: if_splits dest!: transition_target)

lemma applied_tidy: "applied_now snap op = Inr (op', ch) \<Longrightarrow> tidy op'"
  by (rule settled_tidy) (auto simp: applied_now_def Let_def bindR_eq_Inr ACTIVE_def split: if_splits dest!: transition_target)

lemma keeps_settle_observed:
  assumes "tidy op"
  shows "keeps (settle_observed pod snap target op ch) (\<lambda>(op', _). tidy op')"
proof -
  have "keeps (lost_ownership pod snap op ch) (\<lambda>(op', _). tidy op')"
    unfolding lost_ownership_def
    by (rule keeps_bind [OF keeps_store(2)], rule keeps_bind [of _ tidy])
      (use assms in \<open>auto intro!: keeps_intros elim: transition_settled simp: ACTIVE_def split: if_splits\<close>)
  then show ?thesis unfolding settle_observed_def Let_def
    using assms by (auto intro!: keeps_intros keeps_bind [of _ anything] dest: applied_tidy)
qed

lemma keeps_observe:
  assumes "tidy op"
  shows "keeps (observe pod snap op ch) (\<lambda>(op', _). tidy op')"
proof -
  have "keeps (bindE (note_observation pod snap target op) (\<lambda>_.
      bindE (liftE (time_out_unknown snap target op ch)) (\<lambda>(op, ch). settle_observed pod snap target op ch))) (\<lambda>(op', _). tidy op')" for target
    by (rule keeps_bind [OF keeps_note], rule keeps_bind [of _ "\<lambda>(op', _). tidy op'"])
      (use assms in \<open>auto intro!: keeps_lift keeps_settle_observed dest: time_out_tidy\<close>)
  then show ?thesis unfolding observe_def
    by - (rule keeps_bind [of _ anything], use assms in \<open>auto intro!: keeps_intros split: sum.split exn.split\<close>)
qed

lemma keeps_reconcile_op:
  assumes "tidy op"
  shows "keeps (reconcile_op pod snap later op) anything"
proof -
  have decide: "keeps (liftE (past_deadline op late)) (\<lambda>(op', _). tidy op')" for late
    using assms by (auto intro!: keeps_lift dest: past_deadline_tidy)
  have "keeps (bindE (observe pod snap op1 ch) (\<lambda>(op, ch). if ch then bindE (save_op op payload) (\<lambda>_. returnE ()) else returnE ())) anything"
    if "tidy op1" for op1 ch payload
    by (rule keeps_bind [OF keeps_observe [OF that]]) (auto intro!: keeps_bind [OF keeps_save] keeps_return)
  then show ?thesis unfolding reconcile_op_def
    by (auto intro!: keeps_return keeps_bind [OF keeps_settle] keeps_bind [OF keeps_expired] keeps_bind [OF decide])
qed

lemma keeps_operations:
  assumes "\<And>xs. \<forall>op \<in> set xs. tidy op \<Longrightarrow> keeps (f xs) R"
  shows "keeps (bindE (readE (\<lambda>e. operations (en_store e) None)) f) R"
  by (rule keeps_bind [of _ "\<lambda>xs. \<forall>op \<in> set xs. tidy op"]) (use assms in \<open>auto intro!: keeps_read simp: operations_def records_ok_def\<close>)

lemma keeps_reconcile: "keeps (reconcile pod snap) anything"
proof -
  have "keeps (reconcile_ops pod snap xs) anything" if "\<forall>op \<in> set xs. tidy op" for xs
    using that by (induction xs) (auto intro!: keeps_return keeps_bind [OF keeps_reconcile_op])
  then show ?thesis unfolding reconcile_def
    by (intro keeps_bind [OF keeps_remember] keeps_operations keeps_bind [of _ anything] keeps_return) auto
qed

lemma keeps_recover_op:
  assumes "tidy op"
  shows "keeps (recover_op op) anything"
proof -
  let ?u = "[(''attribution'', JStr ''unknown'')]"
  have cancels: "keeps (bindE (liftE (transition op CANCELLED [])) (\<lambda>op. bindE (save_op op pl) (\<lambda>_. returnE ()))) anything" for pl
    by (rule keeps_bind [of _ tidy], rule keeps_lift, erule transition_settled, simp add: ACTIVE_def)
      (rule keeps_bind [OF keeps_save], simp_all add: keeps_return)
  have unknown: "keeps (bindE (liftE (transition op INDETERMINATE []))
      (\<lambda>op. bindE (save_op (op\<lparr>commit_evidence := ?u, op_reason := r\<rparr>) pl) (\<lambda>_. returnE ()))) anything" if "state op = SUBMITTED" for r pl
  proof (rule keeps_bind [of _ "\<lambda>op'. tidy (op'\<lparr>commit_evidence := ?u\<rparr>)"])
    show "keeps (liftE (transition op INDETERMINATE [])) (\<lambda>op'. tidy (op'\<lparr>commit_evidence := ?u\<rparr>))"
      using assms that by (auto intro!: keeps_lift dest!: transition_target simp: tidy_def ACTIVE_def)
    show "keeps (bindE (save_op (op'\<lparr>commit_evidence := ?u, op_reason := r\<rparr>) pl) (\<lambda>_. returnE ())) anything"
      if "tidy (op'\<lparr>commit_evidence := ?u\<rparr>)" for op'
      by (rule keeps_bind [OF keeps_save]) (use that in \<open>simp_all add: keeps_return\<close>)
  qed
  show ?thesis unfolding recover_op_def by (simp add: cancels unknown keeps_return del: reason_value.simps)
qed

lemma keeps_recover: "keeps recover anything"
  unfolding recover_def by (rule keeps_operations, rule keeps_each) (simp add: keeps_recover_op)

lemma keeps_cancel: "keeps (cancel ident) anything"
proof -
  have "keeps (bindE (liftE (transition op CANCELLED [])) (\<lambda>op. save_op op [])) anything" for op
    by (rule keeps_bind [of _ tidy])
      (auto intro!: keeps_lift keeps_mono [OF keeps_save] elim: transition_settled simp: ACTIVE_def)
  then show ?thesis unfolding cancel_def
    by - (rule keeps_bind [of _ anything], simp add: keeps_read, rule keeps_bind [of _ anything], simp_all add: keeps_lift)
qed

lemma keeps_records: "keeps m R \<Longrightarrow> records_ok e \<Longrightarrow> records_ok (fst (m e))"
  by (simp add: keeps_def)

lemmas records_steps = keeps_request [THEN keeps_records] keeps_execute [THEN keeps_records] keeps_resume_guard [THEN keeps_records]
  keeps_resume_plan [THEN keeps_records] keeps_resume_snapshot [THEN keeps_records] keeps_resume_second_guard [THEN keeps_records]
  keeps_resume_submit [THEN keeps_records] keeps_reconcile [THEN keeps_records] keeps_cancel [THEN keeps_records]
  keeps_store(3) [THEN keeps_records]

lemma unknown_start: "tidy op \<Longrightarrow> state op = INDETERMINATE \<Longrightarrow> \<not> written_on_another_start op inst"
  by (simp add: tidy_def ACTIVE_def written_on_another_start_def Let_def dget_def)

end
