(* ===== verification/Engine_Machine.thy ===== *)
theory Engine_Machine
  imports Engine_Records
begin

text \<open>The engine as a state machine, with its invariant, and the course of a reconciliation that finds an operation
  past its deadline.\<close>

section \<open>The engine as a state machine\<close>

text \<open>A step is a call from outside, a task that resumes because what it awaited returned or raised, the passing of time,
  or a restart of the process, which leaves only the journal. A new identifier is none a task has.\<close>

inductive engine_step :: "engine \<Rightarrow> engine \<Rightarrow> bool" where
  step_request: "ident \<notin> fst ` set (tasks e) \<Longrightarrow>
     engine_step e (fst (request_internal ident intent source key run deadline interface receipt e))"
| step_execute: "engine_step e (fst (execute ident e))"
| step_guard: "engine_step e (fst (resume_guard ident granted e))"
| step_plan: "engine_step e (fst (resume_plan ident plan e))"
| step_snapshot: "engine_step e (fst (resume_snapshot ident snap attempt_id transaction_id e))"
| step_second_guard: "engine_step e (fst (resume_second_guard ident granted attempt_id transaction_id e))"
| step_submit: "engine_step e (fst (resume_submit ident result e))"
| step_reconcile: "engine_step e (fst (reconcile pod snap' e))"
| step_cancel: "engine_step e (fst (cancel ident e))"
| step_requalify: "engine_step e (fst (lift_store (\<lambda>st. Inr (release st pod)) e))"
| step_authority: "engine_step e (e\<lparr>wsc_guards := guards\<rparr>)"
| step_quiesce: "engine_step e (e\<lparr>quiesced := quiet_now\<rparr>)"
| step_time: "monotonic e \<le> now \<Longrightarrow> engine_step e (e\<lparr>monotonic := now, utc := time\<rparr>)"
| step_restart: "pid \<noteq> [] \<Longrightarrow>
     engine_step e (fst (recover (Engine ((en_store e)\<lparr>process_id := pid\<rparr>) backends validate target fingerprint now time)))"

definition engine_init :: "engine \<Rightarrow> bool" where
  "engine_init e \<longleftrightarrow> store_init (en_store e) \<and> schema_like (contract (en_store e)) \<and> process_id (en_store e) \<noteq> [] \<and>
     starts e = [] \<and> busy e = [] \<and> tasks e = []"

lemma task_fields [simp]: "task_ok (e\<lparr>quiesced := b\<rparr>) i t = task_ok e i t" "task_ok (e\<lparr>monotonic := now, utc := time\<rparr>) i t = task_ok e i t"
  by (simp_all add: task_ok_def)

lemma follows_fields:
  assumes ok: "engine_ok e"
  shows "follows e (e\<lparr>wsc_guards := g\<rparr>)" "follows e (e\<lparr>quiesced := b\<rparr>)" "monotonic e \<le> now \<Longrightarrow> follows e (e\<lparr>monotonic := now, utc := time\<rparr>)"
proof -
  show "follows e (e\<lparr>wsc_guards := g\<rparr>)" "follows e (e\<lparr>quiesced := b\<rparr>)" using ok
    by (simp_all add: follows_def entries_of_def engine_ok_def accepts_def)
  assume "monotonic e \<le> now"
  then have "\<forall>(_, t) \<in> set (starts e). t \<le> now" using ok by (fastforce simp: engine_ok_def accepts_def)
  then show "follows e (e\<lparr>monotonic := now, utc := time\<rparr>)" using ok
    by (simp add: follows_def entries_of_def engine_ok_def accepts_def)
qed

lemma follows_step: "engine_step e e' \<Longrightarrow> engine_ok e \<Longrightarrow> follows e e'"
  by (induction rule: engine_step.induct)
    (simp_all add: follows_request follows_execute follows_resume_guard follows_resume_plan follows_resume_snapshot
      follows_resume_second_guard follows_resume_submit follows_reconcile follows_cancel follows_release follows_fields follows_restart)

interpretation machine: state_invariant engine_init engine_step engine_ok
proof
  fix e assume init: "engine_init e"
  then have "store_ok (en_store e)" using journal.inv_init by (simp add: engine_init_def)
  with init show "engine_ok e"
    by (simp add: engine_init_def engine_ok_def accepts_def journal_ok_def store_init_def entries_of_def spec_ok_def)
next
  fix e e' assume "engine_ok e" "engine_step e e'"
  then show "engine_ok e'" using follows_step by (simp add: follows_def)
qed

interpretation records: state_invariant engine_init engine_step records_ok
proof
  fix e assume "engine_init e"
  then show "records_ok e" by (simp add: engine_init_def store_init_def records_ok_def)
next
  fix e e' assume ok: "records_ok e" and step: "engine_step e e'"
  from step ok show "records_ok e'"
  proof (induction rule: engine_step.induct)
    case (step_restart pid e backends validate target fingerprint now time)
    then have "records_ok (Engine ((en_store e)\<lparr>process_id := pid\<rparr>) backends validate target fingerprint now time)"
      by (simp add: records_ok_def Engine_def)
    then show ?case by (rule keeps_records [OF keeps_recover])
  qed (simp_all add: records_steps)
qed

lemma active_last:
  assumes "spec_ok (map entry_of xs)" "p \<in> set xs" "q \<in> set xs" "op_pod_id p = op_pod_id q" "state p \<in> set ACTIVE" "state q \<in> set ACTIVE"
  shows "p = q"
proof -
  have r: "REJECTED \<notin> set ACTIVE" by (simp add: ACTIVE_def)
  obtain i j where ij: "i < length xs" "j < length xs" "xs ! i = p" "xs ! j = q" using assms(2,3) by (metis in_set_conv_nth)
  have sw: "sorted_wrt settled_after (map entry_of xs)" using assms(1) by (simp add: spec_ok_def)
  have "\<not> i < j" using sorted_wrt_nth_less [OF sw, of i j] ij assms(4-6) r by (auto simp: settled_after_def entry_of_def)
  moreover have "\<not> j < i" using sorted_wrt_nth_less [OF sw, of j i] ij assms(4-6) r by (auto simp: settled_after_def entry_of_def)
  ultimately have "i = j" by simp
  then show ?thesis using ij by simp
qed

section \<open>Writes that are accepted\<close>

lemma bindE_Inr: "snd (m e) = Inr y \<Longrightarrow> bindE m f e = f y (fst (m e))"
  by (cases "m e") (simp add: bindE_def)

lemma quiet_keeps:
  assumes "quiet m" "accepts e"
  shows "ops (fst (m e)) = ops e" "accepts (fst (m e))" "still e (fst (m e))"
proof -
  have ev: "evolves Q e (fst (m e))" for Q using assms(1) by (simp add: quiet_def)
  show "ops (fst (m e)) = ops e" using assms(1) by (simp add: quiet_def)
  show "accepts (fst (m e))" using accepts_evolves [OF ev assms(2)] .
  show "still e (fst (m e))" using ev assms(2) unfolding evolves_def accepts_def by blast
qed

text \<open>A later version of a stored operation that keeps what the schema looks at is accepted and replaces it.\<close>

definition revises :: "operation \<Rightarrow> operation \<Rightarrow> bool" where
  "revises op op' \<longleftrightarrow> advanced op op' \<and> identifies op op' \<and> timings op' = timings op \<and> attributed op'"

lemma save_replaces:
  assumes acc: "accepts e" and op: "op \<in> set (ops e)" and r: "revises op op'"
  shows "snd (save_op op' payload e) = Inr (stamp e op') \<and> evolves (\<lambda>p. p = op) e (fst (save_op op' payload e)) \<and>
    (\<forall>q \<in> set (ops (fst (save_op op' payload e))). operation_id q = operation_id op \<longrightarrow> q = stamp e op')"
proof -
  obtain st where st: "save (en_store e) (stamp e op') payload = Inr st"
    using accepts_save [OF acc accepts_stored(1) [OF acc op], of op'] r by (auto simp: revises_def)
  have ev: "evolves (\<lambda>p. p = op) e (fst (save_op op' payload e))"
    using evolves_save_stored [of op e "\<lambda>p. p = op" op' payload] op r by (simp add: revises_def)
  have id: "operation_id op' = operation_id op" using r by (simp add: revises_def advanced_def)
  have "store_ok (en_store (fst (save_op op' payload e)))" using accepts_evolves [OF ev acc] by (simp add: accepts_def journal_ok_def)
  moreover have "stamp e op' \<in> set (ops (fst (save_op op' payload e)))"
    using put_operation_in [OF op, of "stamp e op'"] save_fields [OF st] id by (simp add: save_op_run st)
  ultimately have "q = stamp e op'" if "q \<in> set (ops (fst (save_op op' payload e)))" "operation_id q = operation_id op" for q
    using unique_stored [of "fst (save_op op' payload e)" q "stamp e op'"] that id by simp
  then show ?thesis using ev by (simp add: save_op_run st)
qed

section \<open>Reconciliation of an overdue operation\<close>

lemma reconcile_ops_skip:
  "\<forall>p \<in> set ys. op_pod_id p = pod \<longrightarrow> state p \<notin> set RECONCILED \<Longrightarrow> reconcile_ops pod snap ys e = (e, Inr ())"
  by (induction ys) (auto simp: reconcile_op_def RECONCILED_def returnE_def)

lemma reconcile_ops_last:
  assumes "op_pod_id op = pod" "state op \<in> set RECONCILED" "\<forall>p \<in> set ys. op_pod_id p = pod \<longrightarrow> state p \<notin> set RECONCILED"
  shows "reconcile_ops pod snap (xs @ op # ys) e = reconcile_op pod snap ys op e"
proof (induction xs)
  case Nil
  have "reconcile_ops pod snap ys = (\<lambda>e. (e, Inr ()))" using reconcile_ops_skip [OF assms(3)] by blast
  then show ?case by (cases "reconcile_op pod snap ys op e"; cases "snd (reconcile_op pod snap ys op e)") (simp_all add: bindE_def)
next
  case (Cons x xs)
  have "reconcile_op pod snap (xs @ op # ys) x = returnE ()" using assms(1,2) by (simp add: reconcile_op_def)
  then show ?case using Cons by simp
qed

text \<open>An operation whose deadline has passed, and what settling it keeps.\<close>

definition overdue :: "engine \<Rightarrow> operation \<Rightarrow> bool" where
  "overdue e op \<longleftrightarrow> (case map_of (deadlines e) (operation_id op) of Some d \<Rightarrow> d \<le> monotonic e | None \<Rightarrow> deadline_at op \<le> utc e)"

definition settles :: "operation \<Rightarrow> operation \<Rightarrow> bool" where
  "settles op op' \<longleftrightarrow> state op' \<in> set [TIMED_OUT, OBSERVED_APPLIED] \<and> identifies op op' \<and> timings op' = timings op \<and>
     commit_evidence op' = commit_evidence op"

lemma expired_overdue: "overdue e op \<Longrightarrow> snd (expired op e) = Inr True"
  by (auto simp: overdue_def expired_def modifyE_def readE_def AList.update_conv' split: option.splits)

lemma attributed_item: "attributed op \<Longrightarrow> \<exists>v. dict_item (commit_evidence op) ''attribution'' = Inr v"
  by (auto simp: attributed_def dict_item_def)

lemma applied_settles:
  assumes "attributed op" "obs_fresh (observed snap)" "state op \<in> set [INDETERMINATE, TIMED_OUT]"
  shows "\<exists>op'. applied_now snap op = Inr (op', True) \<and> settles op op'"
proof -
  obtain v where v: "dict_item (commit_evidence op) ''attribution'' = Inr v" using attributed_item [OF assms(1)] by blast
  have ev: "truthy (dget (evidence snap []) ''fresh'')" "truthy (dget (evidence snap []) ''predicate_satisfied'')"
    using assms(2) by (auto simp: evidence_def dget_def Let_def)
  have "transition (op\<lparr>application_evidence := a, late_resolution := b\<rparr>) OBSERVED_APPLIED (evidence snap []) =
      Inr (op\<lparr>application_evidence := a, late_resolution := b, state := OBSERVED_APPLIED\<rparr>)"
    "transition (op\<lparr>application_evidence := a\<rparr>) OBSERVED_APPLIED (evidence snap []) =
      Inr (op\<lparr>application_evidence := a, state := OBSERVED_APPLIED\<rparr>)" if "state op = INDETERMINATE" for a b
    using that ev by (simp_all add: transition_def)
  then show ?thesis using assms(3) v
    by (cases "state op = TIMED_OUT"; cases "deadline_elapsed op"; cases "v = JStr ''unknown''")
      (auto simp: applied_now_def Let_def settles_def identifies_def)
qed

lemma settles_timed_out:
  assumes "state op = TIMED_OUT" "attributed op" "map_of (en_backends e) pod \<noteq> None"
  shows "\<exists>op'. snd (settle_observed pod snap target op True e) = Inr (op', True) \<and> settles op op'"
proof -
  obtain m where m: "remapped e op pod = Inr m" using assms(3) by (auto simp: remapped_def Let_def)
  have lost: "\<exists>op'. snd (lost_ownership pod snap op True e) = Inr (op', True) \<and> settles op op'"
    using assms(1) by (auto simp: lost_ownership_def lift_store_def bindE_def liftE_def returnE_def settles_def identifies_def)
  show ?thesis
    using lost applied_settles [OF assms(2), of snap] assms(1) m
    by (auto simp: settle_observed_def Let_def readE_def returnE_def settles_def liftE_def)
qed

lemma settles_applied:
  assumes "state op = INDETERMINATE" "application_evidence op = None" "attributed op" "ready snap" "obs_fresh (observed snap)"
    "matches (sn_config snap) target" "satisfies (observed snap) target"
  shows "\<exists>op'. snd (settle_observed pod snap target op ch e) = Inr (op', True) \<and> settles op op'"
  using applied_settles [OF assms(3,5)] assms by (auto simp: settle_observed_def Let_def liftE_def)

lemma note_returns: "snd (note_observation pod snap target op e) = Inr ()"
  by (simp add: note_observation_def returnE_def lift_store_def modifyE_def)

lemma settles_update [simp]:
  "settles (op\<lparr>state := a\<rparr>) op' = settles op op'" "settles (op\<lparr>op_reason := b\<rparr>) op' = settles op op'"
  "settles (op\<lparr>deadline_elapsed := c\<rparr>) op' = settles op op'" "settles (op\<lparr>original_outcome := d\<rparr>) op' = settles op op'"
  by (simp_all add: settles_def identifies_def)

lemma attributed_more [simp]:
  "attributed (op\<lparr>deadline_elapsed := c\<rparr>) = attributed op" "attributed (op\<lparr>original_outcome := d\<rparr>) = attributed op"
  by (simp_all add: attributed_def)

text \<open>Past its deadline, what the first two decisions make of an operation.\<close>

lemma overdue_decided:
  assumes "state op \<in> set [CONFIG_COMMITTED, INDETERMINATE]" "tidy op" "attributed op"
  obtains op1 ch where "past_deadline op True = Inr (op1, ch)" "attributed op1" "op_intent op1 = op_intent op"
    "\<And>op'. settles op1 op' = settles op op'"
    "state op1 = TIMED_OUT \<and> ch \<or> state op1 = INDETERMINATE \<and> deadline_elapsed op1 \<and> application_evidence op1 = None"
proof -
  have to: "transition (op\<lparr>original_outcome := x, deadline_elapsed := True\<rparr>) TIMED_OUT [] =
      Inr (op\<lparr>original_outcome := x, deadline_elapsed := True, state := TIMED_OUT\<rparr>)" if "state op = CONFIG_COMMITTED" for x
    using that by (simp add: transition_def)
  show thesis using assms to
    by (cases "state op = CONFIG_COMMITTED"; cases "deadline_elapsed op")
      (auto simp: past_deadline_def Let_def tidy_def ACTIVE_def intro: that)
qed

lemma time_out_decided:
  assumes "ready snap" "attributed op"
    "state op = TIMED_OUT \<and> ch \<or> state op = INDETERMINATE \<and> deadline_elapsed op \<and> application_evidence op = None"
  obtains op1 ch1 where "time_out_unknown snap target op ch = Inr (op1, ch1)" "attributed op1" "\<And>op'. settles op1 op' = settles op op'"
    "state op1 = TIMED_OUT \<and> ch1 \<or> op1 = op \<and> matches (sn_config snap) target \<and> obs_fresh (observed snap) \<and> satisfies (observed snap) target \<and>
       state op = INDETERMINATE \<and> application_evidence op = None"
proof -
  have to: "transition op TIMED_OUT [] = Inr (op\<lparr>state := TIMED_OUT\<rparr>)" if "state op = INDETERMINATE" "deadline_elapsed op"
    using that by (simp add: transition_def)
  let ?now = "matches (sn_config snap) target \<and> obs_fresh (observed snap) \<and> satisfies (observed snap) target"
  show thesis
  proof (cases "state op = INDETERMINATE \<and> \<not> ?now")
    case True
    then have *: "time_out_unknown snap target op ch = Inr (op\<lparr>state := TIMED_OUT, op_reason := Some (reason_value APPLY_TIMEOUT)\<rparr>, True)"
      using assms to by (auto simp: time_out_unknown_def)
    show ?thesis by (rule that [OF *]) (use assms(2) in simp_all)
  next
    case False
    then have *: "time_out_unknown snap target op ch = Inr (op, ch)" using assms(3) by (auto simp: time_out_unknown_def)
    show ?thesis by (rule that [OF *]) (use assms False in auto)
  qed
qed

lemma observe_overdue:
  assumes acc: "accepts e" and target: "en_target e (op_intent op) = Inr target" and snap: "ready snap"
    and backend: "map_of (en_backends e) pod \<noteq> None" and at: "attributed op"
    and st: "state op = TIMED_OUT \<and> ch \<or> state op = INDETERMINATE \<and> deadline_elapsed op \<and> application_evidence op = None"
  shows "\<exists>op'. snd (observe pod snap op ch e) = Inr (op', True) \<and> settles op op'"
proof -
  let ?e = "fst (note_observation pod snap target op e)"
  have "en_backends ?e = en_backends e"
    using quiet_keeps(3) [OF quiet_note acc] by (simp add: still_def)
  then have b: "map_of (en_backends ?e) pod \<noteq> None" using backend by simp
  obtain op1 ch1 where op1: "time_out_unknown snap target op ch = Inr (op1, ch1)" "attributed op1" "\<And>op'. settles op1 op' = settles op op'"
    "state op1 = TIMED_OUT \<and> ch1 \<or> op1 = op \<and> matches (sn_config snap) target \<and> obs_fresh (observed snap) \<and> satisfies (observed snap) target \<and>
       state op = INDETERMINATE \<and> application_evidence op = None"
    using time_out_decided [OF snap at st] by blast
  have run: "observe pod snap op ch e = settle_observed pod snap target op1 ch1 ?e"
    by (simp add: observe_def target bindE_Inr [where m = "note_observation pod snap target op", OF note_returns] op1(1))
  show ?thesis unfolding run
    using op1(2-4) settles_timed_out [OF _ op1(2) b, of snap target] settles_applied [of op1 snap target pod ch1 ?e] snap by auto
qed

lemma revises_settled:
  assumes "settles op op'" "state op \<in> set [CONFIG_COMMITTED, INDETERMINATE]" "attributed op"
  shows "revises op op'"
proof -
  have "edge (state op) (state op')" using assms by (auto simp: settles_def edge_def)
  moreover have "request_key op' = request_key op" using assms(1) by (simp add: settles_def identifies_def request_key_def op_pod_id_def)
  ultimately show ?thesis using assms by (simp add: revises_def advanced_def settles_def identifies_def attributed_def)
qed

lemma settle_restarted_saves:
  assumes acc: "accepts e" and op: "op \<in> set (ops e)" "state op \<in> set [CONFIG_COMMITTED, INDETERMINATE]" and w: "written_on_another_start op inst"
  shows "\<exists>e'. settle_restarted op inst e = (e', Inr True) \<and> (\<forall>q \<in> set (ops e'). operation_id q = operation_id op \<longrightarrow> state q = FAILED)"
proof -
  let ?op = "op\<lparr>state := FAILED, op_reason := Some (reason_value NOT_READY)\<rparr>" and ?pl = "[(''restarted'', JDict [(''instance'', jstr inst)])]"
  have t: "transition op FAILED [] = Inr (op\<lparr>state := FAILED\<rparr>)" using op(2) by (auto simp: transition_def)
  have "revises op ?op" using op(2) accepts_stored(2) [OF acc op(1)] by (auto simp: revises_def advanced_def edge_def)
  note saved = save_replaces [OF acc op(1) this, of ?pl]
  have "settle_restarted op inst e = (fst (save_op ?op ?pl e), Inr True)"
    using w op(2) by (auto simp: settle_restarted_def t bindE_Inr [of "save_op ?op ?pl", OF conjunct1 [OF saved]] returnE_def simp del: reason_value.simps)
  then show ?thesis using saved by auto
qed

lemma reconcile_op_saves:
  assumes op: "op_pod_id op = pod" "state op \<in> set [CONFIG_COMMITTED, INDETERMINATE]"
    and later: "\<forall>p \<in> set later. op_pod_id p = pod \<longrightarrow> state p \<notin> set RECONCILED"
    and w: "\<not> written_on_another_start op (sn_instance snap)" and late: "overdue e op"
    and op1: "past_deadline op True = Inr (op1, ch)" and op2: "snd (observe pod snap op1 ch (fst (expired op e))) = Inr (op2, True)"
    and saved: "snd (save_op op2 [(''observation'', JDict (observation_dict (observed snap)))] (fst (observe pod snap op1 ch (fst (expired op e))))) = Inr y"
  shows "reconcile_op pod snap later op e =
    (fst (save_op op2 [(''observation'', JDict (observation_dict (observed snap)))] (fst (observe pod snap op1 ch (fst (expired op e))))), Inr ())"
proof -
  have c: "\<not> (op_pod_id op \<noteq> pod \<or> state op \<notin> set [CONFIG_COMMITTED, INDETERMINATE, TIMED_OUT, OBSERVED_APPLIED])"
    "\<not> (\<exists>p \<in> set later. op_pod_id p = pod \<and> state p \<in> set RECONCILED)" using op later by auto
  have settled: "settle_restarted op (sn_instance snap) e = (e, Inr False)" using w by (simp add: settle_restarted_def returnE_def)
  show ?thesis
    unfolding reconcile_op_def if_not_P [OF c(1)] if_not_P [OF c(2)]
    by (simp add: bindE_Inr [of "settle_restarted op (sn_instance snap)" e False] settled bindE_Inr [of "expired op", OF expired_overdue [OF late]]
        op1 bindE_Inr [of "observe pod snap op1 ch", OF op2] bindE_Inr [of "save_op op2 _", OF saved] returnE_def)
qed

lemma reconcile_op_restarted:
  assumes op: "op_pod_id op = pod" "state op \<in> set [CONFIG_COMMITTED, INDETERMINATE]"
    and later: "\<forall>p \<in> set later. op_pod_id p = pod \<longrightarrow> state p \<notin> set RECONCILED"
    and settled: "settle_restarted op (sn_instance snap) e = (e', Inr True)"
  shows "reconcile_op pod snap later op e = (e', Inr ())"
proof -
  have c: "\<not> (op_pod_id op \<noteq> pod \<or> state op \<notin> set [CONFIG_COMMITTED, INDETERMINATE, TIMED_OUT, OBSERVED_APPLIED])"
    "\<not> (\<exists>p \<in> set later. op_pod_id p = pod \<and> state p \<in> set RECONCILED)" using op later by auto
  show ?thesis unfolding reconcile_op_def if_not_P [OF c(1)] if_not_P [OF c(2)] by (simp add: bindE_def settled returnE_def)
qed

text \<open>One pass over an overdue operation settles it.\<close>

lemma reconcile_op_overdue:
  assumes acc: "accepts e" and op: "op \<in> set (ops e)" "op_pod_id op = pod" "state op \<in> set [CONFIG_COMMITTED, INDETERMINATE]"
    and tm: "tidy op" and late: "overdue e op" and target: "en_target e (op_intent op) = Inr target"
    and snap: "ready snap" and backend: "map_of (en_backends e) pod \<noteq> None"
    and later: "\<forall>p \<in> set later. op_pod_id p = pod \<longrightarrow> state p \<notin> set RECONCILED"
  shows "snd (reconcile_op pod snap later op e) = Inr () \<and>
    (\<forall>q \<in> set (ops (fst (reconcile_op pod snap later op e))). operation_id q = operation_id op \<longrightarrow> state q \<in> set [FAILED, TIMED_OUT, OBSERVED_APPLIED])"
proof (cases "written_on_another_start op (sn_instance snap)")
  case True
  from settle_restarted_saves [OF acc op(1,3) True] obtain e' where e': "settle_restarted op (sn_instance snap) e = (e', Inr True)"
    "\<forall>q \<in> set (ops e'). operation_id q = operation_id op \<longrightarrow> state q = FAILED" by blast
  show ?thesis unfolding reconcile_op_restarted [OF op(2,3) later e'(1)] using e'(2) by simp
next
  case False
  note at = accepts_stored(2) [OF acc op(1)]
  obtain op1 ch where op1: "past_deadline op True = Inr (op1, ch)" "attributed op1" "op_intent op1 = op_intent op"
    "\<And>op'. settles op1 op' = settles op op'"
    "state op1 = TIMED_OUT \<and> ch \<or> state op1 = INDETERMINATE \<and> deadline_elapsed op1 \<and> application_evidence op1 = None"
    using overdue_decided [OF op(3) tm at] by blast
  let ?e1 = "fst (expired op e)" and ?obs = "observe pod snap op1 ch"
  have e1: "ops ?e1 = ops e" "accepts ?e1" "still e ?e1" by (rule quiet_keeps [OF quiet_expired acc])+
  then obtain op2 where op2: "snd (?obs ?e1) = Inr (op2, True)" "settles op op2"
    using observe_overdue [OF e1(2) _ snap _ op1(2,5), of target pod] target backend op1(3,4) by (auto simp: still_def)
  have e2: "ops (fst (?obs ?e1)) = ops e" "accepts (fst (?obs ?e1))"
    using quiet_keeps [OF observe_quiet e1(2)] e1(1) by simp_all
  have "op \<in> set (ops (fst (?obs ?e1)))" using op(1) e2(1) by simp
  note saved = save_replaces [OF e2(2) this revises_settled [OF op2(2) op(3) at], of "[(''observation'', JDict (observation_dict (observed snap)))]"]
  show ?thesis
    unfolding reconcile_op_saves [OF op(2,3) later False late op1(1) op2(1) conjunct1 [OF saved]] using saved op2(2) by (auto simp: settles_def)
qed

lemma edge_inactive: "edge\<^sup>*\<^sup>* s t \<Longrightarrow> s \<notin> set ACTIVE \<Longrightarrow> t \<notin> set ACTIVE"
proof (induction rule: rtranclp_induct)
  case (step t u)
  then show ?case using active_transitions [of u t] by (auto simp: edge_def ACTIVE_def)
qed simp

lemma list_all2_in: "list_all2 P xs ys \<Longrightarrow> y \<in> set ys \<Longrightarrow> \<exists>x \<in> set xs. P x y"
  by (induction rule: list_all2_induct) auto

lemma remember_fields [simp]:
  "en_store (fst (remember pod snap e)) = en_store e" "en_backends (fst (remember pod snap e)) = en_backends e"
  "en_target (fst (remember pod snap e)) = en_target e" "overdue (fst (remember pod snap e)) op = overdue e op"
  "snd (remember pod snap e) = Inr ()" "accepts (fst (remember pod snap e)) = accepts e"
  by (auto simp: remember_def modifyE_def overdue_def accepts_def split: option.splits)

text \<open>A reconciliation of a pod with an open operation only handles that one.\<close>

lemma reconcile_open:
  assumes ok: "engine_ok e" and op: "op \<in> set (ops e)" "op_pod_id op = pod" "state op \<in> set [CONFIG_COMMITTED, INDETERMINATE]"
  obtains ys where "\<forall>p \<in> set ys. op_pod_id p = pod \<longrightarrow> state p \<notin> set RECONCILED"
    "snd (reconcile_op pod snap ys op (fst (remember pod snap e))) = Inr () \<Longrightarrow>
       reconcile pod snap e = (fst (reconcile_op pod snap ys op (fst (remember pod snap e))), Inr snap)"
proof -
  let ?e1 = "fst (remember pod snap e)"
  have spec: "spec_ok (map entry_of (ops e))" using ok by (simp add: engine_ok_def entries_of_def)
  obtain xs ys where split: "ops e = xs @ op # ys" using split_list [OF op(1)] by blast
  have act: "state op \<in> set ACTIVE" using op(3) by (auto simp: ACTIVE_def)
  have later: "\<forall>p \<in> set ys. op_pod_id p = pod \<longrightarrow> state p \<notin> set RECONCILED"
    using spec act op(2) by (auto simp: split spec_ok_def sorted_wrt_append settled_after_def entry_of_def RECONCILED_def)
  have one_op: "reconcile_ops pod snap (ops e) e' = reconcile_op pod snap ys op e'" for e'
    unfolding split by (rule reconcile_ops_last) (use op later in \<open>auto simp: RECONCILED_def\<close>)
  have "reconcile pod snap e = (fst (reconcile_op pod snap ys op ?e1), Inr snap)" if "snd (reconcile_op pod snap ys op ?e1) = Inr ()"
    using that one_op [of ?e1] bindE_Inr [of "reconcile_ops pod snap (ops e)" ?e1 "()" "\<lambda>_. returnE snap"]
    by (simp add: reconcile_def bindE_Inr [of "remember pod snap" e "()"] operations_def returnE_def)
  with later show thesis by (rule that)
qed

lemma reconcile_settled:
  assumes ok: "engine_ok e" and op: "op \<in> set (ops e)" "op_pod_id op = pod" "state op \<in> set [CONFIG_COMMITTED, INDETERMINATE]"
    and tm: "tidy op" and late: "overdue e op" and target: "en_target e (op_intent op) = Inr target"
    and snap: "ready snap" and backend: "map_of (en_backends e) pod \<noteq> None"
  shows "snd (reconcile pod snap e) = Inr snap \<and> (\<forall>q \<in> set (ops (fst (reconcile pod snap e))). op_pod_id q = pod \<longrightarrow> state q \<notin> set ACTIVE)"
proof -
  let ?e1 = "fst (remember pod snap e)"
  have acc: "accepts e" and spec: "spec_ok (map entry_of (ops e))" using ok by (simp_all add: engine_ok_def entries_of_def)
  have act: "state op \<in> set ACTIVE" using op(3) by (auto simp: ACTIVE_def)
  obtain ys where later: "\<forall>p \<in> set ys. op_pod_id p = pod \<longrightarrow> state p \<notin> set RECONCILED"
    and runs: "snd (reconcile_op pod snap ys op ?e1) = Inr () \<Longrightarrow> reconcile pod snap e = (fst (reconcile_op pod snap ys op ?e1), Inr snap)"
    using reconcile_open [OF ok op] by blast
  have done_op: "snd (reconcile_op pod snap ys op ?e1) = Inr () \<and>
    (\<forall>q \<in> set (ops (fst (reconcile_op pod snap ys op ?e1))). operation_id q = operation_id op \<longrightarrow> state q \<in> set [FAILED, TIMED_OUT, OBSERVED_APPLIED])"
    by (rule reconcile_op_overdue) (use acc op tm late target snap backend later in simp_all)
  note run = runs [OF conjunct1 [OF done_op]]
  let ?e' = "fst (reconcile pod snap e)"
  have adv: "list_all2 advanced (ops e) (ops ?e')" using evolves_reconcile [of e pod snap] acc by (simp add: evolves_def accepts_def)
  have "state q \<notin> set ACTIVE" if q: "q \<in> set (ops ?e')" "op_pod_id q = pod" for q
  proof (cases "operation_id q = operation_id op")
    case True
    then have "state q \<in> set [FAILED, TIMED_OUT, OBSERVED_APPLIED]" using done_op q(1) run by simp
    then show ?thesis by (auto simp: ACTIVE_def)
  next
    case False
    obtain p where p: "p \<in> set (ops e)" "advanced p q" using list_all2_in [OF adv q(1)] by blast
    then have "p \<noteq> op" "op_pod_id p = pod" using False q(2) advanced_same [OF p(2)] by auto
    then have "state p \<notin> set ACTIVE" using active_last [OF spec p(1) op(1)] op(2) act by auto
    then show ?thesis using p(2) edge_inactive by (auto simp: advanced_def)
  qed
  then show ?thesis using run by simp
qed

text \<open>An unknown write that is not in the pod's configuration at its deadline.\<close>

lemma save_op_ownership: "ownership (en_store (fst (save_op op payload e))) pod = ownership (en_store e) pod"
  by (auto simp: save_op_run save_eq_Inr add_event_def Let_def ownership_def split: sum.split)

lemma lost_ownership_run:
  assumes "state op = TIMED_OUT"
  shows "\<exists>op'. lost_ownership pod snap op True e = (e\<lparr>en_store := conflict (en_store e) pod
      ([(''operation_id'', JStr (operation_id op)), (''reason'', JStr ''owned configuration changed'')] @
        (if present (sn_instance snap) then [(''instance'', jstr (sn_instance snap))] else []))\<rparr>, Inr (op', True)) \<and> settles op op' \<and> state op' = TIMED_OUT"
  using assms by (auto simp: lost_ownership_def lift_store_def bindE_def liftE_def returnE_def settles_def identifies_def)

lemma conflict_recorded: "\<exists>d. ownership (conflict st pod ((k, v) # ev)) pod = Some d \<and> d \<noteq> []"
  by (auto simp: ownership_def conflict_def AList.update_conv')

lemma written_update [simp]:
  "written_on_another_start (op\<lparr>state := a\<rparr>) c = written_on_another_start op c" "written_on_another_start (op\<lparr>op_reason := b\<rparr>) c = written_on_another_start op c"
  "written_on_another_start (op\<lparr>deadline_elapsed := d\<rparr>) c = written_on_another_start op c"
  "written_on_another_start (op\<lparr>original_outcome := f\<rparr>) c = written_on_another_start op c"
  by (simp_all add: written_on_another_start_def)

lemma remapped_update [simp]:
  "remapped e (op\<lparr>state := a\<rparr>) pod = remapped e op pod" "remapped e (op\<lparr>op_reason := b\<rparr>) pod = remapped e op pod"
  "remapped e (op\<lparr>deadline_elapsed := d\<rparr>) pod = remapped e op pod" "remapped e (op\<lparr>original_outcome := f\<rparr>) pod = remapped e op pod"
  by (simp_all add: remapped_def Let_def cong: option.case_cong)

lemma remapped_backends: "en_backends e' = en_backends e \<Longrightarrow> remapped e' op pod = remapped e op pod"
  by (simp add: remapped_def)

lemma observe_lost:
  assumes acc: "accepts e" and op: "state op = INDETERMINATE" "deadline_elapsed op" and target: "en_target e (op_intent op) = Inr target"
    and snap: "ready snap" "obs_fresh (observed snap)" "\<not> matches (sn_config snap) target"
    and own: "\<not> written_on_another_start op (sn_instance snap)" "remapped e op pod = Inr False"
  shows "\<exists>op' e' d. observe pod snap op ch e = (e', Inr (op', True)) \<and> settles op op' \<and> state op' = TIMED_OUT \<and>
    ownership (en_store e') pod = Some d \<and> d \<noteq> []"
proof -
  let ?e = "fst (note_observation pod snap target op e)"
  let ?op = "op\<lparr>state := TIMED_OUT, op_reason := Some (reason_value APPLY_TIMEOUT)\<rparr>"
  have "en_backends ?e = en_backends e"
    using quiet_keeps(3) [OF quiet_note acc] by (simp add: still_def)
  then have own': "remapped ?e ?op pod = Inr False" using own(2) by (simp add: remapped_backends [of ?e e])
  have "time_out_unknown snap target op ch = Inr (?op, True)"
    using op snap by (simp add: time_out_unknown_def transition_def)
  then have run: "observe pod snap op ch e = settle_observed pod snap target ?op True ?e"
    by (simp add: observe_def target bindE_Inr [where m = "note_observation pod snap target op", OF note_returns])
  have "settle_observed pod snap target ?op True ?e = lost_ownership pod snap ?op True ?e"
    using snap own(1) own' by (simp add: settle_observed_def Let_def del: reason_value.simps remapped_update)
  moreover have "state ?op = TIMED_OUT" by simp
  ultimately obtain op' ev where o: "observe pod snap op ch e = (?e\<lparr>en_store := conflict (en_store ?e) pod ((''operation_id'', JStr (operation_id op)) # ev)\<rparr>, Inr (op', True))"
    "settles ?op op'" "state op' = TIMED_OUT"
    using lost_ownership_run [of ?op pod snap ?e] run by auto
  obtain d where "ownership (conflict (en_store ?e) pod ((''operation_id'', JStr (operation_id op)) # ev)) pod = Some d" "d \<noteq> []"
    using conflict_recorded by blast
  then show ?thesis using o by auto
qed

lemma lost_write_conflict:
  assumes ok: "engine_ok e" and op: "op \<in> set (ops e)" "op_pod_id op = pod" "state op = INDETERMINATE"
    and late: "overdue e op" and target: "en_target e (op_intent op) = Inr target"
    and snap: "ready snap" "obs_fresh (observed snap)" "\<not> matches (sn_config snap) target"
    and own: "\<not> written_on_another_start op (sn_instance snap)" "remapped e op pod = Inr False"
  shows "\<exists>e' d. reconcile pod snap e = (e', Inr snap) \<and> (\<forall>q \<in> set (ops e'). operation_id q = operation_id op \<longrightarrow> state q = TIMED_OUT) \<and>
    ownership (en_store e') pod = Some d \<and> d \<noteq> []"
proof -
  let ?e1 = "fst (remember pod snap e)" and ?e2 = "fst (expired op (fst (remember pod snap e)))"
  have acc: "accepts ?e1" using ok by (simp add: engine_ok_def)
  have st: "state op \<in> set [CONFIG_COMMITTED, INDETERMINATE]" using op(3) by simp
  obtain ys where later: "\<forall>p \<in> set ys. op_pod_id p = pod \<longrightarrow> state p \<notin> set RECONCILED"
    and runs: "snd (reconcile_op pod snap ys op ?e1) = Inr () \<Longrightarrow> reconcile pod snap e = (fst (reconcile_op pod snap ys op ?e1), Inr snap)"
    using reconcile_open [OF ok op(1,2) st] by blast
  obtain op1 ch where op1: "past_deadline op True = Inr (op1, ch)" "state op1 = INDETERMINATE" "deadline_elapsed op1" "op_intent op1 = op_intent op"
    "\<And>c. written_on_another_start op1 c = written_on_another_start op c" "\<And>e. remapped e op1 pod = remapped e op pod" "\<And>op'. settles op1 op' = settles op op'"
    using op(3) by (cases "deadline_elapsed op") (auto simp: past_deadline_def Let_def)
  have e2: "ops ?e2 = ops e" "accepts ?e2" "still ?e1 ?e2" using quiet_keeps [OF quiet_expired acc] by simp_all
  then have b: "en_backends ?e2 = en_backends e" "en_target ?e2 = en_target e" by (simp_all add: still_def)
  obtain op2 e3 d where obs: "observe pod snap op1 ch ?e2 = (e3, Inr (op2, True))" "settles op op2" "state op2 = TIMED_OUT"
    "ownership (en_store e3) pod = Some d" "d \<noteq> []"
    using observe_lost [OF e2(2) op1(2,3) _ snap, of pod ch] target own op1(4-7) b by (auto simp: remapped_backends [of ?e2 e])
  have e3: "ops e3 = ops e" "accepts e3"
    using quiet_keeps [OF observe_quiet e2(2), of pod snap op1 ch] e2(1) obs(1) by simp_all
  let ?save = "save_op op2 [(''observation'', JDict (observation_dict (observed snap)))]"
  have o3: "op \<in> set (ops e3)" "attributed op" using op(1) e3(1) accepts_stored(2) [OF e3(2), of op] by simp_all
  note saved = save_replaces [OF e3(2) o3(1) revises_settled [OF obs(2) st o3(2)], of "[(''observation'', JDict (observation_dict (observed snap)))]"]
  have "snd (observe pod snap op1 ch ?e2) = Inr (op2, True)" "snd (?save (fst (observe pod snap op1 ch ?e2))) = Inr (stamp e3 op2)" "overdue ?e1 op"
    using obs(1) saved late by simp_all
  from reconcile_op_saves [OF op(2) st later own(1) this(3) op1(1) this(1,2)] have "reconcile_op pod snap ys op ?e1 = (fst (?save e3), Inr ())"
    using obs(1) by simp
  then have "reconcile pod snap e = (fst (?save e3), Inr snap)" using runs by simp
  then show ?thesis using saved obs(3-5) by (auto simp: save_op_ownership)
qed

section \<open>Recovery\<close>

text \<open>What recovery makes of an operation: what may have been sent is unknown, what was not sent is given up.\<close>

definition recovered :: "operation \<Rightarrow> op_state" where
  "recovered op = (if state op = SUBMITTED then INDETERMINATE
     else if state op = VALIDATED \<or> state op = REQUESTED \<and> initiating_interface op = ''wsc-component'' then CANCELLED else state op)"

lemma recover_op_result:
  assumes acc: "accepts e" and op: "op \<in> set (ops e)"
  shows "snd (recover_op op e) = Inr () \<and> evolves (\<lambda>p. p = op) e (fst (recover_op op e)) \<and>
    (\<forall>q \<in> set (ops (fst (recover_op op e))). operation_id q = operation_id op \<longrightarrow> state q = recovered op)"
proof -
  note at = accepts_stored(2) [OF acc op]
  have j: "store_ok (en_store e)" using acc by (simp add: accepts_def journal_ok_def)
  have saved: "snd (bindE (save_op op' pl) (\<lambda>_. returnE ()) e) = Inr () \<and> evolves (\<lambda>p. p = op) e (fst (bindE (save_op op' pl) (\<lambda>_. returnE ()) e)) \<and>
    (\<forall>q \<in> set (ops (fst (bindE (save_op op' pl) (\<lambda>_. returnE ()) e))). operation_id q = operation_id op \<longrightarrow> state q = state op')"
    if "revises op op'" for op' pl
    using save_replaces [OF acc op that, of pl] bindE_Inr [of "save_op op' pl" e "stamp e op'" "\<lambda>_. returnE ()"] by (auto simp: returnE_def)
  have c: "revises op (op\<lparr>state := CANCELLED\<rparr>) \<and> transition op CANCELLED [] = Inr (op\<lparr>state := CANCELLED\<rparr>)" if "state op \<in> set [REQUESTED, VALIDATED]"
    using that at by (auto simp: revises_def advanced_def edge_def transition_def)
  have i: "revises op (op\<lparr>state := INDETERMINATE, commit_evidence := [(''attribution'', JStr ''unknown'')], op_reason := r\<rparr>) \<and>
    transition op INDETERMINATE [] = Inr (op\<lparr>state := INDETERMINATE\<rparr>)" if "state op = SUBMITTED" for r
    using that by (auto simp: revises_def advanced_def edge_def transition_def identifies_def attributed_def)
  consider "initiating_interface op = ''wsc-component'' \<and> state op = REQUESTED" | "state op = SUBMITTED" | "state op = VALIDATED"
    | "\<not> (initiating_interface op = ''wsc-component'' \<and> state op = REQUESTED)" "state op \<noteq> SUBMITTED" "state op \<noteq> VALIDATED" by blast
  then show ?thesis
  proof cases
    case 1
    then show ?thesis
      using saved [of "op\<lparr>state := CANCELLED\<rparr>" "[(''recovery'', JStr ''unsent WSC component request; new exchange required'')]"] c
      by (simp add: recover_op_def recovered_def)
  next
    case 2
    then show ?thesis
      using saved [of "op\<lparr>state := INDETERMINATE, commit_evidence := [(''attribution'', JStr ''unknown'')], op_reason := Some (reason_value OUTCOME_UNKNOWN)\<rparr>"
          "[(''recovery'', JStr ''possibly sent; observation required before action'')]"] i
      by (simp add: recover_op_def recovered_def)
  next
    case 3
    then show ?thesis
      using saved [of "op\<lparr>state := CANCELLED\<rparr>" "[(''recovery'', JStr ''unsent intent; explicit new request required'')]"] c
      by (simp add: recover_op_def recovered_def)
  next
    case 4
    then have "recover_op op e = (e, Inr ())" by (simp add: recover_op_def if_not_P [OF 4(1)] returnE_def)
    then show ?thesis using unique_stored [OF j _ op] 4 by (auto simp: recovered_def)
  qed
qed

lemma each_settles:
  assumes step: "\<And>e x. x \<in> set xs \<Longrightarrow> x \<in> set (ops e) \<Longrightarrow> accepts e \<Longrightarrow>
      snd (f x e) = Inr () \<and> evolves (\<lambda>p. p = x) e (fst (f x e)) \<and> (\<forall>q \<in> set (ops (fst (f x e))). operation_id q = operation_id x \<longrightarrow> G x q)"
    and "set xs \<subseteq> set (ops e)" "distinct xs" "accepts e"
  shows "snd (eachE f xs e) = Inr () \<and> evolves (\<lambda>p. p \<in> set xs) e (fst (eachE f xs e)) \<and>
    (\<forall>x \<in> set xs. \<forall>q \<in> set (ops (fst (eachE f xs e))). operation_id q = operation_id x \<longrightarrow> G x q)"
  using assms
proof (induction xs arbitrary: e)
  case (Cons x xs)
  let ?e1 = "fst (f x e)" and ?e2 = "fst (eachE f xs (fst (f x e)))"
  have f: "snd (f x e) = Inr ()" "evolves (\<lambda>p. p = x) e ?e1" "\<forall>q \<in> set (ops ?e1). operation_id q = operation_id x \<longrightarrow> G x q"
    using Cons.prems(1) [of x e] Cons.prems(2,4) by simp_all
  have acc: "accepts ?e1" using accepts_evolves [OF f(2) Cons.prems(4)] .
  have t1: "touches (\<lambda>p. p = x) (ops e) (ops ?e1)" using f(2) Cons.prems(4) by (simp add: evolves_def accepts_def)
  then have "set xs \<subseteq> set (ops ?e1)" using Cons.prems(2,3) unfolding touches_def by auto
  from Cons.IH [OF _ this _ acc] Cons.prems(1,3) have IH: "snd (eachE f xs ?e1) = Inr ()" "evolves (\<lambda>p. p \<in> set xs) ?e1 ?e2"
    "\<forall>y \<in> set xs. \<forall>q \<in> set (ops ?e2). operation_id q = operation_id y \<longrightarrow> G y q" by auto
  have run: "eachE f (x # xs) e = eachE f xs ?e1" using f(1) by (simp add: bindE_Inr)
  have t2: "touches (\<lambda>p. p \<in> set xs) (ops ?e1) (ops ?e2)" using IH(2) acc by (simp add: evolves_def accepts_def)
  have "q \<in> set (ops ?e1)" if q: "q \<in> set (ops ?e2)" "operation_id q = operation_id x" for q
  proof (rule ccontr)
    assume "q \<notin> set (ops ?e1)"
    then obtain y where y: "y \<in> set xs" "operation_id y = operation_id x" using t2 q unfolding touches_def by metis
    have "y = x" using unique_stored [of e y x] y Cons.prems(2,4) by (auto simp: accepts_def journal_ok_def)
    then show False using y(1) Cons.prems(3) by simp
  qed
  then have "\<forall>y \<in> set (x # xs). \<forall>q \<in> set (ops ?e2). operation_id q = operation_id y \<longrightarrow> G y q" using f(3) IH(3) by auto
  moreover have "evolves (\<lambda>p. p \<in> set (x # xs)) e ?e2"
    using evolves_trans [OF evolves_mono [OF f(2)] evolves_mono [OF IH(2)], of "\<lambda>p. p \<in> set (x # xs)"] by simp
  ultimately show ?case using IH(1) unfolding run by blast
qed (simp add: returnE_def)

end
