(* ===== verification/Engine_Properties.thy ===== *)
theory Engine_Properties
  imports Engine_Machine
begin

text \<open>What the engine (src/src/emosa/reconcile.py) guarantees in every state it can reach, with a run the witnesses
  evaluate.\<close>

section \<open>Properties\<close>

text \<open>The run the witnesses use: a request, its execution, the commit and its observation.\<close>

definition example_engine :: engine where
  "example_engine = Engine (example_store\<lparr>contract := \<lambda>op. durations_ok op \<and> attributed op\<rparr>) [(''pod'', None)]
     (\<lambda>_. Inr ()) (\<lambda>intent. Inr (filter (\<lambda>x. fst x = ''ssid'') intent)) (\<lambda>_. ''f'') 0 0"

abbreviation example_intent :: "string \<Rightarrow> dict" where
  "example_intent name \<equiv> [(''pod_id'', JStr ''pod''), (''ssid'', JStr name)]"

definition example_snapshot :: "string \<Rightarrow> snapshot" where
  "example_snapshot name =
     \<lparr>sn_config = [(''ssid'', JStr name)],
      observed = \<lparr>obs_pod_id = ''pod'', resource_id = ''vif'', obs_values = [(''ssid'', JStr name)], obs_source = ''ovsdb'',
        backend_mode = ''simulation'', session_generation = 1, received_at = ''t'', obs_fresh = True, provenance = ''p'', source_time = None, revision = 1\<rparr>,
      ready = True, generation = 1, sn_schema_fingerprint = ''s'', sn_instance = None\<rparr>"

definition example_commit :: submit_result where
  "example_commit = \<lparr>sr_status = ''committed'', sr_evidence = [(''attribution'', JStr ''reply''), (''transaction_validated'', JBool True)], sr_reason = None\<rparr>"

definition requested_engine :: engine where
  "requested_engine = fst (request_internal ''a'' (example_intent ''x'') ''cli'' ''k'' ''run'' 30 ''semantic'' None example_engine)"

definition planning_engine :: engine where
  "planning_engine = fst (execute ''a'' requested_engine)"

definition submitted_engine :: engine where
  "submitted_engine = fst (resume_snapshot ''a'' (Inr (example_snapshot ''old'')) ''t1'' ''x1'' (fst (resume_plan ''a'' (Inr []) planning_engine)))"

definition committed_engine :: engine where
  "committed_engine = fst (resume_submit ''a'' (Inr example_commit) submitted_engine)"

text \<open>What the witnesses look at.\<close>

definition summary :: "engine \<Rightarrow> (entry list \<times> (string \<times> await \<times> string) list)" where
  "summary e = (entries_of e, map (\<lambda>x. (fst x, tk_at (snd x), op_pod_id (tk_op (snd x)))) (tasks e))"

lemma submitted_summary: "summary submitted_engine = ([(''a'', ''pod'', SUBMITTED)], [(''a'', AtSubmit, ''pod'')])"
  by code_simp

lemma committed_summary: "summary committed_engine = ([(''a'', ''pod'', CONFIG_COMMITTED)], [])"
  by code_simp

lemma example_init: "reachable engine_init engine_step example_engine"
proof -
  have "schema_like (\<lambda>op. durations_ok op \<and> attributed op)" by (auto simp: schema_like_def)
  then have "engine_init example_engine"
    by (simp add: engine_init_def example_engine_def Engine_def example_store_def store_init_def)
  then show ?thesis by (rule reachable_init)
qed

lemma example_reachable:
  "reachable engine_init engine_step planning_engine" "reachable engine_init engine_step submitted_engine"
  "reachable engine_init engine_step committed_engine"
proof -
  have "engine_step example_engine requested_engine"
    unfolding requested_engine_def by (rule step_request) (simp add: example_engine_def Engine_def)
  with example_init have "reachable engine_init engine_step requested_engine" by (rule reachable_step)
  then show 1: "reachable engine_init engine_step planning_engine" unfolding planning_engine_def by (rule reachable_step) (rule step_execute)
  then show 2: "reachable engine_init engine_step submitted_engine"
    unfolding submitted_engine_def by (rule reachable_step [OF reachable_step]) (rule step_plan step_snapshot)+
  then show "reachable engine_init engine_step committed_engine" unfolding committed_engine_def by (rule reachable_step) (rule step_submit)
qed

text \<open>C1. The engine implements the specification of operations: whatever it does in one step, in any state it can
  reach, to the operations of its journal is a sequence of creations, refusals, allowed changes of state,
  overwritten cancellations and removals of settled operations.\<close>

theorem engine_refines:
  assumes "reachable engine_init engine_step e" "engine_step e e'"
  shows "spec_step\<^sup>*\<^sup>* (entries_of e) (entries_of e')"
  using follows_step [OF assms(2) machine.reachable_inv [OF assms(1)]] by (simp add: follows_def)

theorem engine_refines_witness:
  "entries_of submitted_engine = [(''a'', ''pod'', SUBMITTED)] \<and> entries_of committed_engine = [(''a'', ''pod'', CONFIG_COMMITTED)] \<and>
   spec_step\<^sup>*\<^sup>* (entries_of submitted_engine) (entries_of committed_engine)"
proof (intro conjI)
  show "entries_of submitted_engine = [(''a'', ''pod'', SUBMITTED)]" "entries_of committed_engine = [(''a'', ''pod'', CONFIG_COMMITTED)]"
    using submitted_summary committed_summary by (simp_all add: summary_def)
  show "spec_step\<^sup>*\<^sup>* (entries_of submitted_engine) (entries_of committed_engine)"
    using engine_refines [OF example_reachable(2) step_submit] unfolding committed_engine_def .
qed

text \<open>C2. One change at a time: in every state the engine can reach, at most one operation of a pod is active, every
  suspended execution has its pod marked busy, and no two of them work on the same pod.\<close>

theorem single_active:
  assumes "reachable engine_init engine_step e"
  shows "(\<forall>p \<in> set (st_operations (en_store e)). \<forall>q \<in> set (st_operations (en_store e)).
      op_pod_id p = op_pod_id q \<and> state p \<in> set ACTIVE \<and> state q \<in> set ACTIVE \<longrightarrow> p = q) \<and>
    distinct (map (\<lambda>x. op_pod_id (tk_op (snd x))) (tasks e)) \<and>
    (\<forall>(_, t) \<in> set (tasks e). op_pod_id (tk_op t) \<in> set (busy e))"
proof -
  have ok: "engine_ok e" using machine.reachable_inv [OF assms] .
  have "spec_ok (map entry_of (ops e))" using ok by (simp add: engine_ok_def entries_of_def)
  then have "\<forall>p \<in> set (ops e). \<forall>q \<in> set (ops e). op_pod_id p = op_pod_id q \<and> state p \<in> set ACTIVE \<and> state q \<in> set ACTIVE \<longrightarrow> p = q"
    using active_last by blast
  moreover have "\<forall>(_, t) \<in> set (tasks e). op_pod_id (tk_op t) \<in> set (busy e)" using ok by (auto simp: engine_ok_def task_ok_def)
  ultimately show ?thesis using ok by (simp add: engine_ok_def case_prod_beta)
qed

theorem single_active_witness:
  "length (tasks submitted_engine) = 1 \<and> ''pod'' \<in> set (busy submitted_engine)"
proof -
  obtain t where t: "tasks submitted_engine = [(''a'', t)]" "op_pod_id (tk_op t) = ''pod''"
    using submitted_summary by (auto simp: summary_def)
  then show ?thesis using single_active [OF example_reachable(2)] by auto
qed

text \<open>C3. Nothing is sent that is not on record: whenever an execution waits for the pod's answer to a
  submission, the journal already holds exactly the record the execution works on, in state submitted, with at
  least one attempt; so a restart at that point finds it.\<close>

theorem submission_recorded:
  assumes "reachable engine_init engine_step e" "(ident, t) \<in> set (tasks e)" "tk_at t = AtSubmit"
  shows "store_get (en_store e) ident = Inr (tk_op t) \<and> state (tk_op t) = SUBMITTED \<and> attempts (tk_op t) \<noteq> []"
proof -
  have ok: "engine_ok e" using machine.reachable_inv [OF assms(1)] .
  then have t: "task_ok e ident t" using assms(2) by (auto simp: engine_ok_def)
  moreover have "store_ok (en_store e)" using ok by (simp add: engine_ok_def accepts_def journal_ok_def)
  ultimately have "store_get (en_store e) (operation_id (tk_op t)) = Inr (tk_op t)"
    using get_stored [of "en_store e" "tk_op t"] assms(3) by (simp add: task_ok_def)
  then show ?thesis using t assms(3) by (simp add: task_ok_def)
qed

theorem submission_recorded_witness:
  "\<exists>t. tasks submitted_engine = [(''a'', t)] \<and> store_get (en_store submitted_engine) ''a'' = Inr (tk_op t) \<and> attempts (tk_op t) \<noteq> []"
proof -
  obtain t where t: "tasks submitted_engine = [(''a'', t)]" "tk_at t = AtSubmit"
    using submitted_summary by (auto simp: summary_def)
  then show ?thesis using submission_recorded [OF example_reachable(2), of "''a''" t] by simp
qed

text \<open>C4. No change stays open: in every state the engine can reach, when a reconciliation sees the pod ready, the
  deadline of the pod's committed or unknown operation has passed, its target still resolves and the pod has a
  backend, the reconciliation returns and the pod has no active operation left, so the next request is not refused
  as busy. That a committed operation is never marked as past its deadline before, and an unknown one never has
  evidence of its application, is an invariant of the engine and no hypothesis.\<close>

theorem reconcile_settles:
  assumes "reachable engine_init engine_step e" "op \<in> set (st_operations (en_store e))" "op_pod_id op = pod"
    "state op \<in> set [CONFIG_COMMITTED, INDETERMINATE]" "overdue e op"
    "en_target e (op_intent op) = Inr target" "ready snap" "map_of (en_backends e) pod \<noteq> None"
  shows "\<exists>e'. reconcile pod snap e = (e', Inr snap) \<and>
    (\<forall>q \<in> set (st_operations (en_store e')). op_pod_id q = pod \<longrightarrow> state q \<notin> set ACTIVE)"
proof -
  have "tidy op" using records.reachable_inv [OF assms(1)] assms(2) by (simp add: records_ok_def)
  from reconcile_settled [OF machine.reachable_inv [OF assms(1)] assms(2-4) this assms(5-8)] show ?thesis
    by (cases "reconcile pod snap e") simp
qed

definition late_engine :: engine where
  "late_engine = committed_engine\<lparr>monotonic := 100, utc := 100\<rparr>"

definition late_facts :: "engine \<Rightarrow> bool" where
  "late_facts e \<longleftrightarrow> (case ops e of [op] \<Rightarrow> op_pod_id op = ''pod'' \<and> state op = CONFIG_COMMITTED \<and> overdue e op \<and>
     en_target e (op_intent op) = Inr [(''ssid'', JStr ''x'')] \<and> map_of (en_backends e) ''pod'' \<noteq> None | _ \<Rightarrow> False)"

lemma late_example: "monotonic committed_engine \<le> 100 \<and> late_facts late_engine"
  by code_simp

theorem reconcile_settles_witness:
  "length (st_operations (en_store late_engine)) = 1 \<and>
   (\<exists>e'. reconcile ''pod'' (example_snapshot ''old'') late_engine = (e', Inr (example_snapshot ''old'')) \<and>
     list_all (\<lambda>q. \<not> (op_pod_id q = ''pod'' \<and> state q \<in> set ACTIVE)) (st_operations (en_store e')))"
proof -
  have "engine_step committed_engine late_engine" unfolding late_engine_def using late_example by (intro step_time) simp
  with example_reachable(3) have r: "reachable engine_init engine_step late_engine" by (rule reachable_step)
  obtain op where op: "ops late_engine = [op]" "op_pod_id op = ''pod''" "state op = CONFIG_COMMITTED"
    "overdue late_engine op" "en_target late_engine (op_intent op) = Inr [(''ssid'', JStr ''x'')]" "map_of (en_backends late_engine) ''pod'' \<noteq> None"
    using late_example by (auto simp: late_facts_def split: list.splits)
  have "op \<in> set (ops late_engine)" "state op \<in> set [CONFIG_COMMITTED, INDETERMINATE]" "ready (example_snapshot ''old'')"
    using op by (simp_all add: example_snapshot_def)
  from reconcile_settles [OF r this(1) op(2) this(2) op(4,5) this(3) op(6)] show ?thesis using op(1) by (auto simp: list_all_iff)
qed

text \<open>C8. A cancellation is not final while the request is being validated: if the request was cancelled while its
  execution awaited the plan, and the planning then fails with one of the program's own errors, the execution
  writes its own copy over the cancelled record, and the journal shows the operation rejected. The transition
  table has no such change.\<close>

theorem cancellation_overwritten:
  assumes "reachable engine_init engine_step e" "map_of (tasks e) ident = Some t" "tk_at t = AtPlan"
    "store_get (en_store e) ident = Inr p" "state p = CANCELLED"
    "resume_plan ident (Inl (EmosaError code)) e = (e', Inr (Some op))"
  shows "store_get (en_store e') ident = Inr op \<and> state op = REJECTED \<and> REJECTED \<notin> set (TRANSITIONS (state p))"
proof -
  let ?t = "tk_op t"
  have ok: "engine_ok e" using machine.reachable_inv [OF assms(1)] .
  have task: "validating e ?t" "state ?t = REQUESTED" "operation_id ?t = ident"
    using resumed_validating [OF ok assms(2)] resumed_task(1) [OF ok assms(2)] assms(3) by (auto simp: task_ok_def)
  let ?r = "?t\<lparr>state := REJECTED, op_reason := Some (reason_value code)\<rparr>"
  have rej: "reject ?t code e = save_op ?r [] e" using task(2) by (simp add: reject_def transition_def)
  have run: "resume_plan ident (Inl (EmosaError code)) e = (let (e1, r) = save_op ?r [] e in leave ?t r e1)"
    using assms(2,3) by (simp add: resume_plan_def failed_validation_def leave_with_def rej)
  obtain st where st: "save (en_store e) (stamp e ?r) [] = Inr st"
  proof (cases "save (en_store e) (stamp e ?r) []")
    case (Inl x)
    then have "resume_plan ident (Inl (EmosaError code)) e = leave ?t (Inl x) e" unfolding run by (simp add: save_op_run)
    then show ?thesis using assms(6) by (auto simp: leave_def Let_def split: sum.splits)
  qed
  have p: "p \<in> set (ops e)" "operation_id p = ident" using get_in [OF assms(4)] by blast+
  have stored: "stamp e ?r \<in> set (st_operations st)"
    using put_operation_in [OF p(1), of "stamp e ?r"] save_fields [OF st] p(2) task(3) by simp
  have "accepts (fst (reject ?t code e))" using accepts_evolves [OF evolves_reject [OF task(1)] validating_accepts [OF task(1)]] .
  then have "store_ok st" by (simp add: rej save_op_run st accepts_def journal_ok_def)
  from get_stored [OF this stored] have get: "store_get st ident = Inr (stamp e ?r)" using task(3) by simp
  have "resume_plan ident (Inl (EmosaError code)) e = leave ?t (Inr (stamp e ?r)) (e\<lparr>en_store := st\<rparr>)"
    unfolding run by (simp add: save_op_run st)
  then have "op = stamp e ?r \<and> en_store e' = st" using assms(6) get task(3) by (auto simp: leave_def Let_def split: if_splits)
  then show ?thesis using get assms(5) by simp
qed

definition cancelled_engine :: engine where
  "cancelled_engine = fst (cancel ''a'' planning_engine)"

theorem cancellation_overwritten_witness:
  "\<exists>e' op. resume_plan ''a'' (Inl (EmosaError NOT_READY)) cancelled_engine = (e', Inr (Some op)) \<and>
     map state (st_operations (en_store cancelled_engine)) = [CANCELLED] \<and> state op = REJECTED"
proof -
  have "engine_step planning_engine cancelled_engine" unfolding cancelled_engine_def by (rule step_cancel)
  with example_reachable(1) have r: "reachable engine_init engine_step cancelled_engine" by (rule reachable_step)
  let ?run = "resume_plan ''a'' (Inl (EmosaError NOT_READY)) cancelled_engine"
  have facts: "summary cancelled_engine = ([(''a'', ''pod'', CANCELLED)], [(''a'', AtPlan, ''pod'')])" by code_simp
  then obtain t p where t: "tasks cancelled_engine = [(''a'', t)]" "tk_at t = AtPlan"
    and p: "ops cancelled_engine = [p]" "operation_id p = ''a''" "state p = CANCELLED"
    by (auto simp: summary_def entries_of_def entry_of_def)
  then have get: "map_of (tasks cancelled_engine) ''a'' = Some t" "store_get (en_store cancelled_engine) ''a'' = Inr p"
    by (simp_all add: store_get_def)
  have "map_sum (\<lambda>_. ()) (\<lambda>x. x \<noteq> None) (snd ?run) = Inr True" by code_simp
  then obtain e' op where run: "?run = (e', Inr (Some op))"
    by (cases ?run; cases "snd ?run") auto
  from cancellation_overwritten [OF r get(1) t(2) get(2) p(3) run] run p show ?thesis by (intro exI [of _ e'] exI [of _ op]) simp
qed

text \<open>C7. A lost write that never landed blocks its pod: in every state the engine can reach, when the outcome of a
  write is unknown, its deadline has passed, the pod has a backend that is not mapped to another resource than the
  one the write was planned for, and a ready and fresh snapshot shows that the configuration does not have the
  write, the reconciliation ends the operation as timed out and in the same pass records an ownership conflict for
  the pod, as if a configuration that had been written were changed by someone else. Whether the pod's OpenSync
  started again meanwhile does not matter: an unknown write has no record of the start it was made on. The conflict
  refuses the requests that follow.\<close>

theorem lost_write_blocks:
  assumes "reachable engine_init engine_step e" "op \<in> set (st_operations (en_store e))" "op_pod_id op = pod" "state op = INDETERMINATE"
    "overdue e op" "en_target e (op_intent op) = Inr target" "ready snap" "obs_fresh (observed snap)" "\<not> matches (sn_config snap) target"
    "remapped e op pod = Inr False"
  shows "\<exists>e' d. reconcile pod snap e = (e', Inr snap) \<and>
    (\<forall>q \<in> set (st_operations (en_store e')). operation_id q = operation_id op \<longrightarrow> state q = TIMED_OUT) \<and>
    ownership (en_store e') pod = Some d \<and> d \<noteq> []"
proof -
  have "tidy op" using records.reachable_inv [OF assms(1)] assms(2) by (simp add: records_ok_def)
  from lost_write_conflict [OF machine.reachable_inv [OF assms(1)] assms(2-9) unknown_start [OF this assms(4)] assms(10)] show ?thesis .
qed

definition unknown_engine :: engine where
  "unknown_engine = (fst (resume_submit ''a'' (Inl TimeoutError) submitted_engine))\<lparr>monotonic := 100, utc := 100\<rparr>"

definition unknown_facts :: "engine \<Rightarrow> bool" where
  "unknown_facts e \<longleftrightarrow> (case ops e of [op] \<Rightarrow> op_pod_id op = ''pod'' \<and> state op = INDETERMINATE \<and> overdue e op \<and>
     en_target e (op_intent op) = Inr [(''ssid'', JStr ''x'')] \<and> remapped e op ''pod'' = Inr False | _ \<Rightarrow> False)"

lemma unknown_example: "monotonic (fst (resume_submit ''a'' (Inl TimeoutError) submitted_engine)) \<le> 100 \<and> unknown_facts unknown_engine"
  by code_simp

lemma unknown_next: "map_sum (\<lambda>_. ()) state (snd (request_internal ''b'' (example_intent ''y'') ''cli'' ''k2'' ''run'' 30 ''semantic'' None
    (fst (reconcile ''pod'' (example_snapshot ''old'') unknown_engine)))) = Inr REJECTED"
  by code_simp

theorem lost_write_blocks_witness:
  "\<exists>e' d. reconcile ''pod'' (example_snapshot ''old'') unknown_engine = (e', Inr (example_snapshot ''old'')) \<and>
     ownership (en_store e') ''pod'' = Some d \<and> d \<noteq> [] \<and>
     map_sum (\<lambda>_. ()) state (snd (request_internal ''b'' (example_intent ''y'') ''cli'' ''k2'' ''run'' 30 ''semantic'' None e')) = Inr REJECTED"
proof -
  let ?s = "example_snapshot ''old''"
  have 1: "engine_step (fst (resume_submit ''a'' (Inl TimeoutError) submitted_engine)) unknown_engine"
    unfolding unknown_engine_def using unknown_example by (intro step_time) simp
  have "reachable engine_init engine_step (fst (resume_submit ''a'' (Inl TimeoutError) submitted_engine))"
    using example_reachable(2) step_submit by (rule reachable_step)
  from this 1 have r: "reachable engine_init engine_step unknown_engine" by (rule reachable_step)
  obtain op where op: "ops unknown_engine = [op]" "op_pod_id op = ''pod''" "state op = INDETERMINATE" "overdue unknown_engine op"
    "en_target unknown_engine (op_intent op) = Inr [(''ssid'', JStr ''x'')]" "remapped unknown_engine op ''pod'' = Inr False"
    using unknown_example by (auto simp: unknown_facts_def split: list.splits)
  have s: "ready ?s" "obs_fresh (observed ?s)" "\<not> matches (sn_config ?s) [(''ssid'', JStr ''x'')]"
    by (simp_all add: example_snapshot_def matches_def dget_def)
  have "op \<in> set (ops unknown_engine)" using op(1) by simp
  from lost_write_blocks [OF r this op(2-5) s op(6)] unknown_next show ?thesis by auto
qed

lemma wait_loop_returns:
  assumes "stop \<le> snd (poll n)" "k \<le> n"
  shows "\<exists>i. k \<le> i \<and> i \<le> n \<and> (\<forall>j. k \<le> j \<and> j < i \<longrightarrow> (\<exists>op. fst (poll j) = Inr op \<and> state op \<in> set ACTIVE)) \<and>
    wait_loop poll stop k = Some (case fst (poll i) of Inl x \<Rightarrow> Inl x
      | Inr op \<Rightarrow> if state op \<in> set ACTIVE then Inl (EmosaError NOT_READY) else Inr op)"
  using assms(2)
proof (induction rule: inc_induct)
  case base
  show ?case using assms(1) by (intro exI [of _ n]) (auto simp: wait_loop.simps [of poll stop n] split: prod.split sum.split)
next
  case (step k)
  show ?case
  proof (cases "\<exists>op. fst (poll k) = Inr op \<and> state op \<in> set ACTIVE \<and> snd (poll k) < stop")
    case True
    then obtain op where op: "fst (poll k) = Inr op" "state op \<in> set ACTIVE" "snd (poll k) < stop" by blast
    then have "wait_loop poll stop k = wait_loop poll stop (Suc k)" by (cases "poll k") (simp add: wait_loop.simps [of poll stop k])
    moreover obtain i where i: "Suc k \<le> i" "i \<le> n" "\<forall>j. Suc k \<le> j \<and> j < i \<longrightarrow> (\<exists>op. fst (poll j) = Inr op \<and> state op \<in> set ACTIVE)"
      "wait_loop poll stop (Suc k) = Some (case fst (poll i) of Inl x \<Rightarrow> Inl x
        | Inr op \<Rightarrow> if state op \<in> set ACTIVE then Inl (EmosaError NOT_READY) else Inr op)" using step.IH by blast
    moreover have "\<exists>op. fst (poll j) = Inr op \<and> state op \<in> set ACTIVE" if "k \<le> j" "j < i" for j
      using i(3) op that by (cases "j = k") auto
    ultimately show ?thesis by (intro exI [of _ i]) simp
  next
    case False
    then show ?thesis using step.hyps by (intro exI [of _ k]) (cases "poll k"; auto simp: wait_loop.simps [of poll stop k] split: sum.split)
  qed
qed

text \<open>C9. Waiting for an operation ends: once a clock reading lies a minute or more after the start, \<open>wait\<close> has
  returned in that round or an earlier one, with what the journal gave then: its error, the operation if it is
  no longer active, and otherwise the program's not-ready error; before that round every reading was active.\<close>

theorem wait_returns:
  assumes "start + 60 \<le> snd (poll n)"
  shows "\<exists>i \<le> n. (\<forall>j < i. \<exists>op. fst (poll j) = Inr op \<and> state op \<in> set ACTIVE) \<and>
    wait poll start timeout = Some (case fst (poll i) of Inl x \<Rightarrow> Inl x
      | Inr op \<Rightarrow> if state op \<in> set ACTIVE then Inl (EmosaError NOT_READY) else Inr op)"
proof -
  have "start + min (max timeout 0) 60 \<le> snd (poll n)" using assms by simp
  from wait_loop_returns [of _ poll n 0, OF this] show ?thesis unfolding wait_def by auto
qed

theorem wait_returns_witness:
  "wait (\<lambda>i. (Inr (example_operation ''a''), real i * 61)) 0 30 = Some (Inl (EmosaError NOT_READY))"
proof -
  have "state (example_operation ''a'') \<in> set ACTIVE" by (simp add: example_operation_def Operation_def ACTIVE_def)
  then show ?thesis using wait_returns [of 0 "\<lambda>i. (Inr (example_operation ''a''), real i * 61)" 1 30] by auto
qed

section \<open>Repeated requests\<close>

text \<open>The checks of a request, and what follows them.\<close>

definition requestable :: "engine \<Rightarrow> dict \<Rightarrow> string \<Rightarrow> string \<Rightarrow> real \<Rightarrow> string \<Rightarrow> dict option \<Rightarrow> dict \<Rightarrow> bool" where
  "requestable e intent source key deadline interface receipt target \<longleftrightarrow>
     en_validate e intent = Inr () \<and> \<not> (interface \<noteq> ''semantic'' \<and> (interface \<noteq> ''wsc-component'' \<or> receipt = None)) \<and>
     \<not> (source = [] \<or> key = [] \<or> length key > 128 \<or> \<not> (0 < deadline \<and> deadline \<le> 3600)) \<and>
     map_of (en_backends e) (pod_of intent) \<noteq> None \<and> en_target e intent = Inr target"

abbreviation request_fingerprint :: "engine \<Rightarrow> dict \<Rightarrow> dict \<Rightarrow> string" where
  "request_fingerprint e intent target \<equiv> en_fingerprint e (JDict (AList.update ''target'' (JDict target) intent))"

lemma request_checked:
  assumes "request_internal ident intent source key run deadline interface receipt e = (e', Inr op)"
  shows "\<exists>target. requestable e intent source key deadline interface receipt target"
  using assms
  by (cases "en_validate e intent"; cases "en_target e intent")
    (auto simp: request_internal_def requestable_def raiseE_def split: if_splits)

lemma request_run:
  assumes "requestable e intent source key deadline interface receipt target"
  shows "request_internal ident intent source key run deadline interface receipt e =
    (let fingerprint = request_fingerprint e intent target in
     case lookup (en_store e) source (pod_of intent) key of
       Some old \<Rightarrow> if intent_fingerprint old \<noteq> fingerprint then raiseE (EmosaError INVALID_INPUT) else returnE old
     | None \<Rightarrow>
         let op = Operation ident run source interface intent fingerprint key (utc e) (utc e) (utc e + deadline) in
         bindE (lift_store (\<lambda>st. add st op receipt)) (\<lambda>_.
         bindE (modifyE (\<lambda>e. e\<lparr>starts := AList.update ident (monotonic e) (starts e),
           deadlines := AList.update ident (monotonic e + deadline) (deadlines e)\<rparr>)) (\<lambda>_. admit op))) e"
proof -
  have c: "\<not> (interface \<noteq> ''semantic'' \<and> (interface \<noteq> ''wsc-component'' \<or> receipt = None))"
    "\<not> (source = [] \<or> key = [] \<or> length key > 128 \<or> \<not> (0 < deadline \<and> deadline \<le> 3600))"
    "\<not> map_of (en_backends e) (pod_of intent) = None" "en_validate e intent = Inr ()" "en_target e intent = Inr target"
    using assms unfolding requestable_def by blast+
  show ?thesis
    unfolding request_internal_def run_bind id_apply c(4,5) sum.case if_not_P [OF c(1)] if_not_P [OF c(2)] if_not_P [OF c(3)] by simp
qed

lemma request_old:
  assumes "requestable e intent source key deadline interface receipt target" "lookup (en_store e) source (pod_of intent) key = Some old"
  shows "request_internal ident intent source key run deadline interface receipt e =
    (e, if intent_fingerprint old = request_fingerprint e intent target then Inr old else Inl (EmosaError INVALID_INPUT))"
  using assms(2) by (simp add: request_run [OF assms(1)] Let_def raiseE_def returnE_def)

lemma request_fresh:
  assumes "requestable e intent source key deadline interface receipt target" "lookup (en_store e) source (pod_of intent) key = None"
    "request_internal ident intent source key run deadline interface receipt e = (e', Inr op')"
  shows "\<exists>op st. add (en_store e) op receipt = Inr st \<and> operation_id op = ident \<and> request_key op = (source, pod_of intent, key) \<and> state op = REQUESTED \<and>
    intent_fingerprint op = request_fingerprint e intent target \<and>
    (e', Inr op') = admit op (e\<lparr>en_store := st, starts := AList.update ident (monotonic e) (starts e),
          deadlines := AList.update ident (monotonic e + deadline) (deadlines e)\<rparr>)"
proof -
  let ?op = "Operation ident run source interface intent (request_fingerprint e intent target) key (utc e) (utc e) (utc e + deadline)"
  obtain st where "add (en_store e) ?op receipt = Inr st"
    using assms(2,3) by (cases "add (en_store e) ?op receipt") (simp_all add: request_run [OF assms(1)] Let_def bindE_def [of "lift_store _"] lift_store_def)
  then show ?thesis using assms(2,3)
    by (intro exI [of _ ?op] exI [of _ st])
      (simp add: request_run [OF assms(1)] Let_def modifyE_def bindE_def [of "lift_store _"] lift_store_def Operation_def request_key_def op_pod_id_def)
qed

lemma request_again:
  assumes acc: "accepts e" and r: "requestable e intent source key deadline interface receipt target"
    and run: "request_internal ident intent source key run deadline interface receipt e = (e', Inr op)"
  shows "requestable e' intent source key deadline interface receipt target \<and> lookup (en_store e') source (pod_of intent) key = Some op \<and>
    intent_fingerprint op = request_fingerprint e' intent target"
proof (cases "lookup (en_store e) source (pod_of intent) key")
  case (Some old)
  then show ?thesis using request_old [OF r Some, of ident run] run r by (auto split: if_splits)
next
  case None
  from request_fresh [OF r None run] obtain op0 st where op0: "add (en_store e) op0 receipt = Inr st" "operation_id op0 = ident"
    "request_key op0 = (source, pod_of intent, key)" "state op0 = REQUESTED" "intent_fingerprint op0 = request_fingerprint e intent target"
    "(e', Inr op) = admit op0 (e\<lparr>en_store := st, starts := AList.update ident (monotonic e) (starts e),
       deadlines := AList.update ident (monotonic e + deadline) (deadlines e)\<rparr>)" (is "_ = admit op0 ?e") by blast
  obtain P where P: "st_operations st = filter P (ops e) @ [op0]" using add_operations_filter [OF op0(1)] by blast
  have ops: "ops ?e = filter P (ops e) @ [op0]" using P by simp
  from admit_result [OF accepts_add [OF acc op0(1)] ops op0(4)] obtain ys op' where
    *: "ops (fst (admit op0 ?e)) = ys @ [op']" "request_key op' = request_key op0" "intent_fingerprint op' = intent_fingerprint op0"
    "snd (admit op0 ?e) = Inr op'" "accepts (fst (admit op0 ?e))" "still ?e (fst (admit op0 ?e))" by blast
  have e': "fst (admit op0 ?e) = e'" "op' = op" using op0(6) [symmetric] *(4) by simp_all
  have "op \<in> set (ops e')" "store_ok (en_store e')" using *(1,5) e' by (simp_all add: accepts_def journal_ok_def)
  then have "lookup (en_store e') source (pod_of intent) key = Some op"
    using lookup_stored [of "en_store e'" op] *(2) op0(3) e'(2) by (simp add: request_key_def)
  then show ?thesis using r *(3,6) op0(5) e' by (simp add: requestable_def still_def)
qed

text \<open>C6. Requests are idempotent: a request that returned an operation, repeated with the same source, key and
  intent by whatever process and under whatever run, returns the same operation and changes nothing; repeated with
  an intent of another fingerprint it is refused as invalid and changes nothing.\<close>

theorem request_idempotent:
  assumes "reachable engine_init engine_step e"
    "request_internal ident intent source key run deadline interface receipt e = (e', Inr op)"
  shows "request_internal ident' intent source key run' deadline interface receipt e' = (e', Inr op) \<and>
    (\<forall>intent' target. requestable e' intent' source key deadline interface receipt target \<and> pod_of intent' = pod_of intent \<and>
       request_fingerprint e' intent' target \<noteq> intent_fingerprint op \<longrightarrow>
       request_internal ident' intent' source key run' deadline interface receipt e' = (e', Inl (EmosaError INVALID_INPUT)))"
proof -
  have acc: "accepts e" using machine.reachable_inv [OF assms(1)] by (simp add: engine_ok_def)
  obtain target where r: "requestable e intent source key deadline interface receipt target" using request_checked [OF assms(2)] by blast
  note again = request_again [OF acc r assms(2)]
  then show ?thesis using request_old [of e' _ source key deadline interface receipt _ op ident' run'] by auto
qed

theorem request_idempotent_witness:
  "\<exists>op. request_internal ''b'' (example_intent ''x'') ''cli'' ''k'' ''other'' 30 ''semantic'' None requested_engine = (requested_engine, Inr op)"
proof -
  let ?run = "request_internal ''a'' (example_intent ''x'') ''cli'' ''k'' ''run'' 30 ''semantic'' None example_engine"
  have "map_sum (\<lambda>_. ()) state (snd ?run) = Inr REQUESTED" by code_simp
  then obtain op where "?run = (requested_engine, Inr op)" unfolding requested_engine_def by (cases ?run; cases "snd ?run") auto
  from request_idempotent [OF example_init this] show ?thesis by blast
qed

lemma recover_result:
  assumes acc: "accepts e"
  shows "snd (recover e) = Inr () \<and>
    map (\<lambda>op. (operation_id op, state op)) (ops (fst (recover e))) = map (\<lambda>op. (operation_id op, recovered op)) (ops e)"
proof -
  have d: "distinct (ops e)" using acc ops_distinct by (simp add: accepts_def)
  have run: "recover e = eachE recover_op (ops e) e" by (simp add: recover_def operations_def)
  have each: "snd (recover e) = Inr () \<and> evolves (\<lambda>p. p \<in> set (ops e)) e (fst (recover e)) \<and>
    (\<forall>x \<in> set (ops e). \<forall>q \<in> set (ops (fst (recover e))). operation_id q = operation_id x \<longrightarrow> state q = recovered x)"
    unfolding run by (rule each_settles) (use recover_op_result d acc in auto)
  have adv: "list_all2 advanced (ops e) (ops (fst (recover e)))" using each acc by (simp add: evolves_def accepts_def)
  have "operation_id (ops (fst (recover e)) ! i) = operation_id (ops e ! i) \<and> state (ops (fst (recover e)) ! i) = recovered (ops e ! i)"
    if "i < length (ops e)" for i
    using that adv each by (auto simp: list_all2_conv_all_nth advanced_def)
  then show ?thesis using each list_all2_lengthD [OF adv] by (auto intro!: nth_equalityI)
qed

text \<open>C5. A restart loses no operation and trusts none that was under way: on the journal of any state the engine
  can reach, recovery returns, keeps every operation in its place, makes a submitted one unknown, cancels a validated
  one and a WSC request that was not sent, and leaves the others as they were; no execution is under way.\<close>

theorem restart_recovers:
  assumes "reachable engine_init engine_step e" "pid \<noteq> []"
    "recover (Engine ((en_store e)\<lparr>process_id := pid\<rparr>) backends validate target fingerprint now time) = (e', r)"
  shows "r = Inr () \<and> tasks e' = [] \<and> busy e' = [] \<and>
    map (\<lambda>op. (operation_id op, state op)) (st_operations (en_store e')) =
    map (\<lambda>op. (operation_id op, recovered op)) (st_operations (en_store e))"
proof -
  let ?e = "Engine ((en_store e)\<lparr>process_id := pid\<rparr>) backends validate target fingerprint now time"
  have "store_ok ((en_store e)\<lparr>process_id := pid\<rparr>) = store_ok (en_store e)" by (simp add: store_ok_def run_events_def)
  then have acc: "accepts ?e" using machine.reachable_inv [OF assms(1)] assms(2)
    by (simp add: engine_ok_def accepts_def journal_ok_def Engine_def)
  have "still ?e e'" using evolves_recover [of ?e] acc assms(3) by (simp add: evolves_def accepts_def)
  then show ?thesis using recover_result [OF acc] assms(3) by (simp add: still_def Engine_def)
qed

theorem restart_recovers_witness:
  "map (\<lambda>op. (operation_id op, state op)) (st_operations (en_store (fst (recover
     (Engine ((en_store submitted_engine)\<lparr>process_id := ''q''\<rparr>) [] (\<lambda>_. Inr ()) (\<lambda>_. Inr []) (\<lambda>_. []) 0 0))))) = [(''a'', INDETERMINATE)]"
proof -
  obtain op where op: "ops submitted_engine = [op]" "operation_id op = ''a''" "state op = SUBMITTED"
    using submitted_summary by (auto simp: summary_def entries_of_def entry_of_def)
  let ?e = "Engine ((en_store submitted_engine)\<lparr>process_id := ''q''\<rparr>) [] (\<lambda>_. Inr ()) (\<lambda>_. Inr []) (\<lambda>_. []) 0 0"
  have "recover ?e = (fst (recover ?e), snd (recover ?e))" by simp
  from restart_recovers [OF example_reachable(2) _ this] op show ?thesis by (simp add: recovered_def)
qed

end
