(* ===== verification/Spec2Isabelle.thy ===== *)
theory Spec2Isabelle
  imports Wsc_Exchange Unassociated Engine_Properties
begin

text \<open>
  Verification of EMOSA, the adapter that presents an unchanged OpenSync pod to an EasyMesh controller as an agent.

  The program, under \<open>src/src/emosa\<close>, has three layers.  Towards the controller, IEEE 1905 frames are reassembled into
  messages (\<open>wire/cmdu.py\<close>), whose TLV values are those of \<open>easymesh_payloads.py\<close>, \<open>he_mcs.py\<close> and
  \<open>wire/topology_values.py\<close>; discovery (\<open>wire/autoconfiguration.py\<close>) finds the controller, the Wi-Fi Simple
  Configuration messages (\<open>wsc.py\<close>, \<open>wsc_messages.py\<close>, \<open>wsc_radio.py\<close>) bring the configuration, reports (\<open>wire/reports.py\<close>) say what the
  pod is, and coordinators answer further requests (\<open>wire/steering.py\<close>, \<open>wire/unassociated.py\<close>) from the facts the
  source of reports publishes (\<open>wire/coordinator.py\<close>).  In the middle, a configuration becomes an operation with a guarded
  lifecycle (\<open>model.py\<close>, \<open>operations.py\<close>), kept in a journal (\<open>store.py\<close>) and driven by the engine (\<open>reconcile.py\<close>).
  Towards the pod, backends implement the interface of \<open>backends/base.py\<close>.

  \<^bold>\<open>Theories.\<close>
  \<^item> \<open>Emosa_Prelude\<close>: results, octets, Python slices and digits, readers; the interfaces \<open>prefix_codec\<close>, \<open>exact_codec\<close> and
    \<open>value_codec\<close> of wire formats and \<open>state_invariant\<close> of components with a state.
  \<^item> \<open>Cmdu\<close>, \<open>Reassembly\<close>: \<open>wire/cmdu.py\<close>.  The frames of a message are sound and, fed in any order with repetitions, give
    back the message; budgets hold in every reachable state; a conflicting fragment poisons its message.
  \<^item> \<open>He_Mcs\<close>, \<open>Easymesh_Payloads\<close>, \<open>Topology_Values\<close>: the values.  Every value an encoder accepts is decoded to itself, the
    decoders read nothing but these layouts, and their refusals are classified.
  \<^item> \<open>Hmac_Sha256\<close>, \<open>Wsc\<close>, \<open>Wsc_Messages\<close>: \<open>wsc.py\<close> and \<open>wsc_messages.py\<close>.  A message verifies exactly when it was
    authenticated with the same keys; an M2 is accepted exactly when it answers the M1 that was sent and authenticates
    under the keys of the exchange; a created M1 carries every fact of the device.
  \<^item> \<open>Autoconfiguration\<close>: discovery.  A Search of the EasyMesh 6.1 message set is understood by its parser; an exchange, beside
    the other users of the message-ID sequence, keeps its budget, gives each Search its own identifier and never changes
    an accepted advertisement, and accepts only the responses it should.
  \<^item> \<open>Wsc_Exchange\<close>: \<open>wsc_radio.py\<close> and the WSC exchange of \<open>wire/autoconfiguration.py\<close>.  What is accepted is given exactly
    and authenticates against the M1 of the exchange; one exchange yields one configuration; a failed one is final.
  \<^item> \<open>Reports\<close>, \<open>Report_Source\<close>: reports, their guarded delivery, and the source of the facts.  No frame leaves after a guard
    failed; the controller that reassembles a report decodes exactly the facts; equal tokens mean equal facts and no
    invalidation in between; what is no longer known is withdrawn.
  \<^item> \<open>Steering\<close>, \<open>Unassociated\<close>: two coordinators on top of them.  Their readers are exact; a steering request is handed over
    exactly under the stated conditions and not twice within five seconds; every queried station is answered once, and what
    is reported of it is what a recent probe gave.
  \<^item> \<open>Operations\<close>, \<open>Journal\<close>: the transition guard, the tables with retention, redaction, write keys.
  \<^item> \<open>Engine\<close> (the code), \<open>Engine_Lifecycle\<close> (the specification machine of operations and the refinement of it by every
    operation), \<open>Engine_Tasks\<close> (the invariant of suspended executions), \<open>Engine_Records\<close> (what the records of open
    operations hold, kept by every operation), \<open>Engine_Machine\<close> (the step relation of the engine and its two invariants), \<open>Engine_Properties\<close> (the theorems): at every await point any other operation may run; whatever is
    interleaved, the journal moves along the specification, a pod has one active operation, a submission is recorded
    before it is sent, reconciliation settles what is past its deadline, and recovery is total.

  \<^bold>\<open>Correspondence.\<close>  A class is a record, a union a datatype, a method a function that returns the updated record; a raised
  exception is a left value.  An operation that sends returns the frames it handed to the socket, also when it raises.
  What an operation reads from outside (clock readings, the outcome of a write or of an awaited call, fresh
  identifiers, random octets) is an argument, one per place of the code that reads it, so that a theorem holds for every
  outcome.  Code of third-party packages (block cipher, padding, Diffie-Hellman exchange, JSON schema check) is a parameter;
  the hypotheses on it are its documented laws, and witnesses instantiate it.  Text is the list of its UTF-8 octets, so the
  bounds on the length of keys, tokens and interface names count octets where Python counts code points, and digits are the
  ASCII ones; two JSON values are equal when they are the same value with the same order of keys, where Python also
  identifies 1 with true.  The schema of events is not represented: the program builds the events itself, and the schema of
  operations, which it checks before every write, is a parameter of the journal.

  \<^bold>\<open>Bounds.\<close>  Loops are structural recursions or have a measure; there is no fuel.  The loop of \<open>wait\<close> runs until a clock
  reading ends it: it is a partial function of the sequence of readings, and it is proved to have returned once a reading
  lies a minute after the start.

  \<^bold>\<open>Not modelled.\<close>  Sockets, subprocesses, files, SQLite and TLS sessions; the agent and fleet processes (\<open>agent\<close>) and the
  OVSDB scopes (\<open>opensync\<close>) that implement the backend interface: their effects are outcomes the engine takes as arguments.
  Of the wire procedures, channel selection, link and AP metrics, disassociation, backhaul steering, the reporting
  policy, the bridge to the engine and the onboarding lifecycle, which are further clients of the modelled envelope, values, reports
  and source.  The capability input files, descriptions and log lines, which are text for an operator.  The C
  implementation under \<open>src/c\<close>, the laboratory, deployment and check scripts.  Floating-point rounding of clock values and
  the message texts of exceptions are not represented.
\<close>

end
